(* ===== verification/Prelude.thy ===== *)
theory Prelude
  imports Main "HOL-Library.Word"
begin

text \<open>
  The prelude of the development: the collections the component theories fill, the
  result type of fallible Go functions, and the generic facts on lists, sums and 64-bit
  integers that several components use.

  \<^item> A Go function that returns \<open>(T, error)\<close> is a function into \<open>'e + 'a\<close>:
    \<open>Inl e\<close> is a non-nil error, \<open>Inr v\<close> is the value with a nil error.
  \<^item> A Go function that returns only \<open>error\<close> returns \<open>'e option\<close>:
    \<open>None\<close> is nil.
  \<^item> \<open>int64\<close> is a 64-bit word read with \<open>sint\<close>; \<open>+\<close>, \<open>-\<close> and \<open>*\<close>
    wrap as they do in Go.
\<close>

named_theorems consumer_defs \<open>definitions of the consumer's effects\<close>
named_theorems world_defs \<open>definitions of the concrete environment\<close>

type_synonym int64 = "64 word"

subsection \<open>Results\<close>

fun bind_sum :: "'e + 'a \<Rightarrow> ('a \<Rightarrow> 'e + 'b) \<Rightarrow> 'e + 'b" where
  "bind_sum (Inl e) f = Inl e"
| "bind_sum (Inr a) f = f a"

lemma bind_sum_eq_Inr [simp]:
  "bind_sum r f = Inr b \<longleftrightarrow> (\<exists>a. r = Inr a \<and> f a = Inr b)"
  by (cases r) auto

lemma bind_sum_eq_Inl [simp]:
  "bind_sum r f = Inl e \<longleftrightarrow> (r = Inl e \<or> (\<exists>a. r = Inr a \<and> f a = Inl e))"
  by (cases r) auto

subsection \<open>Signed 64-bit integers\<close>

abbreviation int64_max :: int where "int64_max \<equiv> 9223372036854775807"
abbreviation int64_min :: int where "int64_min \<equiv> - 9223372036854775808"

definition in_int64 :: "int \<Rightarrow> bool" where
  "in_int64 i \<longleftrightarrow> int64_min \<le> i \<and> i \<le> int64_max"

text \<open>Two's complement truncation to 64 bits, as an integer.\<close>

definition wrap64 :: "int \<Rightarrow> int" where
  "wrap64 i = (i + 2 ^ 63) mod 2 ^ 64 - 2 ^ 63"

lemma wrap64_id [simp]: "in_int64 i \<Longrightarrow> wrap64 i = i"
  by (simp add: wrap64_def in_int64_def)

lemma wrap64_signed_take_bit: "wrap64 i = signed_take_bit 63 i"
  by (simp add: wrap64_def signed_take_bit_eq_take_bit_shift take_bit_eq_mod)

lemma in_int64_wrap64 [simp]: "in_int64 (wrap64 i)"
  by (simp add: wrap64_def in_int64_def)

lemma sint64_range: "in_int64 (sint (w :: int64))"
  using sint_ge [of w] sint_lt [of w] by (simp add: in_int64_def)

lemma sint64_ge: "int64_min \<le> sint (w :: int64)"
  and sint64_le: "sint (w :: int64) \<le> int64_max"
  using sint64_range [of w] by (auto simp: in_int64_def)

lemma sint_word_of_int64: "sint (word_of_int i :: int64) = wrap64 i"
  by (simp add: sint_sbintrunc' wrap64_signed_take_bit)

lemma sint_word_of_int64_id: "in_int64 i \<Longrightarrow> sint (word_of_int i :: int64) = i"
  by (simp add: sint_word_of_int64)

lemma word64_sint_eq: "a = b \<longleftrightarrow> sint (a :: int64) = sint b"
  by (metis of_int_sint scast_id)

lemma sint64_plus: "sint (a + b :: int64) = wrap64 (sint a + sint b)"
  by (simp add: sint_word_add wrap64_signed_take_bit)

lemma sint64_minus: "sint (a - b :: int64) = wrap64 (sint a - sint b)"
  by (simp add: sint_word_diff wrap64_signed_take_bit)

lemma sint64_times: "sint (a * b :: int64) = wrap64 (sint a * sint b)"
  by (simp add: sint_word_mult wrap64_signed_take_bit)

lemma sint64_uminus: "sint (- a :: int64) = wrap64 (- sint a)"
  by (simp add: sint_word_minus wrap64_signed_take_bit)

lemmas sint64_arith = sint64_plus sint64_minus sint64_times sint64_uminus

subsection \<open>Lists\<close>

lemma takeWhile_append_stop:
  "\<lbrakk>\<forall>x\<in>set xs. P x; \<not> P y\<rbrakk> \<Longrightarrow> takeWhile P (xs @ y # ys) = xs"
  by (induction xs) auto

lemma dropWhile_append_stop:
  "\<lbrakk>\<forall>x\<in>set xs. P x; \<not> P y\<rbrakk> \<Longrightarrow> dropWhile P (xs @ y # ys) = y # ys"
  by (induction xs) auto

subsection \<open>Results of effectful operations\<close>

text \<open>A state, a trace and a result, split by what the result is.\<close>

lemma result3: "snd (snd x) = r \<Longrightarrow> x = (fst x, fst (snd x), r)"
  by (cases x) auto

end
