(* ===== verification/Go_Std.thy ===== *)
theory Go_Std
  imports Prelude
begin

text \<open>
  The parts of Go's standard library the repository calls, written out: \<open>strconv.ParseInt\<close>
  (base 10, 64 bits) and \<open>strconv.Itoa\<close>, \<open>strings.TrimSpace\<close>, \<open>strings.Split\<close>,
  \<open>strings.Join\<close>, \<open>strings.ToLower\<close> on ASCII, and the integer conversions. A Go string is a
  byte string: a \<open>char\<close> is one byte.
\<close>

subsection \<open>Bytes and digits\<close>

definition code :: "char \<Rightarrow> int" where
  "code c = of_char c"

definition byte :: "int \<Rightarrow> char" where
  "byte n = char_of n"

definition is_digit :: "char \<Rightarrow> bool" where
  "is_digit c \<longleftrightarrow> 48 \<le> code c \<and> code c \<le> 57"

definition digit_val :: "char \<Rightarrow> int" where
  "digit_val c = code c - 48"

definition digit_char :: "int \<Rightarrow> char" where
  "digit_char d = byte (48 + d)"

lemma code_byte [simp]: "\<lbrakk>0 \<le> n; n < 256\<rbrakk> \<Longrightarrow> code (byte n) = n"
  by (simp add: code_def byte_def)

lemma code_range: "0 \<le> code c" "code c < 256"
proof -
  have "code c = code c mod 256" by (simp add: code_def)
  moreover have "0 \<le> code c mod 256" "code c mod 256 < 256" by simp_all
  ultimately show "0 \<le> code c" "code c < 256" by linarith+
qed

lemma byte_code [simp]: "byte (code c) = c"
  by (simp add: code_def byte_def)

lemma code_eq_iff: "code a = code b \<longleftrightarrow> a = b"
  by (simp add: code_def)

lemma digit_val_lt: "is_digit c \<Longrightarrow> digit_val c < 10"
  and digit_val_ge: "is_digit c \<Longrightarrow> 0 \<le> digit_val c"
  by (auto simp: is_digit_def digit_val_def)

lemma is_digit_char [simp]: "\<lbrakk>0 \<le> d; d < 10\<rbrakk> \<Longrightarrow> is_digit (digit_char d)"
  by (simp add: is_digit_def digit_char_def)

lemma digit_val_char [simp]: "\<lbrakk>0 \<le> d; d < 10\<rbrakk> \<Longrightarrow> digit_val (digit_char d) = d"
  by (simp add: digit_val_def digit_char_def)

lemma not_digit [simp]:
  "\<not> is_digit CHR ''-''" "\<not> is_digit CHR ''+''" "\<not> is_digit CHR ''.''"
  by (simp_all add: is_digit_def code_def)

lemma digit_neq_sign [simp]:
  assumes "is_digit c"
  shows "c \<noteq> CHR ''-''" "c \<noteq> CHR ''+''" "c \<noteq> CHR ''.''"
  using assms by auto

subsection \<open>strconv.ParseInt(s, 10, 64)\<close>

datatype num_error = ErrSyntax | ErrRange

text \<open>
  The digit loop of \<open>strconv.ParseUint\<close> stops at the first byte that is no digit or at the
  first overflow of 64 bits, whichever comes first.
\<close>

fun parse_uint_loop :: "int \<Rightarrow> string \<Rightarrow> num_error + int" where
  "parse_uint_loop n [] = Inr n"
| "parse_uint_loop n (c # cs) =
     (if \<not> is_digit c then Inl ErrSyntax
      else let m = n * 10 + digit_val c in
        if m > 18446744073709551615 then Inl ErrRange else parse_uint_loop m cs)"

definition parse_uint :: "string \<Rightarrow> num_error + int" where
  "parse_uint s = (if s = [] then Inl ErrSyntax else parse_uint_loop 0 s)"

definition ParseInt :: "string \<Rightarrow> num_error + int64" where
  "ParseInt s =
     (case s of [] \<Rightarrow> Inl ErrSyntax
      | c # cs \<Rightarrow>
        let neg = (c = CHR ''-'');
            body = (if c = CHR ''-'' \<or> c = CHR ''+'' then cs else s) in
        case parse_uint body of Inl e \<Rightarrow> Inl e
        | Inr un \<Rightarrow>
            if \<not> neg \<and> un \<ge> 9223372036854775808 then Inl ErrRange
            else if neg \<and> un > 9223372036854775808 then Inl ErrRange
            else Inr (word_of_int (if neg then - un else un)))"

text \<open>The number a digit string denotes.\<close>

fun digits_val :: "int \<Rightarrow> string \<Rightarrow> int" where
  "digits_val n [] = n"
| "digits_val n (c # cs) = digits_val (n * 10 + digit_val c) cs"

definition all_digits :: "string \<Rightarrow> bool" where
  "all_digits s \<longleftrightarrow> s \<noteq> [] \<and> list_all is_digit s"

definition dec :: "string \<Rightarrow> int" where
  "dec s = digits_val 0 s"

lemma digits_val_ge: "\<lbrakk>0 \<le> n; list_all is_digit s\<rbrakk> \<Longrightarrow> n \<le> digits_val n s"
proof (induction s arbitrary: n)
  case (Cons c cs)
  then have "0 \<le> digit_val c" by (simp add: digit_val_ge)
  with Cons.prems have "n \<le> n * 10 + digit_val c" by simp
  also have "\<dots> \<le> digits_val (n * 10 + digit_val c) cs"
    using Cons.prems \<open>0 \<le> digit_val c\<close> by (intro Cons.IH) auto
  finally show ?case by simp
qed simp

lemma digits_val_linear: "digits_val n s = n * 10 ^ length s + digits_val 0 s"
proof (induction s arbitrary: n)
  case (Cons c cs)
  have "digits_val 0 (c # cs) = digit_val c * 10 ^ length cs + digits_val 0 cs"
    using Cons.IH [of "digit_val c"] by simp
  moreover have "digits_val n (c # cs) = (n * 10 + digit_val c) * 10 ^ length cs + digits_val 0 cs"
    using Cons.IH [of "n * 10 + digit_val c"] by simp
  ultimately show ?case by (simp add: algebra_simps)
qed simp

lemma dec_append: "dec (s @ t) = dec s * 10 ^ length t + dec t"
proof -
  have "digits_val n (s @ t) = digits_val (digits_val n s) t" for n
    by (induction s arbitrary: n) auto
  then show ?thesis
    unfolding dec_def by (metis digits_val_linear)
qed

lemma dec_snoc: "dec (s @ [c]) = dec s * 10 + digit_val c"
  by (simp add: dec_append) (simp add: dec_def)

lemma dec_nonneg: "list_all is_digit s \<Longrightarrow> 0 \<le> dec s"
  using digits_val_ge [of 0 s] by (simp add: dec_def)

lemma dec_bound: "list_all is_digit s \<Longrightarrow> dec s < 10 ^ length s"
proof (induction s rule: rev_induct)
  case (snoc c cs)
  then have "dec cs < 10 ^ length cs" "digit_val c < 10"
    by (auto dest: digit_val_lt)
  then show ?case by (simp add: dec_snoc)
qed (simp add: dec_def)

lemma parse_uint_loop_digits:
  "\<lbrakk>list_all is_digit s; 0 \<le> n\<rbrakk> \<Longrightarrow> parse_uint_loop n s =
     (if digits_val n s \<le> 18446744073709551615 \<or> s = [] then Inr (digits_val n s) else Inl ErrRange)"
proof (induction s arbitrary: n)
  case (Cons c cs)
  then have nn: "0 \<le> n * 10 + digit_val c" by (simp add: digit_val_ge)
  with Cons.prems have ge: "n * 10 + digit_val c \<le> digits_val (n * 10 + digit_val c) cs"
    by (intro digits_val_ge) auto
  show ?case
  proof (cases "n * 10 + digit_val c > 18446744073709551615")
    case True
    with Cons.prems ge show ?thesis by (simp add: Let_def)
  next
    case False
    with Cons nn show ?thesis by (auto simp: Let_def)
  qed
qed simp

lemma parse_uint_loop_Inr:
  "parse_uint_loop n s = Inr m \<Longrightarrow> list_all is_digit s \<and> m = digits_val n s"
  by (induction n s rule: parse_uint_loop.induct) (auto simp: Let_def split: if_splits)

lemma parse_uint_iff:
  "parse_uint s = Inr m \<longleftrightarrow> all_digits s \<and> m = dec s \<and> dec s \<le> 18446744073709551615"
proof
  assume "parse_uint s = Inr m"
  then have s: "s \<noteq> []" "parse_uint_loop 0 s = Inr m"
    by (auto simp: parse_uint_def split: if_splits)
  from parse_uint_loop_Inr [OF s(2)] s(1)
  have "all_digits s" "m = dec s" by (auto simp: all_digits_def dec_def)
  moreover have "dec s \<le> 18446744073709551615"
    using s parse_uint_loop_digits [of s 0] \<open>all_digits s\<close>
    by (auto simp: all_digits_def dec_def split: if_splits)
  ultimately show "all_digits s \<and> m = dec s \<and> dec s \<le> 18446744073709551615" by simp
next
  assume "all_digits s \<and> m = dec s \<and> dec s \<le> 18446744073709551615"
  then show "parse_uint s = Inr m"
    by (auto simp: parse_uint_def all_digits_def dec_def parse_uint_loop_digits)
qed

lemma all_digits_nonneg: "all_digits s \<Longrightarrow> 0 \<le> dec s"
  by (simp add: all_digits_def dec_nonneg)

text \<open>
  The reading of a decimal string that \<open>ParseInt\<close> implements: an optional sign, then one or
  more digits, with a value that fits.
\<close>

definition int_of_string :: "string \<Rightarrow> int option" where
  "int_of_string s =
     (case s of [] \<Rightarrow> None
      | c # cs \<Rightarrow>
          if c = CHR ''-'' then (if all_digits cs then Some (- dec cs) else None)
          else if c = CHR ''+'' then (if all_digits cs then Some (dec cs) else None)
          else if all_digits s then Some (dec s) else None)"

lemma ParseInt_iff:
  "ParseInt s = Inr w \<longleftrightarrow> int_of_string s = Some (sint w)"
proof (cases s)
  case (Cons c cs)
  define neg where "neg = (c = CHR ''-'')"
  define body where "body = (if c = CHR ''-'' \<or> c = CHR ''+'' then cs else s)"
  define v where "v = (if neg then - dec body else dec body)"
  have spec: "int_of_string s = (if all_digits body then Some v else None)"
    using Cons by (auto simp: int_of_string_def neg_def body_def v_def)
  have run: "ParseInt s = (case parse_uint body of Inl e \<Rightarrow> Inl e
      | Inr un \<Rightarrow> if \<not> neg \<and> un \<ge> 9223372036854775808 then Inl ErrRange
         else if neg \<and> un > 9223372036854775808 then Inl ErrRange
         else Inr (word_of_int (if neg then - un else un)))"
    by (simp only: ParseInt_def Cons neg_def body_def list.case Let_def)
  show ?thesis
  proof
    assume "ParseInt s = Inr w"
    then obtain un where un: "parse_uint body = Inr un"
      and w: "w = word_of_int (if neg then - un else un)"
      and r: "neg \<or> un < 9223372036854775808" "\<not> neg \<or> un \<le> 9223372036854775808"
      unfolding run by (auto split: sum.splits if_splits)
    from un have d: "all_digits body" "un = dec body" by (auto simp: parse_uint_iff)
    from r d all_digits_nonneg [of body] have "in_int64 v"
      by (auto simp: in_int64_def v_def)
    moreover from w d have "w = word_of_int v" by (simp only: v_def)
    ultimately have "sint w = v" by (simp only: sint_word_of_int64_id)
    with spec d show "int_of_string s = Some (sint w)" by simp
  next
    assume "int_of_string s = Some (sint w)"
    then have d: "all_digits body" and v: "v = sint w"
      using spec by (auto split: if_splits)
    have r: "in_int64 v" using v sint64_range by simp
    then have "dec body \<le> 18446744073709551615"
      by (auto simp: in_int64_def v_def split: if_splits)
    with d have un: "parse_uint body = Inr (dec body)" by (simp add: parse_uint_iff)
    from r have g: "neg \<or> dec body < 9223372036854775808" "\<not> neg \<or> dec body \<le> 9223372036854775808"
      by (auto simp: in_int64_def v_def split: if_splits)
    have "word_of_int v = w" using v by simp
    then show "ParseInt s = Inr w"
      unfolding run un using g by (auto simp: v_def)
  qed
qed (simp add: ParseInt_def int_of_string_def)

lemma ParseInt_value:
  "\<lbrakk>int_of_string s = Some i; in_int64 i\<rbrakk> \<Longrightarrow> ParseInt s = Inr (word_of_int i)"
  by (simp add: ParseInt_iff sint_word_of_int64_id)

lemma ParseInt_digits:
  assumes "all_digits s"
  shows "ParseInt s =
    (if dec s \<le> int64_max then Inr (word_of_int (dec s)) else Inl ErrRange)"
proof -
  from assms obtain c cs where s: "s = c # cs" and c: "is_digit c"
    by (cases s) (auto simp: all_digits_def)
  have "parse_uint s = (if dec s \<le> 18446744073709551615 then Inr (dec s) else Inl ErrRange)"
    using assms parse_uint_loop_digits [of s 0]
    by (simp add: parse_uint_def all_digits_def dec_def)
  with c show ?thesis
    by (simp add: ParseInt_def s Let_def)
qed

lemma ParseInt_Inr_cases:
  assumes "ParseInt s = Inr w"
  shows "(all_digits s \<and> sint w = dec s) \<or>
    (\<exists>cs. s = CHR ''-'' # cs \<and> all_digits cs \<and> sint w = - dec cs) \<or>
    (\<exists>cs. s = CHR ''+'' # cs \<and> all_digits cs \<and> sint w = dec cs)"
  using assms by (auto simp: ParseInt_iff int_of_string_def split: list.splits if_splits)

subsection \<open>strconv.Itoa\<close>

function nat_digits :: "int \<Rightarrow> string" where
  "nat_digits n = (if n < 10 then [digit_char n] else nat_digits (n div 10) @ [digit_char (n mod 10)])"
  by pat_completeness auto
termination
  by (relation "measure nat") auto

declare nat_digits.simps [simp del]

definition Itoa :: "int \<Rightarrow> string" where
  "Itoa i = (if i < 0 then CHR ''-'' # nat_digits (- i) else nat_digits i)"

lemma nat_digits_nonempty [simp]: "nat_digits n \<noteq> []"
  by (subst nat_digits.simps) simp

lemma nat_digits_all: "0 \<le> n \<Longrightarrow> list_all is_digit (nat_digits n)"
proof (induction n rule: nat_digits.induct)
  case (1 n)
  then show ?case by (subst nat_digits.simps) simp
qed

lemma all_digits_nat_digits [simp]: "0 \<le> n \<Longrightarrow> all_digits (nat_digits n)"
  by (simp add: all_digits_def nat_digits_all)

lemma dec_nat_digits [simp]: "0 \<le> n \<Longrightarrow> dec (nat_digits n) = n"
proof (induction n rule: nat_digits.induct)
  case (1 n)
  show ?case
  proof (cases "n < 10")
    case True
    with 1 show ?thesis by (subst nat_digits.simps) (simp add: dec_def)
  next
    case False
    with 1 show ?thesis by (subst nat_digits.simps) (simp add: dec_snoc)
  qed
qed

lemma hd_nat_digits: "0 \<le> n \<Longrightarrow> \<exists>c cs. nat_digits n = c # cs \<and> is_digit c"
  using nat_digits_all [of n] nat_digits_nonempty [of n]
  by (cases "nat_digits n") auto

text \<open>Printing and parsing an integer are inverse.\<close>

lemma int_of_string_digits:
  "all_digits s \<Longrightarrow> int_of_string s = Some (dec s)"
  by (cases s) (auto simp: int_of_string_def all_digits_def)

lemma int_of_string_Itoa [simp]: "int_of_string (Itoa i) = Some i"
  by (cases "i < 0") (simp_all add: Itoa_def int_of_string_digits, simp add: int_of_string_def)

lemma Itoa_inj: "Itoa i = Itoa j \<longleftrightarrow> i = j"
  by (metis int_of_string_Itoa option.inject)

lemma ParseInt_Itoa: "in_int64 i \<Longrightarrow> ParseInt (Itoa i) = Inr (word_of_int i)"
  by (rule ParseInt_value) simp_all

subsection \<open>strings.Split and strings.Join\<close>

text \<open>\<open>strings.Split(s, sep)\<close> for a one-byte separator: one part more than separators.\<close>

fun Split :: "char \<Rightarrow> string \<Rightarrow> string list" where
  "Split sep [] = [[]]"
| "Split sep (c # cs) =
     (if c = sep then [] # Split sep cs
      else (case Split sep cs of [] \<Rightarrow> [[c]] | p # ps \<Rightarrow> (c # p) # ps))"

lemma Split_nonempty [simp]: "Split sep s \<noteq> []"
  by (induction s) (auto split: list.splits)

lemma Split_none: "sep \<notin> set s \<Longrightarrow> Split sep s = [s]"
  by (induction s) auto

lemma Split_append_sep: "sep \<notin> set a \<Longrightarrow> Split sep (a @ sep # b) = a # Split sep b"
  by (induction a) auto

lemma Split_two: "Split sep s = [a, b] \<longleftrightarrow> s = a @ sep # b \<and> sep \<notin> set a \<and> sep \<notin> set b"
proof
  assume "Split sep s = [a, b]"
  then show "s = a @ sep # b \<and> sep \<notin> set a \<and> sep \<notin> set b"
  proof (induction s arbitrary: a)
    case (Cons c cs)
    show ?case
    proof (cases "c = sep")
      case True
      with Cons.prems have "a = []" "Split sep cs = [b]" by auto
      moreover from this(2) have "cs = b \<and> sep \<notin> set b"
        by (induction cs arbitrary: b) (auto split: if_splits list.splits)
      ultimately show ?thesis using True by simp
    next
      case False
      then obtain p where "Split sep cs = [p, b]" "a = c # p"
        using Cons.prems by (auto split: list.splits)
      with Cons.IH [of p] False show ?thesis by simp
    qed
  qed simp
qed (simp add: Split_append_sep Split_none)

fun Join :: "string list \<Rightarrow> string \<Rightarrow> string" where
  "Join [] sep = []"
| "Join [s] sep = s"
| "Join (s # ss) sep = s @ sep @ Join ss sep"

lemma Join_Split: "Join (Split sep s) [sep] = s"
proof (induction s)
  case (Cons c cs)
  obtain p ps where "Split sep cs = p # ps"
    by (cases "Split sep cs") auto
  with Cons show ?case by (cases ps) auto
qed simp

subsection \<open>strings.TrimSpace\<close>

text \<open>
  \<open>TrimSpace\<close> removes the code points \<open>unicode.IsSpace\<close> accepts, at both ends of the UTF-8
  string: six ASCII bytes, and the multi-byte encodings of U+0085, U+00A0, U+1680,
  U+2000 to U+200A, U+2028, U+2029, U+202F, U+205F and U+3000.
\<close>

definition space_codes :: "int list list" where
  "space_codes =
     [[9], [10], [11], [12], [13], [32],
      [0xC2, 0x85], [0xC2, 0xA0], [0xE1, 0x9A, 0x80],
      [0xE2, 0x80, 0x80], [0xE2, 0x80, 0x81], [0xE2, 0x80, 0x82], [0xE2, 0x80, 0x83],
      [0xE2, 0x80, 0x84], [0xE2, 0x80, 0x85], [0xE2, 0x80, 0x86], [0xE2, 0x80, 0x87],
      [0xE2, 0x80, 0x88], [0xE2, 0x80, 0x89], [0xE2, 0x80, 0x8A],
      [0xE2, 0x80, 0xA8], [0xE2, 0x80, 0xA9], [0xE2, 0x80, 0xAF],
      [0xE2, 0x81, 0x9F], [0xE3, 0x80, 0x80]]"

fun strip_prefix :: "int list \<Rightarrow> string \<Rightarrow> string option" where
  "strip_prefix [] s = Some s"
| "strip_prefix (p # ps) [] = None"
| "strip_prefix (p # ps) (c # cs) = (if code c = p then strip_prefix ps cs else None)"

fun strip_any :: "int list list \<Rightarrow> string \<Rightarrow> string option" where
  "strip_any [] s = None"
| "strip_any (p # ps) s = (case strip_prefix p s of Some r \<Rightarrow> Some r | None \<Rightarrow> strip_any ps s)"

lemma strip_prefix_length: "strip_prefix p s = Some r \<Longrightarrow> length r + length p = length s"
  by (induction p s rule: strip_prefix.induct) (auto split: if_splits)

lemma strip_any_length:
  "\<lbrakk>strip_any ps s = Some r; [] \<notin> set ps\<rbrakk> \<Longrightarrow> length r < length s"
proof (induction ps)
  case (Cons p ps)
  then show ?case
    using strip_prefix_length [of p s] by (cases p) (auto split: option.splits)
qed simp

function trim_left :: "int list list \<Rightarrow> string \<Rightarrow> string" where
  "trim_left ps s =
     (if [] \<in> set ps then s
      else case strip_any ps s of None \<Rightarrow> s | Some r \<Rightarrow> trim_left ps r)"
  by pat_completeness auto
termination
  by (relation "measure (\<lambda>(ps, s). length s)") (auto simp: strip_any_length)

declare trim_left.simps [simp del]

definition TrimSpace :: "string \<Rightarrow> string" where
  "TrimSpace s = rev (trim_left (map rev space_codes) (rev (trim_left space_codes s)))"

definition starts_space :: "string \<Rightarrow> bool" where
  "starts_space s \<longleftrightarrow> strip_any space_codes s \<noteq> None"

definition ends_space :: "string \<Rightarrow> bool" where
  "ends_space s \<longleftrightarrow> strip_any (map rev space_codes) (rev s) \<noteq> None"

lemma TrimSpace_id:
  "\<lbrakk>\<not> starts_space s; \<not> ends_space s\<rbrakk> \<Longrightarrow> TrimSpace s = s"
  unfolding TrimSpace_def starts_space_def ends_space_def
  by (subst trim_left.simps, simp)+

text \<open>A string whose first and last bytes are printable ASCII is not trimmed.\<close>

definition graphic :: "char \<Rightarrow> bool" where
  "graphic c \<longleftrightarrow> 33 \<le> code c \<and> code c \<le> 126"

lemma not_starts_space: "graphic c \<Longrightarrow> \<not> starts_space (c # s)"
  by (auto simp: graphic_def starts_space_def space_codes_def)

lemma not_ends_space: "graphic c \<Longrightarrow> \<not> ends_space (s @ [c])"
  by (auto simp: graphic_def ends_space_def space_codes_def)

lemma TrimSpace_graphic:
  assumes "s \<noteq> []" "graphic (hd s)" "graphic (last s)"
  shows "TrimSpace s = s"
proof (rule TrimSpace_id)
  from assms show "\<not> starts_space s"
    by (cases s) (auto dest: not_starts_space)
  from assms show "\<not> ends_space s"
    by (cases s rule: rev_cases) (auto dest: not_ends_space)
qed

lemma graphic_digit: "is_digit c \<Longrightarrow> graphic c"
  by (simp add: is_digit_def graphic_def)

lemma graphic_punct [simp]:
  "graphic CHR ''-''" "graphic CHR ''+''" "graphic CHR ''.''"
  by (simp_all add: graphic_def code_def)

subsection \<open>strings.ToLower on ASCII\<close>

definition lower_char :: "char \<Rightarrow> char" where
  "lower_char c = (if 65 \<le> code c \<and> code c \<le> 90 then byte (code c + 32) else c)"

end
