(* ===== verification/Go_Errors.thy ===== *)
theory Go_Errors
  imports Go_Std
begin

text \<open>
  Go error values. The sentinels are the package-level \<open>errors.New\<close> values of the repository
  (\<open>pkg/money/amount.go\<close>, \<open>internal/domain/errors.go\<close>, \<open>internal/repository/errors.go\<close>) and
  the two context errors. \<open>Wrapped\<close> is \<open>fmt.Errorf\<close> with a leading text and a final \<open>%w\<close>,
  \<open>WrappedBy\<close> is \<open>fmt.Errorf("%w: %v", e, d)\<close>; both unwrap to their \<open>%w\<close> operand.
  \<open>NonRetryable\<close> is the struct \<open>nonRetryableError\<close> of \<open>internal/transport/kafka/consumer.go\<close>,
  which has no \<open>Unwrap\<close> method. \<open>Opaque\<close> is any other error value: a driver's, a broker's, a
  decoder's or one made by \<open>errors.New\<close> at the place it is returned.
\<close>

datatype sentinel =
    ErrEmptyAmount | ErrInvalidAmount | ErrTooManyDecimals | ErrInvalidDecimalPart | ErrAmountOverflow
  | ErrInvalidTransactionType | ErrInvalidUserID | ErrInvalidDomainAmount
  | ErrRepoNotInitialized | ErrDBUnavailable
  | CtxCanceled | CtxDeadlineExceeded

datatype goerr =
    Sentinel sentinel
  | NumError string num_error
  | Opaque string
  | Wrapped string goerr
  | WrappedBy goerr goerr
  | NonRetryable goerr

text \<open>\<open>errors.Unwrap\<close>: only the \<open>fmt.Errorf\<close> wrappers have an inner error.\<close>

fun err_unwrap :: "goerr \<Rightarrow> goerr option" where
  "err_unwrap (Wrapped pre e) = Some e"
| "err_unwrap (WrappedBy e d) = Some e"
| "err_unwrap _ = None"

text \<open>\<open>errors.Is(err, target)\<close> for a sentinel target: compare along the unwrap chain.\<close>

fun errors_Is :: "goerr \<Rightarrow> sentinel \<Rightarrow> bool" where
  "errors_Is (Sentinel s) t = (s = t)"
| "errors_Is (Wrapped pre e) t = errors_Is e t"
| "errors_Is (WrappedBy e d) t = errors_Is e t"
| "errors_Is _ t = False"

text \<open>\<open>errors.As(err, &nrErr)\<close> with \<open>nrErr nonRetryableError\<close>.\<close>

fun errors_As_nonRetryable :: "goerr \<Rightarrow> bool" where
  "errors_As_nonRetryable (NonRetryable e) = True"
| "errors_As_nonRetryable (Wrapped pre e) = errors_As_nonRetryable e"
| "errors_As_nonRetryable (WrappedBy e d) = errors_As_nonRetryable e"
| "errors_As_nonRetryable _ = False"

text \<open>The unwrap chain of an error carries at most one sentinel: it ends the chain.\<close>

lemma errors_Is_unique: "\<lbrakk>errors_Is e s; errors_Is e t\<rbrakk> \<Longrightarrow> s = t"
  by (induction e) auto

lemma errors_Is_unwrap:
  "errors_Is e t \<longleftrightarrow> e = Sentinel t \<or> (\<exists>e'. err_unwrap e = Some e' \<and> errors_Is e' t)"
  by (cases e) auto

lemma NonRetryable_hides [simp]: "\<not> errors_Is (NonRetryable e) t"
  by simp

definition nil_or_is :: "goerr option \<Rightarrow> sentinel \<Rightarrow> bool" where
  "nil_or_is r t \<longleftrightarrow> (case r of None \<Rightarrow> False | Some e \<Rightarrow> errors_Is e t)"

end
