(* ===== verification/Money.thy ===== *)
theory Money
  imports Go_Errors
begin

text \<open>
  \<open>pkg/money/amount.go\<close>: decimal strings into \<open>int64\<close> minor units.
\<close>

definition max_int64 :: int64 where "max_int64 = word_of_int int64_max"

text \<open>\<open>math.MaxInt64/100\<close> and \<open>math.MinInt64/100\<close>: Go's constant division truncates.\<close>

definition max_units :: int64 where "max_units = word_of_int 92233720368547758"
definition min_units :: int64 where "min_units = word_of_int (- 92233720368547758)"

text \<open>The branch for strings with a dot, after the outer sign was taken off.\<close>

definition parse_decimal :: "bool \<Rightarrow> string \<Rightarrow> goerr + int64" where
  "parse_decimal negative s =
     (case Split CHR ''.'' s of
        [ip, frac0] \<Rightarrow>
          if ip = [] then Inl (Sentinel ErrInvalidAmount)
          else (case ParseInt ip of
            Inl e \<Rightarrow> Inl (WrappedBy (Sentinel ErrInvalidAmount) (NumError ip e))
          | Inr intPart \<Rightarrow>
              if length frac0 > 2 then Inl (Sentinel ErrTooManyDecimals)
              else
                let frac1 = (if length frac0 = 1 then frac0 @ ''0'' else frac0);
                    frac = (if length frac1 = 0 then ''00'' else frac1) in
                (case ParseInt frac of
                  Inl e \<Rightarrow> Inl (WrappedBy (Sentinel ErrInvalidDecimalPart) (NumError frac e))
                | Inr fracPart \<Rightarrow>
                    if max_units <s intPart then Inl (Sentinel ErrAmountOverflow)
                    else if intPart <s min_units then Inl (Sentinel ErrAmountOverflow)
                    else
                      let base = intPart * 100 in
                      if max_int64 - fracPart <s base then Inl (Sentinel ErrAmountOverflow)
                      else
                        let result = base + fracPart in
                        if negative then Inr (- result) else Inr result))
      | _ \<Rightarrow> Inl (Sentinel ErrInvalidAmount))"

definition ParseToMinorUnits :: "string \<Rightarrow> goerr + int64" where
  "ParseToMinorUnits raw =
     (let s = TrimSpace raw in
      if s = [] then Inl (Sentinel ErrEmptyAmount)
      else if CHR ''.'' \<notin> set s then
        (case ParseInt s of
          Inl e \<Rightarrow> Inl (WrappedBy (Sentinel ErrInvalidAmount) (NumError s e))
        | Inr v \<Rightarrow> Inr v)
      else if hd s = CHR ''-'' then parse_decimal True (tl s)
      else if hd s = CHR ''+'' then parse_decimal False (tl s)
      else parse_decimal False s)"

subsection \<open>The well-formed decimals\<close>

lemma sint_consts [simp]:
  "sint max_int64 = int64_max" "sint max_units = 92233720368547758"
  "sint min_units = - 92233720368547758"
  by (simp_all add: max_int64_def max_units_def min_units_def sint_word_of_int64_id in_int64_def)

definition frac_val :: "string \<Rightarrow> int" where
  "frac_val fp = dec fp * 10 ^ (2 - length fp)"

definition pad_frac :: "string \<Rightarrow> string" where
  "pad_frac fp =
     (let f1 = (if length fp = 1 then fp @ ''0'' else fp) in if length f1 = 0 then ''00'' else f1)"

lemma pad_frac:
  assumes "list_all is_digit fp" "length fp \<le> 2"
  shows "all_digits (pad_frac fp)" "dec (pad_frac fp) = frac_val fp"
    "0 \<le> frac_val fp" "frac_val fp < 100"
proof -
  consider "fp = []" | c where "fp = [c]" | c d where "fp = [c, d]"
    using assms(2) by (cases fp; cases "tl fp") auto
  then show "all_digits (pad_frac fp)" "dec (pad_frac fp) = frac_val fp"
    "0 \<le> frac_val fp" "frac_val fp < 100"
    using assms(1)
    by (cases; force simp: pad_frac_def all_digits_def frac_val_def dec_def is_digit_def
        digit_val_def code_def)+
qed

lemma no_dot_digits: "list_all is_digit s \<Longrightarrow> CHR ''.'' \<notin> set s"
  by (induction s) auto

text \<open>The final check and addition, for a fraction that is not negative.\<close>

lemma overflow_check_exact:
  assumes f: "0 \<le> sint f" and i: "\<not> max_units <s i" "\<not> i <s min_units"
  shows "max_int64 - f <s i * 100 \<longleftrightarrow> sint i * 100 + sint f > int64_max"
    and "\<not> max_int64 - f <s i * 100 \<Longrightarrow> sint (i * 100 + f) = sint i * 100 + sint f"
proof -
  have b: "sint (i * 100) = sint i * 100"
    using i by (simp add: word_sless_alt sint64_times in_int64_def)
  have m: "sint (max_int64 - f) = int64_max - sint f"
    using f sint64_le [of f] by (simp add: sint64_minus in_int64_def)
  show cmp: "max_int64 - f <s i * 100 \<longleftrightarrow> sint i * 100 + sint f > int64_max"
    by (auto simp: word_sless_alt b m)
  assume "\<not> max_int64 - f <s i * 100"
  with cmp f sint64_ge [of "i * 100"]
  show "sint (i * 100 + f) = sint i * 100 + sint f"
    by (simp add: sint64_plus b in_int64_def)
qed

lemma parse_decimal_digits:
  assumes ip: "all_digits ip" and fp: "list_all is_digit fp" "length fp \<le> 2"
  shows "parse_decimal negative (ip @ CHR ''.'' # fp) =
    (let v = dec ip * 100 + frac_val fp in
     if dec ip > int64_max then Inl (WrappedBy (Sentinel ErrInvalidAmount) (NumError ip ErrRange))
     else if v > int64_max then Inl (Sentinel ErrAmountOverflow)
     else Inr (word_of_int (if negative then - v else v)))"
proof -
  note pf = pad_frac [OF fp]
  have ip': "ip \<noteq> []" "list_all is_digit ip" "0 \<le> dec ip"
    using ip by (auto simp: all_digits_def dec_nonneg)
  have sp: "Split CHR ''.'' (ip @ CHR ''.'' # fp) = [ip, fp]"
    using ip'(2) fp(1) by (simp add: Split_two no_dot_digits)
  define f where "f = (word_of_int (frac_val fp) :: int64)"
  have f: "sint f = frac_val fp"
    using pf(3,4) by (simp add: f_def sint_word_of_int64_id in_int64_def)
  have pfrac: "ParseInt (pad_frac fp) = Inr f"
    using pf by (simp add: ParseInt_digits f_def)
  show ?thesis
  proof (cases "dec ip > int64_max")
    case True
    then show ?thesis by (simp add: parse_decimal_def sp ip' ParseInt_digits [OF ip])
  next
    case False
    define i where "i = (word_of_int (dec ip) :: int64)"
    have i: "sint i = dec ip" "ParseInt ip = Inr i"
      using False ip' by (simp_all add: i_def sint_word_of_int64_id in_int64_def ParseInt_digits [OF ip])
    have run: "parse_decimal negative (ip @ CHR ''.'' # fp) =
       (if max_units <s i then Inl (Sentinel ErrAmountOverflow)
        else if i <s min_units then Inl (Sentinel ErrAmountOverflow)
        else if max_int64 - f <s i * 100 then Inl (Sentinel ErrAmountOverflow)
        else if negative then Inr (- (i * 100 + f)) else Inr (i * 100 + f))"
      using fp(2) pfrac by (simp add: parse_decimal_def sp ip' i pad_frac_def Let_def)
    have low: "\<not> i <s min_units" using i ip' by (simp add: word_sless_alt)
    have w: "i * 100 + f = word_of_int (dec ip * 100 + frac_val fp)"
      by (simp add: i_def f_def)
    show ?thesis
    proof (cases "max_units <s i")
      case True
      then have "dec ip * 100 + frac_val fp > int64_max"
        using pf(3) i by (simp add: word_sless_alt)
      with True False run show ?thesis by (simp add: Let_def)
    next
      case not_big: False
      have "0 \<le> sint f" using f pf(3) by simp
      from overflow_check_exact(1) [OF this not_big low] show ?thesis
        using False not_big low run by (simp add: Let_def w i f)
    qed
  qed
qed

text \<open>
  On a decimal with an optional sign, digits, a dot and at most two further digits,
  \<open>ParseToMinorUnits\<close> returns exactly the amount in minor units with its sign, and reports
  an overflow exactly when that amount does not fit in 63 bits.
\<close>

theorem ParseToMinorUnits_decimal:
  assumes sg: "sg \<in> {'''', ''-'', ''+''}"
    and ip: "all_digits ip" and fp: "list_all is_digit fp" "length fp \<le> 2"
  shows "ParseToMinorUnits (sg @ ip @ ''.'' @ fp) =
    (let v = dec ip * 100 + frac_val fp in
     if dec ip > int64_max then Inl (WrappedBy (Sentinel ErrInvalidAmount) (NumError ip ErrRange))
     else if v > int64_max then Inl (Sentinel ErrAmountOverflow)
     else Inr (word_of_int (if sg = ''-'' then - v else v)))"
proof -
  obtain c cs where c: "ip = c # cs" "is_digit c"
    using ip by (cases ip) (auto simp: all_digits_def)
  have l: "graphic (last (sg @ ip @ ''.'' @ fp))"
    using fp(1) by (cases fp rule: rev_cases) (auto simp: graphic_digit)
  have h: "graphic (hd (sg @ ip @ ''.'' @ fp))"
    using sg c by (auto simp: graphic_digit)
  have "TrimSpace (sg @ ip @ ''.'' @ fp) = sg @ ip @ ''.'' @ fp"
    by (rule TrimSpace_graphic [OF _ h l]) simp
  moreover have "hd ip \<noteq> CHR ''-''" "hd ip \<noteq> CHR ''+''" using c by auto
  ultimately show ?thesis
    using sg parse_decimal_digits [OF ip fp, of True] parse_decimal_digits [OF ip fp, of False] c
    by (auto simp: ParseToMinorUnits_def Let_def)
qed

theorem ParseToMinorUnits_decimal_witness:
  "ParseToMinorUnits (''-'' @ ''12'' @ ''.'' @ ''34'') = Inr (word_of_int (-1234))"
proof -
  have "all_digits ''12''" "list_all is_digit ''34''" "length ''34'' \<le> 2" by code_simp+
  from ParseToMinorUnits_decimal [of "''-''", OF _ this]
  have "ParseToMinorUnits (''-'' @ ''12'' @ ''.'' @ ''34'') =
    (let v = dec ''12'' * 100 + frac_val ''34'' in
     if dec ''12'' > int64_max then Inl (WrappedBy (Sentinel ErrInvalidAmount) (NumError ''12'' ErrRange))
     else if v > int64_max then Inl (Sentinel ErrAmountOverflow)
     else Inr (word_of_int (if ''-'' = ''-'' then - v else v)))" by blast
  also have "\<dots> = Inr (word_of_int (-1234))" by code_simp
  finally show ?thesis .
qed

subsection \<open>Round trip\<close>

text \<open>The canonical rendering of an amount: sign, units, a dot and two digits.\<close>

definition render_minor :: "int \<Rightarrow> string" where
  "render_minor i =
     (if i < 0 then ''-'' else '''') @ nat_digits (\<bar>i\<bar> div 100) @ ''.'' @
     [digit_char (\<bar>i\<bar> mod 100 div 10), digit_char (\<bar>i\<bar> mod 10)]"

text \<open>
  Every amount but the least \<open>int64\<close> survives the round trip through its decimal
  rendering.
\<close>

theorem ParseToMinorUnits_render:
  assumes "\<bar>i\<bar> \<le> int64_max"
  shows "ParseToMinorUnits (render_minor i) = Inr (word_of_int i)"
proof -
  define fp where "fp = [digit_char (\<bar>i\<bar> mod 100 div 10), digit_char (\<bar>i\<bar> mod 10)]"
  define sg where "sg = (if i < 0 then ''-'' else '''')"
  have "\<bar>i\<bar> mod 100 mod 10 = \<bar>i\<bar> mod 10" by (simp add: mod_mod_cancel)
  then have "\<bar>i\<bar> mod 100 div 10 * 10 + \<bar>i\<bar> mod 10 = \<bar>i\<bar> mod 100"
    by (metis div_mult_mod_eq)
  moreover have q: "0 \<le> m div 10" "m div 10 < 10" if "0 \<le> m" "m < 100" for m :: int
    using that by presburger+
  ultimately have fv: "frac_val fp = \<bar>i\<bar> mod 100"
    using q [of "\<bar>i\<bar> mod 100"] by (simp add: fp_def frac_val_def dec_def)
  have fp: "list_all is_digit fp" "length fp \<le> 2"
    using q [of "\<bar>i\<bar> mod 100"] by (simp_all add: fp_def)
  have ip: "all_digits (nat_digits (\<bar>i\<bar> div 100))" "dec (nat_digits (\<bar>i\<bar> div 100)) = \<bar>i\<bar> div 100"
    by simp_all
  have sum: "\<bar>i\<bar> div 100 * 100 + \<bar>i\<bar> mod 100 = \<bar>i\<bar>" by (rule div_mult_mod_eq)
  have small: "\<bar>i\<bar> div 100 \<le> int64_max" using assms by simp
  have sg: "sg = [] \<or> sg = ''-'' \<or> sg = ''+''" by (simp add: sg_def)
  have hd: "\<exists>c cs. nat_digits (\<bar>i\<bar> div 100) = c # cs \<and> is_digit c" by (rule hd_nat_digits) simp
  have "graphic (last (sg @ nat_digits (\<bar>i\<bar> div 100) @ ''.'' @ fp))"
    using q [of "\<bar>i\<bar> mod 100"] by (simp add: fp_def graphic_digit)
  then have tr: "TrimSpace (sg @ nat_digits (\<bar>i\<bar> div 100) @ ''.'' @ fp) =
      sg @ nat_digits (\<bar>i\<bar> div 100) @ ''.'' @ fp"
    using sg hd by (intro TrimSpace_graphic) (auto simp: graphic_digit fp_def)
  have pd: "parse_decimal neg (nat_digits (\<bar>i\<bar> div 100) @ CHR ''.'' # fp) =
      Inr (word_of_int (if neg then - \<bar>i\<bar> else \<bar>i\<bar>))" for neg
    using parse_decimal_digits [OF ip(1) fp, of neg] ip(2) fv sum small assms
    by (simp add: Let_def)
  show ?thesis
    using tr hd pd [of True] pd [of False]
    by (auto simp: ParseToMinorUnits_def render_minor_def sg_def fp_def Let_def split: if_splits)
qed

theorem ParseToMinorUnits_render_witness:
  "ParseToMinorUnits (render_minor (-1205)) = Inr (word_of_int (-1205))"
  by (rule ParseToMinorUnits_render) simp

subsection \<open>Strings without a dot, exactness, and the accepted inner signs\<close>

text \<open>
  Without a dot the amount is read as an integer number of minor units: the call succeeds
  exactly on a signed decimal integer within \<open>int64\<close>, with that value.
\<close>

theorem ParseToMinorUnits_integer:
  assumes "CHR ''.'' \<notin> set (TrimSpace raw)"
  shows "ParseToMinorUnits raw = Inr w \<longleftrightarrow> int_of_string (TrimSpace raw) = Some (sint w)"
proof (cases "TrimSpace raw = []")
  case True
  then show ?thesis by (simp add: ParseToMinorUnits_def int_of_string_def)
next
  case False
  with assms have "ParseToMinorUnits raw = Inr w \<longleftrightarrow> ParseInt (TrimSpace raw) = Inr w"
    by (auto simp: ParseToMinorUnits_def Let_def split: sum.splits)
  then show ?thesis by (simp add: ParseInt_iff)
qed

theorem ParseToMinorUnits_integer_witness:
  "ParseToMinorUnits ''  -42'' = Inr (word_of_int (-42))"
proof -
  have "CHR ''.'' \<notin> set (TrimSpace ''  -42'')"
    "int_of_string (TrimSpace ''  -42'') = Some (sint (word_of_int (-42) :: int64))"
    by code_simp+
  then show ?thesis using ParseToMinorUnits_integer [of "''  -42''" "word_of_int (-42)"] by blast
qed

text \<open>What a success in the branch with a dot means, before the outer sign.\<close>

lemma parse_decimal_Inr:
  assumes "parse_decimal negative s = Inr v"
  obtains ip fr i f where "Split CHR ''.'' s = [ip, fr]" "length fr \<le> 2"
    "ParseInt ip = Inr i" "ParseInt (pad_frac fr) = Inr f"
    "\<not> max_units <s i" "\<not> i <s min_units" "\<not> max_int64 - f <s i * 100"
    "v = (if negative then - (i * 100 + f) else i * 100 + f)"
proof -
  obtain ip fr where sp: "Split CHR ''.'' s = [ip, fr]"
    using assms by (auto simp: parse_decimal_def split: list.splits)
  obtain i where i: "ParseInt ip = Inr i"
    using assms sp by (auto simp: parse_decimal_def split: if_splits sum.splits)
  obtain f where f: "ParseInt (pad_frac fr) = Inr f"
    using assms sp i
    by (cases "ParseInt (pad_frac fr)") (auto simp: parse_decimal_def pad_frac_def Let_def split: if_splits)
  have "length fr \<le> 2" "\<not> max_units <s i" "\<not> i <s min_units" "\<not> max_int64 - f <s i * 100"
    "v = (if negative then - (i * 100 + f) else i * 100 + f)"
    using assms sp i f
    by (auto simp: parse_decimal_def pad_frac_def Let_def split: if_splits)
  with that [OF sp _ i f] show thesis by blast
qed

text \<open>
  C31: the overflow checks are exact wherever the digits after the dot carry no minus sign of
  their own: a returned amount is then the exact sum, never a wrapped one.
\<close>

theorem ParseToMinorUnits_exact:
  assumes "parse_decimal negative s = Inr v" and "Split CHR ''.'' s = [ip, fr]"
    and "fr = [] \<or> hd fr \<noteq> CHR ''-''"
  shows "\<exists>i f. int_of_string ip = Some i \<and> int_of_string (pad_frac fr) = Some f \<and> 0 \<le> f \<and>
    i * 100 + f \<le> int64_max \<and> sint v = (if negative then - (i * 100 + f) else i * 100 + f)"
proof -
  obtain i f where i: "ParseInt ip = Inr i" and f: "ParseInt (pad_frac fr) = Inr f"
    and g: "\<not> max_units <s i" "\<not> i <s min_units" "\<not> max_int64 - f <s i * 100"
    and v: "v = (if negative then - (i * 100 + f) else i * 100 + f)"
    by (rule parse_decimal_Inr [OF assms(1)]) (use assms(2) in auto)
  have "0 \<le> sint f"
    using ParseInt_Inr_cases [OF f] assms(3)
    by (cases fr) (auto simp: pad_frac_def Let_def all_digits_nonneg split: if_splits)
  note exact = overflow_check_exact [OF this g(1,2)]
  define r where "r = i * 100 + f"
  have r: "sint r = sint i * 100 + sint f" "sint r \<le> int64_max"
    using exact(2) [OF g(3)] sint64_le [of r] by (simp_all add: r_def)
  moreover have "sint i \<ge> - 92233720368547758" using g(2) by (simp add: word_sless_alt)
  ultimately have "sint (- r) = - sint r"
    using \<open>0 \<le> sint f\<close> by (simp add: sint64_uminus in_int64_def)
  then have "sint v = (if negative then - (sint i * 100 + sint f) else sint i * 100 + sint f)"
    and "sint i * 100 + sint f \<le> int64_max"
    using v r unfolding r_def by auto
  then show ?thesis
    using i f \<open>0 \<le> sint f\<close> by (auto simp: ParseInt_iff)
qed

theorem ParseToMinorUnits_exact_witness:
  "parse_decimal True ''12.5'' = Inr (word_of_int (-1250)) \<and>
   (\<exists>i f. int_of_string ''12'' = Some i \<and> int_of_string (pad_frac ''5'') = Some f \<and> 0 \<le> f \<and>
    i * 100 + f \<le> int64_max \<and> sint (word_of_int (-1250) :: int64) = - (i * 100 + f))"
proof -
  have run: "parse_decimal True ''12.5'' = Inr (word_of_int (-1250))"
    and sp: "Split CHR ''.'' ''12.5'' = [''12'', ''5'']" by code_simp+
  have "''5'' = [] \<or> hd ''5'' \<noteq> CHR ''-''" by simp
  from ParseToMinorUnits_exact [OF run sp this] run show ?thesis by simp
qed

text \<open>
  A sign after the sign, or a minus sign after the dot, is not rejected. \<open>--5.00\<close> is
  read as plus five, \<open>12.+5\<close> as 12.05, and with a negative fraction the overflow check
  itself overflows: an amount below the least \<open>int64\<close> is returned as the greatest one.
\<close>

theorem ParseToMinorUnits_inner_signs:
  "ParseToMinorUnits ''--5.00'' = Inr (word_of_int 500)
   \<and> ParseToMinorUnits ''12.+5'' = Inr (word_of_int 1205)
   \<and> ParseToMinorUnits ''+-92233720368547758.-9'' = Inr (word_of_int int64_max)"
  by (intro conjI) code_simp+

subsection \<open>Errors\<close>

definition money_sentinels :: "sentinel list" where
  "money_sentinels =
     [ErrEmptyAmount, ErrInvalidAmount, ErrTooManyDecimals, ErrInvalidDecimalPart, ErrAmountOverflow]"

definition is_money_error :: "goerr \<Rightarrow> bool" where
  "is_money_error e \<longleftrightarrow> list_ex (errors_Is e) money_sentinels"

lemma is_money_error_simps [simp]:
  "is_money_error (Sentinel s) \<longleftrightarrow> s \<in> set money_sentinels"
  "is_money_error (WrappedBy e d) \<longleftrightarrow> is_money_error e"
  by (auto simp: is_money_error_def money_sentinels_def)

lemma parse_decimal_Inl: "parse_decimal neg s = Inl e \<Longrightarrow> is_money_error e"
  by (auto simp: parse_decimal_def Let_def money_sentinels_def
      split: list.splits if_splits sum.splits)

lemma ParseToMinorUnits_Inl: "ParseToMinorUnits raw = Inl e \<Longrightarrow> is_money_error e"
  by (auto simp: ParseToMinorUnits_def Let_def money_sentinels_def parse_decimal_Inl
      split: if_splits sum.splits)

end
