(* ===== verification/Go_Time.thy ===== *)
theory Go_Time
  imports Go_Std
begin

text \<open>
  The parts of Go's \<open>time\<close> package the repository relies on. A \<open>time.Time\<close> is an instant
  (seconds since 1970-01-01 UTC and nanoseconds) with the offset of its location in seconds.
  The layout-driven \<open>time.ParseInLocation\<close> is modelled for the layout elements that occur in
  \<open>pkg/timeutil/parser.go\<close>; a layout is given as its elements, each with the literal text
  before it, which is how \<open>nextStdChunk\<close> splits it.
\<close>

record gotime =
  unix_sec :: int
  nanos :: int
  zone_off :: int

text \<open>\<open>time.Time{}\<close>: January 1 of year 1, 00:00:00 UTC.\<close>

definition zero_time :: gotime where
  "zero_time = \<lparr>unix_sec = - 62135596800, nanos = 0, zone_off = 0\<rparr>"

definition IsZero :: "gotime \<Rightarrow> bool" where
  "IsZero t \<longleftrightarrow> unix_sec t = - 62135596800 \<and> nanos t = 0"

lemma IsZero_zero_time [simp]: "IsZero zero_time"
  by (simp add: IsZero_def zero_time_def)

text \<open>A \<open>time.Duration\<close> is an \<open>int64\<close> of nanoseconds; \<open>Time.Sub\<close> saturates.\<close>

definition instant_ns :: "gotime \<Rightarrow> int" where
  "instant_ns t = unix_sec t * 1000000000 + nanos t"

definition time_Sub :: "gotime \<Rightarrow> gotime \<Rightarrow> int" where
  "time_Sub t u = max int64_min (min int64_max (instant_ns t - instant_ns u))"

text \<open>\<open>Duration.Milliseconds\<close> truncates towards zero.\<close>

definition Milliseconds :: "int \<Rightarrow> int" where
  "Milliseconds d = sgn d * (\<bar>d\<bar> div 1000000)"

lemma time_Sub_range: "in_int64 (time_Sub t u)"
  by (simp add: time_Sub_def in_int64_def)

subsection \<open>Civil dates\<close>

definition is_leap :: "int \<Rightarrow> bool" where
  "is_leap y \<longleftrightarrow> y mod 4 = 0 \<and> (y mod 100 \<noteq> 0 \<or> y mod 400 = 0)"

definition month_days :: "int \<Rightarrow> int" where
  "month_days m = (if m = 2 then 28 else if m = 4 \<or> m = 6 \<or> m = 9 \<or> m = 11 then 30 else 31)"

definition days_in :: "int \<Rightarrow> int \<Rightarrow> int" where
  "days_in m y = (if m = 2 \<and> is_leap y then 29 else month_days m)"

text \<open>Days of a common year before month \<open>m\<close> (the table \<open>daysBefore\<close>).\<close>

definition days_before :: "int \<Rightarrow> int" where
  "days_before m = [0, 31, 59, 90, 120, 151, 181, 212, 243, 273, 304, 334] ! nat (m - 1)"

text \<open>Days from 1970-01-01 to a date of the proleptic Gregorian calendar.\<close>

definition epoch_days :: "int \<Rightarrow> int \<Rightarrow> int \<Rightarrow> int" where
  "epoch_days y m d =
     365 * (y - 1) + (y - 1) div 4 - (y - 1) div 100 + (y - 1) div 400
     + days_before m + (if 2 < m \<and> is_leap y then 1 else 0) + (d - 1) - 719162"

definition civil_sec :: "int \<Rightarrow> int \<Rightarrow> int \<Rightarrow> int \<Rightarrow> int \<Rightarrow> int \<Rightarrow> int" where
  "civil_sec y m d h mi s = epoch_days y m d * 86400 + h * 3600 + mi * 60 + s"

lemma civil_sec_zero_time: "civil_sec 1 1 1 0 0 0 = - 62135596800"
  by code_simp

subsection \<open>time.ParseInLocation\<close>

datatype std_elem =
    LongYear | ZeroMonth | ZeroDay | Hour | ZeroMinute | ZeroSecond | ISO8601ColonTZ | FracSecond9

datatype zone = NoZone | UTCZone | OffZone int

record parse_state =
  p_year :: int
  p_month :: int
  p_day :: int
  p_hour :: int
  p_min :: int
  p_sec :: int
  p_nsec :: int
  p_zone :: zone

definition parse_init :: parse_state where
  "parse_init = \<lparr>p_year = 0, p_month = 1, p_day = 1, p_hour = 0, p_min = 0, p_sec = 0,
     p_nsec = 0, p_zone = NoZone\<rparr>"

text \<open>\<open>cutspace\<close> and \<open>skip\<close>: the literal text between elements; a space matches spaces.\<close>

definition cutspace :: "string \<Rightarrow> string" where
  "cutspace s = dropWhile (\<lambda>c. c = CHR '' '') s"

lemma cutspace_length: "length (cutspace s) \<le> length s"
  by (simp add: cutspace_def length_dropWhile_le)

function skip :: "string \<Rightarrow> string \<Rightarrow> string option" where
  "skip value [] = Some value"
| "skip value (p # ps) =
     (if p = CHR '' '' then
        (if value \<noteq> [] \<and> hd value \<noteq> CHR '' '' then None
         else skip (cutspace value) (cutspace (p # ps)))
      else if value = [] \<or> hd value \<noteq> p then None
      else skip (tl value) ps)"
  by pat_completeness auto
termination
proof (relation "measure (\<lambda>(v, p). length p)", simp, goal_cases)
  case (1 v p ps)
  then have "length (cutspace (p # ps)) \<le> length ps"
    using cutspace_length [of ps] by (simp add: cutspace_def)
  then show ?case by simp
next
  case (2 v p ps)
  then show ?case by simp
qed

definition is_digit_at :: "string \<Rightarrow> nat \<Rightarrow> bool" where
  "is_digit_at s i \<longleftrightarrow> i < length s \<and> is_digit (s ! i)"

text \<open>\<open>getnum(s, fixed)\<close>: one or two digits, exactly two when \<open>fixed\<close>.\<close>

definition getnum :: "string \<Rightarrow> bool \<Rightarrow> (int \<times> string) option" where
  "getnum s fixed =
     (if \<not> is_digit_at s 0 then None
      else if \<not> is_digit_at s 1 then
        (if fixed then None else Some (digit_val (s ! 0), drop 1 s))
      else Some (digit_val (s ! 0) * 10 + digit_val (s ! 1), drop 2 s))"

definition comma_or_period :: "char \<Rightarrow> bool" where
  "comma_or_period c \<longleftrightarrow> c = CHR ''.'' \<or> c = CHR '',''"

text \<open>\<open>parseNanoseconds(value, nbytes)\<close> on the separator and its digits: at most nine count.\<close>

definition parse_nanos :: "string \<Rightarrow> int" where
  "parse_nanos ds = (let ds' = take 9 ds in dec ds' * 10 ^ (9 - length ds'))"

text \<open>A fraction after the seconds: the separator and the digits that follow it.\<close>

definition frac_digits :: "string \<Rightarrow> string" where
  "frac_digits value =
     (if 2 \<le> length value \<and> comma_or_period (hd value) \<and> is_digit_at value 1
      then takeWhile is_digit (tl value) else [])"

definition parse_frac :: "string \<Rightarrow> parse_state \<Rightarrow> (parse_state \<times> string) option" where
  "parse_frac value st =
     (let ds = frac_digits value in
      if ds = [] then Some (st, value)
      else Some (st\<lparr>p_nsec := parse_nanos ds\<rparr>, drop (1 + length ds) value))"

text \<open>The offset form \<open>Z\<close>, \<open>+hh:mm\<close> or \<open>-hh:mm\<close>.\<close>

definition parse_zone :: "string \<Rightarrow> parse_state \<Rightarrow> (parse_state \<times> string) option" where
  "parse_zone value st =
     (if value \<noteq> [] \<and> hd value = CHR ''Z'' then Some (st\<lparr>p_zone := UTCZone\<rparr>, tl value)
      else if length value < 6 then None
      else if value ! 3 \<noteq> CHR '':'' then None
      else (case (getnum (take 2 (drop 1 value)) True, getnum (take 2 (drop 4 value)) True) of
          (Some (hr, _), Some (mm, _)) \<Rightarrow>
            if hr > 24 \<or> mm > 60 then None
            else if value ! 0 = CHR ''+'' then
              Some (st\<lparr>p_zone := OffZone ((hr * 60 + mm) * 60)\<rparr>, drop 6 value)
            else if value ! 0 = CHR ''-'' then
              Some (st\<lparr>p_zone := OffZone (- ((hr * 60 + mm) * 60))\<rparr>, drop 6 value)
            else None
        | _ \<Rightarrow> None))"

definition next_is_frac :: "(string \<times> std_elem) list \<Rightarrow> bool" where
  "next_is_frac rest \<longleftrightarrow> rest \<noteq> [] \<and> snd (hd rest) = FracSecond9"

text \<open>One element of the layout. \<open>rest\<close> is the layout after it.\<close>

fun parse_elem ::
  "std_elem \<Rightarrow> (string \<times> std_elem) list \<Rightarrow> string \<Rightarrow> parse_state \<Rightarrow> (parse_state \<times> string) option" where
  "parse_elem LongYear rest value st =
     (if length value < 4 \<or> \<not> is_digit_at value 0 \<or> \<not> list_all is_digit (take 4 value) then None
      else Some (st\<lparr>p_year := dec (take 4 value)\<rparr>, drop 4 value))"
| "parse_elem ZeroMonth rest value st =
     (case getnum value True of None \<Rightarrow> None
      | Some (m, v) \<Rightarrow> if m \<le> 0 \<or> 12 < m then None else Some (st\<lparr>p_month := m\<rparr>, v))"
| "parse_elem ZeroDay rest value st =
     (case getnum value True of None \<Rightarrow> None
      | Some (d, v) \<Rightarrow> Some (st\<lparr>p_day := d\<rparr>, v))"
| "parse_elem Hour rest value st =
     (case getnum value False of None \<Rightarrow> None
      | Some (h, v) \<Rightarrow> if h < 0 \<or> 24 \<le> h then None else Some (st\<lparr>p_hour := h\<rparr>, v))"
| "parse_elem ZeroMinute rest value st =
     (case getnum value True of None \<Rightarrow> None
      | Some (m, v) \<Rightarrow> if m < 0 \<or> 60 \<le> m then None else Some (st\<lparr>p_min := m\<rparr>, v))"
| "parse_elem ZeroSecond rest value st =
     (case getnum value True of None \<Rightarrow> None
      | Some (s, v) \<Rightarrow>
          if s < 0 \<or> 60 \<le> s then None
          else if next_is_frac rest then Some (st\<lparr>p_sec := s\<rparr>, v)
          else parse_frac v (st\<lparr>p_sec := s\<rparr>))"
| "parse_elem ISO8601ColonTZ rest value st = parse_zone value st"
| "parse_elem FracSecond9 rest value st = parse_frac value st"

fun parse_layout :: "(string \<times> std_elem) list \<Rightarrow> string \<Rightarrow> parse_state \<Rightarrow> parse_state option" where
  "parse_layout [] value st = (if value = [] then Some st else None)"
| "parse_layout ((prefix, e) # rest) value st =
     (case skip value prefix of None \<Rightarrow> None
      | Some v \<Rightarrow> (case parse_elem e rest v st of None \<Rightarrow> None
          | Some (st', v') \<Rightarrow> parse_layout rest v' st'))"

text \<open>The result: the day is checked against the month, then the zone is applied.\<close>

definition finish_parse :: "parse_state \<Rightarrow> gotime option" where
  "finish_parse st =
     (if p_day st < 1 \<or> days_in (p_month st) (p_year st) < p_day st then None
      else
        let off = (case p_zone st of OffZone z \<Rightarrow> z | _ \<Rightarrow> 0) in
        Some \<lparr>unix_sec = civil_sec (p_year st) (p_month st) (p_day st)
                           (p_hour st) (p_min st) (p_sec st) - off,
              nanos = p_nsec st, zone_off = off\<rparr>)"

definition ParseInLocation :: "(string \<times> std_elem) list \<Rightarrow> string \<Rightarrow> gotime option" where
  "ParseInLocation layout value =
     (case parse_layout layout value parse_init of None \<Rightarrow> None | Some st \<Rightarrow> finish_parse st)"

subsection \<open>What the elements accept\<close>

definition digits2 :: "int \<Rightarrow> string" where
  "digits2 n = [digit_char (n div 10), digit_char (n mod 10)]"

definition digits4 :: "int \<Rightarrow> string" where
  "digits4 n = digits2 (n div 100) @ digits2 (n mod 100)"

lemma div10_bounds: "\<lbrakk>0 \<le> n; n < 100\<rbrakk> \<Longrightarrow> 0 \<le> n div 10 \<and> n div 10 < (10 :: int)"
  by presburger

lemma getnum_digits2:
  assumes "0 \<le> n" "n < 100"
  shows "getnum (digits2 n @ s) fixed = Some (n, s)"
  using div10_bounds [OF assms] by (simp add: getnum_def is_digit_at_def digits2_def)

lemma digits4:
  assumes "0 \<le> y" "y < 10000"
  shows "length (digits4 y) = 4" "list_all is_digit (digits4 y)" "dec (digits4 y) = y"
proof -
  have hi: "0 \<le> y div 100" "y div 100 < 100" and lo: "0 \<le> y mod 100" "y mod 100 < 100"
    using assms by (presburger, presburger, simp_all)
  note b = div10_bounds [OF hi] div10_bounds [OF lo]
  show "length (digits4 y) = 4" by (simp add: digits4_def digits2_def)
  show "list_all is_digit (digits4 y)" using b by (simp add: digits4_def digits2_def)
  have d2: "dec (digits2 n) = n" if "0 \<le> n" "n < 100" for n
    using div10_bounds [OF that] by (simp add: digits2_def dec_def)
  have "length (digits2 n) = 2" for n by (simp add: digits2_def)
  then have "dec (digits4 y) = y div 100 * 100 + y mod 100"
    by (simp add: digits4_def dec_append d2 [OF hi] d2 [OF lo])
  also have "\<dots> = y" by (rule div_mult_mod_eq)
  finally show "dec (digits4 y) = y" .
qed

lemma digits4_year:
  assumes "0 \<le> y" "y < 10000"
  shows "parse_elem LongYear rest (digits4 y @ s) st = Some (st\<lparr>p_year := y\<rparr>, s)"
proof -
  have "is_digit_at (digits4 y @ s) 0"
    using digits4 [OF assms] by (cases "digits4 y") (auto simp: is_digit_at_def)
  then show ?thesis using digits4 [OF assms] by simp
qed

end
