(* ===== verification/Timeutil.thy ===== *)
theory Timeutil
  imports Go_Time Go_Errors
begin

text \<open>
  \<open>pkg/timeutil/parser.go\<close>: a timestamp is Unix seconds, Unix milliseconds or one of five
  layouts read in UTC.
\<close>

definition RFC3339 :: "(string \<times> std_elem) list" where
  "RFC3339 = [([], LongYear), (''-'', ZeroMonth), (''-'', ZeroDay), (''T'', Hour),
     ('':'', ZeroMinute), ('':'', ZeroSecond), ([], ISO8601ColonTZ)]"

definition DateTime :: "(string \<times> std_elem) list" where
  "DateTime = [([], LongYear), (''-'', ZeroMonth), (''-'', ZeroDay), ('' '', Hour),
     ('':'', ZeroMinute), ('':'', ZeroSecond)]"

definition RFC3339Nano :: "(string \<times> std_elem) list" where
  "RFC3339Nano = [([], LongYear), (''-'', ZeroMonth), (''-'', ZeroDay), (''T'', Hour),
     ('':'', ZeroMinute), ('':'', ZeroSecond), ([], FracSecond9), ([], ISO8601ColonTZ)]"

definition layout_dmy :: "(string \<times> std_elem) list" where
  "layout_dmy = [([], ZeroDay), (''/'', ZeroMonth), (''/'', LongYear)]"

definition layout_ymd :: "(string \<times> std_elem) list" where
  "layout_ymd = [([], LongYear), (''-'', ZeroMonth), (''-'', ZeroDay)]"

definition layouts :: "(string \<times> std_elem) list list" where
  "layouts = [RFC3339, DateTime, RFC3339Nano, layout_dmy, layout_ymd]"

text \<open>The loop over the layouts: the first one that parses wins.\<close>

fun try_layouts :: "(string \<times> std_elem) list list \<Rightarrow> string \<Rightarrow> gotime option" where
  "try_layouts [] value = None"
| "try_layouts (l # ls) value =
     (case ParseInLocation l value of Some t \<Rightarrow> Some t | None \<Rightarrow> try_layouts ls value)"

text \<open>\<open>time.UnixMilli\<close> splits with truncated division; the argument is positive here.\<close>

definition ParseUnix :: "int64 \<Rightarrow> gotime" where
  "ParseUnix i =
     (if 100000000000 <s i
      then \<lparr>unix_sec = sint i div 1000, nanos = sint i mod 1000 * 1000000, zone_off = 0\<rparr>
      else \<lparr>unix_sec = sint i, nanos = 0, zone_off = 0\<rparr>)"

definition Parse :: "string \<Rightarrow> goerr + gotime" where
  "Parse value =
     (if value = [] then Inl (Opaque ''empty time value'')
      else case ParseInt value of
        Inr i \<Rightarrow> Inr (ParseUnix i)
      | Inl _ \<Rightarrow> (case try_layouts layouts value of
            Some t \<Rightarrow> Inr t
          | None \<Rightarrow> Inl (Opaque (''unsupported time format: '' @ value))))"

subsection \<open>Numeric timestamps\<close>

text \<open>
  A printed \<open>int64\<close> is always taken as a Unix time, never as a layout.
\<close>

theorem Parse_numeric:
  "in_int64 i \<Longrightarrow> Parse (Itoa i) = Inr (ParseUnix (word_of_int i))"
  by (simp add: Parse_def ParseInt_Itoa) (simp add: Itoa_def)

theorem Parse_numeric_witness: "Parse (Itoa 1700000000) = Inr (ParseUnix (word_of_int 1700000000))"
  by (rule Parse_numeric) (simp add: in_int64_def)

text \<open>
  The seconds/milliseconds heuristic: up to \<open>10 ^ 11\<close> the number counts seconds, above it
  milliseconds, and the instant is exactly that number of units with a normalised
  nanosecond part.
\<close>

theorem ParseUnix_instant:
  "instant_ns (ParseUnix i) =
     (if 100000000000 < sint i then sint i * 1000000 else sint i * 1000000000)
   \<and> 0 \<le> nanos (ParseUnix i) \<and> nanos (ParseUnix i) < 1000000000"
proof -
  have "sint i div 1000 * 1000 + sint i mod 1000 = sint i" by (rule div_mult_mod_eq)
  then have "sint i div 1000 * 1000000000 + sint i mod 1000 * 1000000 = sint i * 1000000"
    by linarith
  moreover have "0 \<le> sint i mod 1000" "sint i mod 1000 < 1000" by simp_all
  ultimately show ?thesis
    by (auto simp: ParseUnix_def instant_ns_def word_sless_alt)
qed

subsection \<open>RFC 3339 timestamps\<close>

text \<open>The rendering of a civil time: an optional fraction and a zone (\<open>None\<close> is \<open>Z\<close>).\<close>

definition render_zone :: "(bool \<times> int \<times> int) option \<Rightarrow> string" where
  "render_zone z = (case z of None \<Rightarrow> ''Z''
     | Some (west, hh, mm) \<Rightarrow> (if west then ''-'' else ''+'') @ digits2 hh @ '':'' @ digits2 mm)"

definition zone_seconds :: "(bool \<times> int \<times> int) option \<Rightarrow> int" where
  "zone_seconds z = (case z of None \<Rightarrow> 0
     | Some (west, hh, mm) \<Rightarrow> (if west then - ((hh * 60 + mm) * 60) else (hh * 60 + mm) * 60))"

definition valid_zone :: "(bool \<times> int \<times> int) option \<Rightarrow> bool" where
  "valid_zone z = (case z of None \<Rightarrow> True
     | Some (west, hh, mm) \<Rightarrow> 0 \<le> hh \<and> hh \<le> 24 \<and> 0 \<le> mm \<and> mm \<le> 60)"

definition render_frac :: "string \<Rightarrow> string" where
  "render_frac fr = (if fr = [] then [] else CHR ''.'' # fr)"

definition render_rfc3339 ::
  "int \<Rightarrow> int \<Rightarrow> int \<Rightarrow> int \<Rightarrow> int \<Rightarrow> int \<Rightarrow> string \<Rightarrow> (bool \<times> int \<times> int) option \<Rightarrow> string" where
  "render_rfc3339 y m d h mi s fr z =
     digits4 y @ ''-'' @ digits2 m @ ''-'' @ digits2 d @ ''T'' @ digits2 h @ '':'' @ digits2 mi
     @ '':'' @ digits2 s @ render_frac fr @ render_zone z"

definition valid_civil :: "int \<Rightarrow> int \<Rightarrow> int \<Rightarrow> int \<Rightarrow> int \<Rightarrow> int \<Rightarrow> bool" where
  "valid_civil y m d h mi s \<longleftrightarrow>
     0 \<le> y \<and> y < 10000 \<and> 1 \<le> m \<and> m \<le> 12 \<and> 1 \<le> d \<and> d \<le> days_in m y
     \<and> 0 \<le> h \<and> h < 24 \<and> 0 \<le> mi \<and> mi < 60 \<and> 0 \<le> s \<and> s < 60"

lemma take_digits2: "take 2 (digits2 n) = digits2 n"
  by (simp add: digits2_def)

lemma days_in_le: "days_in m y \<le> 31"
  by (simp add: days_in_def month_days_def)

lemma skip_char [simp]: "c \<noteq> CHR '' '' \<Longrightarrow> skip (c # s) [c] = Some s"
  by simp

lemma render_zone_head:
  "valid_zone z \<Longrightarrow> \<exists>c cs. render_zone z = c # cs \<and> \<not> is_digit c \<and> \<not> comma_or_period c"
  by (auto simp: render_zone_def is_digit_def code_def comma_or_period_def split: option.splits)

definition zone_of :: "(bool \<times> int \<times> int) option \<Rightarrow> zone" where
  "zone_of z = (if z = None then UTCZone else OffZone (zone_seconds z))"

lemma zone_of_off: "(case zone_of z of OffZone off \<Rightarrow> off | _ \<Rightarrow> 0) = zone_seconds z"
  by (simp add: zone_of_def zone_seconds_def)

lemma parse_zone_render:
  assumes "valid_zone z"
  shows "parse_zone (render_zone z) st = Some (st\<lparr>p_zone := zone_of z\<rparr>, [])"
proof (cases z)
  case None
  then show ?thesis by (simp add: render_zone_def parse_zone_def zone_of_def)
next
  case (Some w)
  obtain west hh mm where z: "z = Some (west, hh, mm)" using Some by (cases w) auto
  have b: "0 \<le> hh" "hh < 100" "0 \<le> mm" "mm < 100" "\<not> hh > 24" "\<not> mm > 60"
    using assms z by (auto simp: valid_zone_def)
  have g: "getnum (digits2 hh) True = Some (hh, [])" "getnum (digits2 mm) True = Some (mm, [])"
    using getnum_digits2 [of _ "[]" True] b by simp_all
  have parts: "length (render_zone z) = 6" "render_zone z ! 3 = CHR '':''"
    "take 2 (drop 1 (render_zone z)) = digits2 hh" "take 2 (drop 4 (render_zone z)) = digits2 mm"
    "drop 6 (render_zone z) = []"
    "render_zone z ! 0 = (if west then CHR ''-'' else CHR ''+'')" "hd (render_zone z) \<noteq> CHR ''Z''"
    by (simp_all add: z render_zone_def digits2_def)
  have "parse_zone (render_zone z) st =
      Some (st\<lparr>p_zone := OffZone (if west then - ((hh * 60 + mm) * 60) else (hh * 60 + mm) * 60)\<rparr>, [])"
    using parts g b unfolding parse_zone_def by (simp add: take_digits2)
  then show ?thesis by (simp add: z zone_of_def zone_seconds_def)
qed

lemma frac_digits_render:
  assumes "list_all is_digit fr" "valid_zone z"
  shows "frac_digits (render_frac fr @ render_zone z) = fr"
    and "drop (1 + length fr) (render_frac fr @ render_zone z) =
      (if fr = [] then tl (render_zone z) else render_zone z)"
proof -
  obtain c cs where c: "render_zone z = c # cs" "\<not> is_digit c" "\<not> comma_or_period c"
    using render_zone_head [OF assms(2)] by blast
  show "frac_digits (render_frac fr @ render_zone z) = fr"
    using c assms(1) takeWhile_append_stop [of fr is_digit c cs]
    by (cases fr) (auto simp: frac_digits_def render_frac_def comma_or_period_def
        is_digit_at_def list_all_iff)
  show "drop (1 + length fr) (render_frac fr @ render_zone z) =
      (if fr = [] then tl (render_zone z) else render_zone z)"
    using c by (auto simp: render_frac_def)
qed

lemma not_numeric: "CHR ''-'' \<in> set (tl s) \<Longrightarrow> \<exists>e. ParseInt s = Inl e"
proof (rule ccontr)
  assume m: "CHR ''-'' \<in> set (tl s)" and "\<nexists>e. ParseInt s = Inl e"
  then obtain w where "ParseInt s = Inr w" by (cases "ParseInt s") auto
  from ParseInt_Inr_cases [OF this] have "list_all is_digit (tl s)"
    by (cases s) (auto simp: all_digits_def)
  with m show False by (auto simp: list_all_iff)
qed

text \<open>
  C32: every valid civil date and time in RFC 3339 form, with any fraction and any offset,
  parses to the instant it denotes; digits of the fraction after the ninth are dropped.
\<close>

theorem Parse_RFC3339:
  assumes v: "valid_civil y m d h mi s" and fr: "list_all is_digit fr" and z: "valid_zone z"
  shows "Parse (render_rfc3339 y m d h mi s fr z) =
    Inr \<lparr>unix_sec = civil_sec y m d h mi s - zone_seconds z, nanos = parse_nanos fr,
         zone_off = zone_seconds z\<rparr>"
proof -
  have b: "0 \<le> y" "y < 10000" "0 \<le> m" "m < 100" "0 \<le> d" "d < 100" "0 \<le> h" "h < 100"
    "0 \<le> mi" "mi < 100" "0 \<le> s" "s < 100"
    using v days_in_le [of m y] by (auto simp: valid_civil_def)
  let ?tail = "render_frac fr @ render_zone z"
  have dash: "CHR ''-'' \<in> set (tl (render_rfc3339 y m d h mi s fr z))"
    by (simp add: render_rfc3339_def digits4_def digits2_def)
  have frac: "\<exists>st'. parse_frac ?tail st = Some (st', render_zone z) \<and>
      st' = (if fr = [] then st else st\<lparr>p_nsec := parse_nanos fr\<rparr>)" for st
    using frac_digits_render [OF fr z] by (auto simp: parse_frac_def render_frac_def)
  have "parse_layout RFC3339 (render_rfc3339 y m d h mi s fr z) parse_init =
    Some \<lparr>p_year = y, p_month = m, p_day = d, p_hour = h, p_min = mi, p_sec = s,
      p_nsec = (if fr = [] then 0 else parse_nanos fr), p_zone = zone_of z\<rparr>"
    using v b frac
    by (simp add: RFC3339_def render_rfc3339_def digits4_year getnum_digits2 valid_civil_def
        parse_init_def next_is_frac_def parse_zone_render [OF z] del: parse_elem.simps(1))
  then have "ParseInLocation RFC3339 (render_rfc3339 y m d h mi s fr z) =
    Some \<lparr>unix_sec = civil_sec y m d h mi s - zone_seconds z, nanos = parse_nanos fr,
         zone_off = zone_seconds z\<rparr>"
    using v by (simp add: ParseInLocation_def finish_parse_def valid_civil_def zone_of_off
        parse_nanos_def dec_def Let_def)
  with not_numeric [OF dash] show ?thesis
    by (auto simp: Parse_def layouts_def render_rfc3339_def digits4_def digits2_def)
qed

theorem Parse_RFC3339_witness:
  "Parse (render_rfc3339 2024 2 29 23 30 15 ''25'' (Some (False, 2, 0))) =
    Inr \<lparr>unix_sec = 1709249415 - 7200, nanos = 250000000, zone_off = 7200\<rparr>"
proof -
  have "valid_civil 2024 2 29 23 30 15" "list_all is_digit ''25''" "valid_zone (Some (False, 2, 0))"
    by code_simp+
  from Parse_RFC3339 [OF this]
  have "Parse (render_rfc3339 2024 2 29 23 30 15 ''25'' (Some (False, 2, 0))) =
    Inr \<lparr>unix_sec = civil_sec 2024 2 29 23 30 15 - zone_seconds (Some (False, 2, 0)),
         nanos = parse_nanos ''25'', zone_off = zone_seconds (Some (False, 2, 0))\<rparr>" .
  also have "\<dots> = Inr \<lparr>unix_sec = 1709249415 - 7200, nanos = 250000000, zone_off = 7200\<rparr>"
    by code_simp
  finally show ?thesis .
qed

text \<open>What the caller relies on: the time of a failed parse is the zero time (\<open>time.Time{}\<close>).\<close>

definition parsed_or_zero :: "string \<Rightarrow> gotime" where
  "parsed_or_zero value = (case Parse value of Inr t \<Rightarrow> t | Inl _ \<Rightarrow> zero_time)"

lemma parsed_or_zero_empty [simp]: "parsed_or_zero [] = zero_time"
  by (simp add: parsed_or_zero_def Parse_def)

end
