(* ===== verification/Domain.thy ===== *)
theory Domain
  imports Timeutil
begin

text \<open>
  \<open>internal/domain\<close>: the transaction record, its type tag (a Go string type with two
  constants) and its business rules. The persistence port of \<open>repository.go\<close> is the locale
  \<open>tx_store\<close> of theory Service.
\<close>

type_synonym TransactionType = string

definition TransactionTypeBet :: TransactionType where "TransactionTypeBet = ''bet''"
definition TransactionTypeWin :: TransactionType where "TransactionTypeWin = ''win''"

record transaction =
  ID :: int64
  UserID :: int64
  Type :: TransactionType
  Amount :: int64
  Timestamp :: gotime
  CreatedAt :: gotime

definition IsValid :: "TransactionType \<Rightarrow> goerr option" where
  "IsValid t =
     (if t = TransactionTypeBet \<or> t = TransactionTypeWin then None
      else Some (Sentinel ErrInvalidTransactionType))"

definition Validate :: "transaction \<Rightarrow> goerr option" where
  "Validate t =
     (if UserID t <=s 0 then Some (Sentinel ErrInvalidUserID)
      else if Amount t <=s 0 then Some (Sentinel ErrInvalidDomainAmount)
      else case IsValid (Type t) of Some e \<Rightarrow> Some e | None \<Rightarrow> None)"

text \<open>The business rules, as a predicate.\<close>

definition valid_tx :: "transaction \<Rightarrow> bool" where
  "valid_tx t \<longleftrightarrow> 0 < sint (UserID t) \<and> 0 < sint (Amount t) \<and> Type t \<in> {''bet'', ''win''}"

lemma IsValid_None [simp]: "IsValid t = None \<longleftrightarrow> t \<in> {''bet'', ''win''}"
  by (simp add: IsValid_def TransactionTypeBet_def TransactionTypeWin_def)

text \<open>
  \<open>Validate\<close> accepts exactly the transactions with a positive user, a positive amount and
  a known type, and otherwise reports the first rule that fails, in the order user, amount,
  type.
\<close>

theorem Validate_cases:
  "Validate t =
     (if valid_tx t then None
      else if sint (UserID t) \<le> 0 then Some (Sentinel ErrInvalidUserID)
      else if sint (Amount t) \<le> 0 then Some (Sentinel ErrInvalidDomainAmount)
      else Some (Sentinel ErrInvalidTransactionType))"
  by (auto simp: Validate_def IsValid_def valid_tx_def word_sle_eq
      TransactionTypeBet_def TransactionTypeWin_def)

lemma Validate_None: "Validate t = None \<longleftrightarrow> valid_tx t"
  by (auto simp: Validate_def IsValid_def valid_tx_def word_sle_eq
      TransactionTypeBet_def TransactionTypeWin_def)

end
