(* ===== verification/Boundary.thy ===== *)
theory Boundary
  imports Money Domain
begin

text \<open>
  \<open>internal/boundary/error_mapping.go\<close>: the classification of an error that the HTTP and the
  Kafka side share.
\<close>

datatype log_level = LevelDebug | LevelInfo | LevelWarn | LevelError

record ErrorMeta =
  Code :: string
  HTTPStatus :: int
  LogLevel :: log_level
  Reject :: bool
  Retryable :: bool

definition Classify :: "goerr \<Rightarrow> ErrorMeta" where
  "Classify err =
     (if errors_Is err ErrRepoNotInitialized then
        \<lparr>Code = ''repo_not_initialized'', HTTPStatus = 503, LogLevel = LevelError,
         Reject = False, Retryable = True\<rparr>
      else if errors_Is err ErrDBUnavailable then
        \<lparr>Code = ''db_unavailable'', HTTPStatus = 503, LogLevel = LevelError,
         Reject = False, Retryable = True\<rparr>
      else if errors_Is err ErrEmptyAmount \<or> errors_Is err ErrInvalidAmount
           \<or> errors_Is err ErrTooManyDecimals \<or> errors_Is err ErrInvalidDecimalPart
           \<or> errors_Is err ErrAmountOverflow then
        \<lparr>Code = ''invalid_amount_format'', HTTPStatus = 400, LogLevel = LevelWarn,
         Reject = True, Retryable = False\<rparr>
      else
        \<lparr>Code = ''internal_error'', HTTPStatus = 500, LogLevel = LevelError,
         Reject = False, Retryable = False\<rparr>)"

lemma Retryable_iff:
  "Retryable (Classify e) \<longleftrightarrow> errors_Is e ErrRepoNotInitialized \<or> errors_Is e ErrDBUnavailable"
  by (simp add: Classify_def)

lemma Reject_iff: "Reject (Classify e) \<longleftrightarrow> is_money_error e"
proof
  assume "is_money_error e"
  then have "\<not> errors_Is e ErrRepoNotInitialized" "\<not> errors_Is e ErrDBUnavailable"
    by (auto simp: is_money_error_def money_sentinels_def dest: errors_Is_unique)
  with \<open>is_money_error e\<close> show "Reject (Classify e)"
    by (auto simp: Classify_def is_money_error_def money_sentinels_def)
qed (auto simp: Classify_def is_money_error_def money_sentinels_def split: if_splits)

text \<open>
  The classes are disjoint and agree with the status: an error is retried exactly when it
  maps to 503, rejected exactly when it maps to 400, never both; the log level is a warning
  exactly for rejected input.
\<close>

theorem Classify_consistent:
  "(Retryable (Classify e) \<longleftrightarrow> HTTPStatus (Classify e) = 503)
   \<and> (Reject (Classify e) \<longleftrightarrow> HTTPStatus (Classify e) = 400)
   \<and> (LogLevel (Classify e) = LevelWarn \<longleftrightarrow> Reject (Classify e))
   \<and> \<not> (Retryable (Classify e) \<and> Reject (Classify e))
   \<and> HTTPStatus (Classify e) \<in> {400, 500, 503}"
  by (simp add: Classify_def)

text \<open>
  Wrapping an error with \<open>%w\<close> never changes its class.
\<close>

theorem Classify_wrapped:
  "Classify (Wrapped pre e) = Classify e \<and> Classify (WrappedBy e d) = Classify e"
  by (simp add: Classify_def)

text \<open>
  Every error of the amount parser is classified as rejected input, status 400, that must
  not be retried.
\<close>

theorem Classify_money_error:
  assumes "ParseToMinorUnits raw = Inl e"
  shows "Classify e = \<lparr>Code = ''invalid_amount_format'', HTTPStatus = 400, LogLevel = LevelWarn,
    Reject = True, Retryable = False\<rparr>"
proof -
  from ParseToMinorUnits_Inl [OF assms] have m: "is_money_error e" .
  then have "\<not> errors_Is e ErrRepoNotInitialized" "\<not> errors_Is e ErrDBUnavailable"
    by (auto simp: is_money_error_def money_sentinels_def dest: errors_Is_unique)
  with m show ?thesis
    by (auto simp: Classify_def is_money_error_def money_sentinels_def)
qed

theorem Classify_money_error_witness:
  "Code (Classify (Sentinel ErrTooManyDecimals)) = ''invalid_amount_format''"
proof -
  have "ParseToMinorUnits ''1.234'' = Inl (Sentinel ErrTooManyDecimals)" by code_simp
  from Classify_money_error [OF this] show ?thesis by simp
qed

text \<open>
  A wrapped \<open>nonRetryableError\<close> hides its cause: it is always an internal error, and a context
  error (a timed-out database call) is never retryable.
\<close>

lemma Classify_NonRetryable: "Classify (NonRetryable e) = Classify (Opaque [])"
  by (simp add: Classify_def)

lemma Classify_context:
  "errors_Is e CtxCanceled \<or> errors_Is e CtxDeadlineExceeded \<Longrightarrow> \<not> Retryable (Classify e)"
  by (auto simp: Retryable_iff dest: errors_Is_unique)

end
