(* ===== verification/Config.thy ===== *)
theory Config
  imports Go_Errors
begin

text \<open>
  \<open>internal/config/config.go\<close>: the settings, the defaults \<open>loadConfig\<close> applies after the
  file and the environment were read, and the process-wide instance. The reader
  (\<open>cleanenv\<close>, a third-party package) and the process environment are parameters. Go's
  \<open>int\<close> fields are integers here: they are only compared, and the places that multiply them
  into durations write the 64-bit wrap-around out.
\<close>

record App =
  AppName :: string
  AppVersion :: string

record HTTP =
  Port :: string
  ReadHeaderTimeoutSeconds :: int
  ReadTimeoutSeconds :: int
  WriteTimeoutSeconds :: int
  IdleTimeoutSeconds :: int

record Postgres =
  PoolMaxOpen :: int
  PoolMaxIdle :: int
  PoolMaxLegacy :: int
  ConnMaxLifetimeMinutes :: int
  URL :: string

record Kafka =
  Brokers :: "string list"
  Topic :: string
  GroupID :: string
  ProcessTimeoutMs :: int
  RetryBaseDelayMs :: int
  RetryJitterMs :: int
  MaxProcessRetries :: int
  DLQTopic :: string
  MetricsFlushSec :: int
  ShutdownDrainTimeoutSec :: int
  BatchSize :: int
  BatchFlushIntervalSec :: int

record Config =
  cfg_App :: App
  cfg_HTTP :: HTTP
  cfg_LogLevel :: string
  cfg_Postgres :: Postgres
  cfg_Kafka :: Kafka

definition at_least_one :: "int \<Rightarrow> int \<Rightarrow> int" where
  "at_least_one v dflt = (if v \<le> 0 then dflt else v)"

text \<open>The statements of \<open>loadConfig\<close> after the two reads.\<close>

text \<open>The constants of the defaults.\<close>

abbreviation defaultConfigPath :: string where "defaultConfigPath \<equiv> ''config.yaml''"
abbreviation defaultPostgresConnLifetimeMinutes :: int where "defaultPostgresConnLifetimeMinutes \<equiv> 5"
abbreviation defaultPostgresPoolMaxOpen :: int where "defaultPostgresPoolMaxOpen \<equiv> 25"
abbreviation defaultPostgresPoolMaxIdle :: int where "defaultPostgresPoolMaxIdle \<equiv> 5"
abbreviation defaultKafkaProcessTimeoutMs :: int where "defaultKafkaProcessTimeoutMs \<equiv> 5000"
abbreviation defaultKafkaRetryBaseDelayMs :: int where "defaultKafkaRetryBaseDelayMs \<equiv> 100"
abbreviation defaultKafkaRetryJitterMs :: int where "defaultKafkaRetryJitterMs \<equiv> 300"
abbreviation defaultKafkaMaxProcessRetries :: int where "defaultKafkaMaxProcessRetries \<equiv> 3"
abbreviation defaultKafkaMetricsFlushSec :: int where "defaultKafkaMetricsFlushSec \<equiv> 15"
abbreviation defaultKafkaDLQTopicSuffix :: string where "defaultKafkaDLQTopicSuffix \<equiv> ''.dlq''"
abbreviation defaultKafkaShutdownDrainTimeoutSec :: int where "defaultKafkaShutdownDrainTimeoutSec \<equiv> 60"
abbreviation defaultKafkaBatchSize :: int where "defaultKafkaBatchSize \<equiv> 100"
abbreviation defaultKafkaBatchFlushIntervalSec :: int where "defaultKafkaBatchFlushIntervalSec \<equiv> 5"

definition default_postgres :: "Postgres \<Rightarrow> Postgres" where
  "default_postgres p =
     p\<lparr>ConnMaxLifetimeMinutes := at_least_one (ConnMaxLifetimeMinutes p) defaultPostgresConnLifetimeMinutes,
       PoolMaxOpen :=
         (if PoolMaxOpen p \<le> 0 then (if PoolMaxLegacy p > 0 then PoolMaxLegacy p else defaultPostgresPoolMaxOpen)
          else PoolMaxOpen p),
       PoolMaxIdle := at_least_one (PoolMaxIdle p) defaultPostgresPoolMaxIdle\<rparr>"

definition default_kafka :: "Kafka \<Rightarrow> Kafka" where
  "default_kafka k =
     k\<lparr>ProcessTimeoutMs := at_least_one (ProcessTimeoutMs k) defaultKafkaProcessTimeoutMs,
       RetryBaseDelayMs := at_least_one (RetryBaseDelayMs k) defaultKafkaRetryBaseDelayMs,
       RetryJitterMs := at_least_one (RetryJitterMs k) defaultKafkaRetryJitterMs,
       MaxProcessRetries := (if MaxProcessRetries k < 0 then defaultKafkaMaxProcessRetries else MaxProcessRetries k),
       MetricsFlushSec := at_least_one (MetricsFlushSec k) defaultKafkaMetricsFlushSec,
       ShutdownDrainTimeoutSec := at_least_one (ShutdownDrainTimeoutSec k) defaultKafkaShutdownDrainTimeoutSec,
       DLQTopic := (if DLQTopic k = [] \<and> Topic k \<noteq> [] then Topic k @ defaultKafkaDLQTopicSuffix else DLQTopic k),
       BatchSize := at_least_one (BatchSize k) defaultKafkaBatchSize,
       BatchFlushIntervalSec := at_least_one (BatchFlushIntervalSec k) defaultKafkaBatchFlushIntervalSec\<rparr>"

definition apply_defaults :: "Config \<Rightarrow> Config" where
  "apply_defaults c =
     c\<lparr>cfg_Postgres := default_postgres (cfg_Postgres c), cfg_Kafka := default_kafka (cfg_Kafka c)\<rparr>"

text \<open>The environment of the process: variables, files and the two \<open>cleanenv\<close> readers.\<close>

record config_env =
  Getenv :: "string \<Rightarrow> string"
  Stat :: "string \<Rightarrow> bool"
  ReadConfig :: "string \<Rightarrow> Config \<Rightarrow> goerr + Config"
  ReadEnv :: "Config \<Rightarrow> goerr + Config"

definition empty_config :: Config where
  "empty_config =
     \<lparr>cfg_App = \<lparr>AppName = [], AppVersion = []\<rparr>,
      cfg_HTTP = \<lparr>Port = [], ReadHeaderTimeoutSeconds = 0, ReadTimeoutSeconds = 0,
                 WriteTimeoutSeconds = 0, IdleTimeoutSeconds = 0\<rparr>,
      cfg_LogLevel = [],
      cfg_Postgres = \<lparr>PoolMaxOpen = 0, PoolMaxIdle = 0, PoolMaxLegacy = 0,
                     ConnMaxLifetimeMinutes = 0, URL = []\<rparr>,
      cfg_Kafka = \<lparr>Brokers = [], Topic = [], GroupID = [], ProcessTimeoutMs = 0,
                  RetryBaseDelayMs = 0, RetryJitterMs = 0, MaxProcessRetries = 0, DLQTopic = [],
                  MetricsFlushSec = 0, ShutdownDrainTimeoutSec = 0, BatchSize = 0,
                  BatchFlushIntervalSec = 0\<rparr>\<rparr>"

definition loadConfig :: "config_env \<Rightarrow> goerr + Config" where
  "loadConfig env =
     (let p = Getenv env ''CONFIG_PATH'';
          configPath = (if p = [] then defaultConfigPath else p);
          fromFile =
            (if Stat env configPath then
               (case ReadConfig env configPath empty_config of
                  Inl e \<Rightarrow> Inl (Wrapped ''read config file error: '' e)
                | Inr c \<Rightarrow> Inr c)
             else Inr empty_config) in
      bind_sum fromFile (\<lambda>cfg.
        case ReadEnv env cfg of
          Inl e \<Rightarrow> Inl (Wrapped ''read env error: '' e)
        | Inr c \<Rightarrow> Inr (apply_defaults c)))"

text \<open>\<open>NewConfig\<close> under its mutex: the package variable \<open>instance\<close> is state.\<close>

definition NewConfig :: "config_env \<Rightarrow> Config option \<Rightarrow> (goerr + Config) \<times> Config option" where
  "NewConfig env inst =
     (case inst of
        Some c \<Rightarrow> (Inr c, inst)
      | None \<Rightarrow> (case loadConfig env of
            Inl e \<Rightarrow> (Inl e, None)
          | Inr c \<Rightarrow> (Inr c, Some c)))"

definition ResetConfig :: "Config option \<Rightarrow> Config option" where
  "ResetConfig inst = None"

subsection \<open>What the consumer and the pool rely on\<close>

definition valid_kafka :: "Kafka \<Rightarrow> bool" where
  "valid_kafka k \<longleftrightarrow>
     0 < ProcessTimeoutMs k \<and> 0 < RetryBaseDelayMs k \<and> 0 < RetryJitterMs k
     \<and> 0 \<le> MaxProcessRetries k \<and> 0 < MetricsFlushSec k \<and> 0 < ShutdownDrainTimeoutSec k
     \<and> 0 < BatchSize k \<and> 0 < BatchFlushIntervalSec k \<and> (Topic k = [] \<or> DLQTopic k \<noteq> [])"

definition valid_postgres :: "Postgres \<Rightarrow> bool" where
  "valid_postgres p \<longleftrightarrow> 0 < PoolMaxOpen p \<and> 0 < PoolMaxIdle p \<and> 0 < ConnMaxLifetimeMinutes p"

lemma at_least_one_pos: "0 < d \<Longrightarrow> 0 < at_least_one v d"
  by (simp add: at_least_one_def)

lemma at_least_one_id: "0 < v \<Longrightarrow> at_least_one v d = v"
  by (simp add: at_least_one_def)

lemma default_kafka_valid: "valid_kafka (default_kafka k)"
  by (auto simp: valid_kafka_def default_kafka_def at_least_one_pos)

lemma default_kafka_id: "valid_kafka k \<Longrightarrow> default_kafka k = k"
  by (auto simp: valid_kafka_def default_kafka_def at_least_one_id)

lemma default_postgres_valid: "valid_postgres (default_postgres p)"
  by (simp add: valid_postgres_def default_postgres_def at_least_one_pos)

text \<open>A usable setting is not replaced: each number that is in range, each topic that is given.\<close>

definition kafka_kept :: "Kafka \<Rightarrow> Kafka \<Rightarrow> bool" where
  "kafka_kept k k' \<longleftrightarrow>
     Brokers k' = Brokers k \<and> Topic k' = Topic k \<and> GroupID k' = GroupID k
     \<and> (0 < ProcessTimeoutMs k \<longrightarrow> ProcessTimeoutMs k' = ProcessTimeoutMs k)
     \<and> (0 < RetryBaseDelayMs k \<longrightarrow> RetryBaseDelayMs k' = RetryBaseDelayMs k)
     \<and> (0 < RetryJitterMs k \<longrightarrow> RetryJitterMs k' = RetryJitterMs k)
     \<and> (0 \<le> MaxProcessRetries k \<longrightarrow> MaxProcessRetries k' = MaxProcessRetries k)
     \<and> (0 < MetricsFlushSec k \<longrightarrow> MetricsFlushSec k' = MetricsFlushSec k)
     \<and> (0 < ShutdownDrainTimeoutSec k \<longrightarrow> ShutdownDrainTimeoutSec k' = ShutdownDrainTimeoutSec k)
     \<and> (0 < BatchSize k \<longrightarrow> BatchSize k' = BatchSize k)
     \<and> (0 < BatchFlushIntervalSec k \<longrightarrow> BatchFlushIntervalSec k' = BatchFlushIntervalSec k)
     \<and> (DLQTopic k \<noteq> [] \<longrightarrow> DLQTopic k' = DLQTopic k)
     \<and> (DLQTopic k = [] \<and> Topic k \<noteq> [] \<longrightarrow> DLQTopic k' = Topic k @ ''.dlq'')"

definition postgres_kept :: "Postgres \<Rightarrow> Postgres \<Rightarrow> bool" where
  "postgres_kept p p' \<longleftrightarrow>
     URL p' = URL p
     \<and> (0 < PoolMaxIdle p \<longrightarrow> PoolMaxIdle p' = PoolMaxIdle p)
     \<and> (0 < ConnMaxLifetimeMinutes p \<longrightarrow> ConnMaxLifetimeMinutes p' = ConnMaxLifetimeMinutes p)
     \<and> PoolMaxOpen p' = (if 0 < PoolMaxOpen p then PoolMaxOpen p
                         else if 0 < PoolMaxLegacy p then PoolMaxLegacy p else 25)"

lemma default_kafka_kept: "kafka_kept k (default_kafka k)"
  by (simp add: kafka_kept_def default_kafka_def at_least_one_id)

lemma default_postgres_kept: "postgres_kept p (default_postgres p)"
  by (simp add: postgres_kept_def default_postgres_def at_least_one_id)

text \<open>
  C36: whatever the file and the environment contain, a loaded configuration has positive pool
  sizes and connection lifetime and positive consumer timeouts, delays, intervals and batch size,
  a non-negative retry count, and a dead-letter topic whenever it has a topic. What was read
  from the environment on top of the file is kept where it is usable, and the explicit pool size
  wins over the legacy one; the timeouts of the HTTP server are kept as read, unchecked.
\<close>

theorem loadConfig_valid:
  assumes "loadConfig env = Inr c"
  shows "valid_kafka (cfg_Kafka c) \<and> valid_postgres (cfg_Postgres c)
    \<and> (\<exists>path base c0. path = (if Getenv env ''CONFIG_PATH'' = [] then ''config.yaml'' else Getenv env ''CONFIG_PATH'')
         \<and> (if Stat env path then ReadConfig env path empty_config = Inr base else base = empty_config)
         \<and> ReadEnv env base = Inr c0
         \<and> kafka_kept (cfg_Kafka c0) (cfg_Kafka c) \<and> postgres_kept (cfg_Postgres c0) (cfg_Postgres c)
         \<and> cfg_HTTP c = cfg_HTTP c0 \<and> cfg_App c = cfg_App c0 \<and> cfg_LogLevel c = cfg_LogLevel c0)"
proof -
  define path where "path = (if Getenv env ''CONFIG_PATH'' = [] then ''config.yaml'' else Getenv env ''CONFIG_PATH'')"
  obtain base where base: "if Stat env path then ReadConfig env path empty_config = Inr base else base = empty_config"
    "(case ReadEnv env base of Inl e \<Rightarrow> Inl (Wrapped ''read env error: '' e)
      | Inr c0 \<Rightarrow> Inr (apply_defaults c0)) = Inr c"
    using assms unfolding loadConfig_def Let_def bind_sum_eq_Inr path_def [symmetric]
    by (auto split: if_splits sum.splits)
  then obtain c0 where r: "ReadEnv env base = Inr c0" and c: "c = apply_defaults c0"
    by (auto split: sum.splits)
  have "kafka_kept (cfg_Kafka c0) (cfg_Kafka c)" "postgres_kept (cfg_Postgres c0) (cfg_Postgres c)"
    "valid_kafka (cfg_Kafka c)" "valid_postgres (cfg_Postgres c)"
    "cfg_HTTP c = cfg_HTTP c0" "cfg_App c = cfg_App c0" "cfg_LogLevel c = cfg_LogLevel c0"
    by (simp_all add: c apply_defaults_def default_kafka_valid default_postgres_valid default_kafka_kept
        default_postgres_kept)
  with path_def base(1) r show ?thesis by blast
qed

definition sample_env :: config_env where
  "sample_env = \<lparr>Getenv = (\<lambda>_. []), Stat = (\<lambda>_. False), ReadConfig = (\<lambda>_ c. Inr c), ReadEnv = Inr\<rparr>"

theorem loadConfig_valid_witness:
  "\<exists>c. loadConfig sample_env = Inr c \<and> valid_kafka (cfg_Kafka c) \<and> PoolMaxOpen (cfg_Postgres c) = 25"
proof -
  have l: "loadConfig sample_env = Inr (apply_defaults empty_config)"
    by (simp add: loadConfig_def sample_env_def Let_def)
  from loadConfig_valid [OF this] have "valid_kafka (cfg_Kafka (apply_defaults empty_config))"
    "postgres_kept (cfg_Postgres empty_config) (cfg_Postgres (apply_defaults empty_config))"
    by (auto simp: sample_env_def)
  with l show ?thesis by (simp add: postgres_kept_def empty_config_def)
qed

text \<open>
  Once a load has succeeded every later call returns the same configuration and ignores the
  environment; a failed load leaves no instance, so the next call loads again.
\<close>

theorem NewConfig_singleton:
  "NewConfig env' (snd (NewConfig env inst)) =
     (case fst (NewConfig env inst) of
        Inr c \<Rightarrow> (Inr c, Some c)
      | Inl e \<Rightarrow> NewConfig env' None)"
  by (auto simp: NewConfig_def split: option.splits sum.splits)

end
