(* ===== verification/Json.thy ===== *)
theory Json
  imports Go_Std
begin

text \<open>
  \<open>encoding/json\<close> as the repository uses it for decoding: a byte-level scanner, the value
  grammar with its nesting limit, and string unquoting with UTF-8 repair. The scanner and the
  grammar are state machines that read one byte or one token at a time, so both are total
  without fuel. At the end, the strings as the encoder writes them.
\<close>

datatype json =
    JNull
  | JBool bool
  | JNum string \<comment> \<open>the literal text, as \<open>json.Number\<close> keeps it\<close>
  | JStr string \<comment> \<open>unquoted\<close>
  | JArr "json list"
  | JObj "(string \<times> json) list" \<comment> \<open>in source order, duplicates kept\<close>

datatype token =
    TLBrace | TRBrace | TLBrack | TRBrack | TColon | TComma
  | TStr string | TNum string | TLit json

subsection \<open>Unquoting\<close>

definition in_range :: "int \<Rightarrow> int \<Rightarrow> char \<Rightarrow> bool" where
  "in_range lo hi c \<longleftrightarrow> lo \<le> code c \<and> code c \<le> hi"

abbreviation cont :: "char \<Rightarrow> bool" where "cont \<equiv> in_range 128 191"

text \<open>\<open>utf8.DecodeRune\<close>: the length of a well-formed sequence at the front, or 0.\<close>

definition utf8_len :: "string \<Rightarrow> nat" where
  "utf8_len s =
     (case s of
        a # b # r \<Rightarrow>
          if in_range 0xC2 0xDF a then (if cont b then 2 else 0)
          else (case r of
              c # r' \<Rightarrow>
                if code a = 0xE0 then (if in_range 0xA0 0xBF b \<and> cont c then 3 else 0)
                else if code a = 0xED then (if in_range 0x80 0x9F b \<and> cont c then 3 else 0)
                else if in_range 0xE1 0xEF a then (if cont b \<and> cont c then 3 else 0)
                else (case r' of
                    d # _ \<Rightarrow>
                      if code a = 0xF0 then (if in_range 0x90 0xBF b \<and> cont c \<and> cont d then 4 else 0)
                      else if in_range 0xF1 0xF3 a then (if cont b \<and> cont c \<and> cont d then 4 else 0)
                      else if code a = 0xF4 then (if in_range 0x80 0x8F b \<and> cont c \<and> cont d then 4 else 0)
                      else 0
                  | [] \<Rightarrow> 0)
            | [] \<Rightarrow> 0)
      | _ \<Rightarrow> 0)"

definition encode_rune :: "int \<Rightarrow> string" where
  "encode_rune r =
     (if r < 0x80 then [byte r]
      else if r < 0x800 then [byte (0xC0 + r div 64), byte (0x80 + r mod 64)]
      else if r < 0x10000 then
        [byte (0xE0 + r div 4096), byte (0x80 + r div 64 mod 64), byte (0x80 + r mod 64)]
      else
        [byte (0xF0 + r div 262144), byte (0x80 + r div 4096 mod 64),
         byte (0x80 + r div 64 mod 64), byte (0x80 + r mod 64)])"

definition replacement :: string where "replacement = encode_rune 0xFFFD"

definition hex_val :: "char \<Rightarrow> int option" where
  "hex_val c =
     (if in_range 48 57 c then Some (code c - 48)
      else if in_range 97 102 c then Some (code c - 87)
      else if in_range 65 70 c then Some (code c - 55) else None)"

text \<open>\<open>getu4\<close>: the code unit of a leading \<open>\uXXXX\<close>.\<close>

definition getu4 :: "string \<Rightarrow> int option" where
  "getu4 s =
     (case s of
        b # u # h3 # h2 # h1 # h0 # _ \<Rightarrow>
          if code b = 92 \<and> u = CHR ''u'' then
            (case (hex_val h3, hex_val h2, hex_val h1, hex_val h0) of
               (Some d3, Some d2, Some d1, Some d0) \<Rightarrow> Some (((d3 * 16 + d2) * 16 + d1) * 16 + d0)
             | _ \<Rightarrow> None)
          else None
      | _ \<Rightarrow> None)"

definition is_surrogate :: "int \<Rightarrow> bool" where
  "is_surrogate r \<longleftrightarrow> 0xD800 \<le> r \<and> r < 0xE000"

text \<open>A \<open>\u\<close> escape at the front: the bytes it stands for and how many input bytes it takes.\<close>

definition unquote_u :: "string \<Rightarrow> string \<times> nat" where
  "unquote_u s =
     (case getu4 s of
        None \<Rightarrow> ([], 6)
      | Some r \<Rightarrow>
          if is_surrogate r then
            (case getu4 (drop 6 s) of
               Some r1 \<Rightarrow>
                 if r < 0xDC00 \<and> 0xDC00 \<le> r1 \<and> r1 < 0xE000
                 then (encode_rune ((r - 0xD800) * 1024 + (r1 - 0xDC00) + 0x10000), 12)
                 else (replacement, 6)
             | None \<Rightarrow> (replacement, 6))
          else (encode_rune r, 6))"

definition unescape :: "char \<Rightarrow> char" where
  "unescape c =
     (if c = CHR ''b'' then byte 8 else if c = CHR ''f'' then byte 12
      else if c = CHR ''n'' then byte 10 else if c = CHR ''r'' then byte 13
      else if c = CHR ''t'' then byte 9 else c)"

function unquote :: "string \<Rightarrow> string" where
  "unquote [] = []"
| "unquote (c # cs) =
     (if code c = 92 then
        (case cs of
           [] \<Rightarrow> []
         | e # es \<Rightarrow>
             if e = CHR ''u'' then (let (out, n) = unquote_u (c # cs) in out @ unquote (drop (n - 1) cs))
             else unescape e # unquote es)
      else if code c < 128 then c # unquote cs
      else if utf8_len (c # cs) = 0 then replacement @ unquote cs
      else take (utf8_len (c # cs)) (c # cs) @ unquote (drop (utf8_len (c # cs) - 1) cs))"
  by pat_completeness auto
termination
  by (relation "measure length") auto

subsection \<open>The scanner\<close>

datatype scan =
    Normal | InStr string | InEsc string | InHex string nat | InNum string | InLit string

definition is_space :: "char \<Rightarrow> bool" where
  "is_space c \<longleftrightarrow> code c = 32 \<or> code c = 9 \<or> code c = 13 \<or> code c = 10"

definition is_lower :: "char \<Rightarrow> bool" where
  "is_lower c \<longleftrightarrow> in_range 97 122 c"

definition is_num_char :: "char \<Rightarrow> bool" where
  "is_num_char c \<longleftrightarrow> is_digit c \<or> c \<in> {CHR ''-'', CHR ''+'', CHR ''.'', CHR ''e'', CHR ''E''}"

text \<open>The number grammar: \<open>-? (0 | [1-9][0-9]*) ([.][0-9]+)? ([eE][+-]?[0-9]+)?\<close>.\<close>

definition num_exp_ok :: "string \<Rightarrow> bool" where
  "num_exp_ok s =
     (case s of
        [] \<Rightarrow> True
      | e # r \<Rightarrow>
          (e = CHR ''e'' \<or> e = CHR ''E'') \<and>
          all_digits (case r of g # r' \<Rightarrow> if g = CHR ''+'' \<or> g = CHR ''-'' then r' else r | [] \<Rightarrow> r))"

definition num_frac_ok :: "string \<Rightarrow> bool" where
  "num_frac_ok s =
     (case s of
        c # r \<Rightarrow>
          if c = CHR ''.'' then takeWhile is_digit r \<noteq> [] \<and> num_exp_ok (dropWhile is_digit r)
          else num_exp_ok s
      | [] \<Rightarrow> True)"

definition num_int_ok :: "string \<Rightarrow> bool" where
  "num_int_ok s =
     (case s of
        [] \<Rightarrow> False
      | c # r \<Rightarrow>
          if c = CHR ''0'' then num_frac_ok r
          else is_digit c \<and> num_frac_ok (dropWhile is_digit r))"

definition num_ok :: "string \<Rightarrow> bool" where
  "num_ok s = num_int_ok (if s \<noteq> [] \<and> hd s = CHR ''-'' then tl s else s)"

definition lit_token :: "string \<Rightarrow> token option" where
  "lit_token s =
     (if s = ''true'' then Some (TLit (JBool True))
      else if s = ''false'' then Some (TLit (JBool False))
      else if s = ''null'' then Some (TLit JNull) else None)"

text \<open>A byte outside strings, numbers and literals.\<close>

definition scan_start :: "char \<Rightarrow> (token list \<times> scan) option" where
  "scan_start c =
     (if is_space c then Some ([], Normal)
      else if c = CHR ''{'' then Some ([TLBrace], Normal)
      else if c = CHR ''}'' then Some ([TRBrace], Normal)
      else if c = CHR ''['' then Some ([TLBrack], Normal)
      else if c = CHR '']'' then Some ([TRBrack], Normal)
      else if c = CHR '':'' then Some ([TColon], Normal)
      else if c = CHR '','' then Some ([TComma], Normal)
      else if code c = 34 then Some ([], InStr [])
      else if c = CHR ''-'' \<or> is_digit c then Some ([], InNum [c])
      else if is_lower c then Some ([], InLit [c])
      else None)"

definition is_escape :: "char \<Rightarrow> bool" where
  "is_escape c \<longleftrightarrow> code c \<in> {34, 92, 47, 98, 102, 110, 114, 116}"

text \<open>One byte; accumulators are reversed. The tokens are those completed by the byte.\<close>

fun scan_step :: "scan \<Rightarrow> char \<Rightarrow> (token list \<times> scan) option" where
  "scan_step Normal c = scan_start c"
| "scan_step (InStr acc) c =
     (if code c = 34 then Some ([TStr (unquote (rev acc))], Normal)
      else if code c = 92 then Some ([], InEsc (c # acc))
      else if code c < 32 then None
      else Some ([], InStr (c # acc)))"
| "scan_step (InEsc acc) c =
     (if c = CHR ''u'' then Some ([], InHex (c # acc) 4)
      else if is_escape c then Some ([], InStr (c # acc)) else None)"
| "scan_step (InHex acc n) c =
     (if hex_val c = None then None
      else if n \<le> 1 then Some ([], InStr (c # acc)) else Some ([], InHex (c # acc) (n - 1)))"
| "scan_step (InNum acc) c =
     (if is_num_char c then Some ([], InNum (c # acc))
      else if \<not> num_ok (rev acc) then None
      else map_option (\<lambda>(ts, st). (TNum (rev acc) # ts, st)) (scan_start c))"
| "scan_step (InLit acc) c =
     (if is_lower c then Some ([], InLit (c # acc))
      else case lit_token (rev acc) of None \<Rightarrow> None
        | Some t \<Rightarrow> map_option (\<lambda>(ts, st). (t # ts, st)) (scan_start c))"

fun scan_end :: "scan \<Rightarrow> token list option" where
  "scan_end Normal = Some []"
| "scan_end (InNum acc) = (if num_ok (rev acc) then Some [TNum (rev acc)] else None)"
| "scan_end (InLit acc) = map_option (\<lambda>t. [t]) (lit_token (rev acc))"
| "scan_end _ = None"

fun scan_all :: "scan \<Rightarrow> string \<Rightarrow> token list option" where
  "scan_all st [] = scan_end st"
| "scan_all st (c # cs) =
     (case scan_step st c of None \<Rightarrow> None
      | Some (ts, st') \<Rightarrow> map_option (\<lambda>rest. ts @ rest) (scan_all st' cs))"

subsection \<open>The grammar\<close>

datatype frame =
    FArr "json list"
  | FObj "(string \<times> json) list"
  | FVal "(string \<times> json) list" string

datatype pst = PValue | PFirst | PKeyFirst | PKey | PColon string | PNext | PDone json

text \<open>A finished value goes to the innermost open array or object; both grow reversed.\<close>

fun complete :: "json \<Rightarrow> frame list \<Rightarrow> pst \<times> frame list" where
  "complete v [] = (PDone v, [])"
| "complete v (FArr vs # st) = (PNext, FArr (v # vs) # st)"
| "complete v (FVal ps k # st) = (PNext, FObj ((k, v) # ps) # st)"
| "complete v (FObj ps # st) = (PNext, FObj ps # st)"

definition max_nesting :: int where "max_nesting = 10000"

definition push_frame :: "frame \<Rightarrow> pst \<Rightarrow> frame list \<Rightarrow> (pst \<times> frame list) option" where
  "push_frame f p st = (if int (length st) + 1 > max_nesting then None else Some (p, f # st))"

definition parse_value :: "token \<Rightarrow> frame list \<Rightarrow> (pst \<times> frame list) option" where
  "parse_value t st =
     (case t of
        TLit v \<Rightarrow> Some (complete v st)
      | TNum n \<Rightarrow> Some (complete (JNum n) st)
      | TStr s \<Rightarrow> Some (complete (JStr s) st)
      | TLBrack \<Rightarrow> push_frame (FArr []) PFirst st
      | TLBrace \<Rightarrow> push_frame (FObj []) PKeyFirst st
      | _ \<Rightarrow> None)"

fun pstep :: "pst \<Rightarrow> frame list \<Rightarrow> token \<Rightarrow> (pst \<times> frame list) option" where
  "pstep PValue st t = parse_value t st"
| "pstep PFirst st t =
     (if t = TRBrack then Some (complete (JArr []) (tl st)) else parse_value t st)"
| "pstep PKeyFirst st t =
     (case t of TStr k \<Rightarrow> Some (PColon k, st)
      | TRBrace \<Rightarrow> Some (complete (JObj []) (tl st)) | _ \<Rightarrow> None)"
| "pstep PKey st t = (case t of TStr k \<Rightarrow> Some (PColon k, st) | _ \<Rightarrow> None)"
| "pstep (PColon k) st t =
     (case (t, st) of (TColon, FObj ps # st') \<Rightarrow> Some (PValue, FVal ps k # st') | _ \<Rightarrow> None)"
| "pstep PNext st t =
     (case (t, st) of
        (TComma, FArr vs # st') \<Rightarrow> Some (PValue, st)
      | (TComma, FObj ps # st') \<Rightarrow> Some (PKey, st)
      | (TRBrack, FArr vs # st') \<Rightarrow> Some (complete (JArr (rev vs)) st')
      | (TRBrace, FObj ps # st') \<Rightarrow> Some (complete (JObj (rev ps)) st')
      | _ \<Rightarrow> None)"
| "pstep (PDone v) st t = None"

fun prun :: "pst \<Rightarrow> frame list \<Rightarrow> token list \<Rightarrow> json option" where
  "prun p st [] = (case p of PDone v \<Rightarrow> Some v | _ \<Rightarrow> None)"
| "prun p st (t # ts) =
     (case pstep p st t of None \<Rightarrow> None | Some (p', st') \<Rightarrow> prun p' st' ts)"

definition json_parse :: "string \<Rightarrow> json option" where
  "json_parse s = (case scan_all Normal s of None \<Rightarrow> None | Some ts \<Rightarrow> prun PValue [] ts)"

subsection \<open>Quoting\<close>

text \<open>A string of \<open>encoding/json\<close> with HTML escaping, without its quotes.\<close>

definition hex_digit :: "int \<Rightarrow> char" where
  "hex_digit n = (if n < 10 then byte (48 + n) else byte (87 + n))"

definition u_escape :: "string \<Rightarrow> string" where
  "u_escape h = byte 92 # CHR ''u'' # h"

definition escape_ascii :: "char \<Rightarrow> string" where
  "escape_ascii c =
     (if code c = 34 \<or> code c = 92 then [byte 92, c]
      else if code c = 8 then byte 92 # ''b'' else if code c = 12 then byte 92 # ''f''
      else if code c = 10 then byte 92 # ''n'' else if code c = 13 then byte 92 # ''r''
      else if code c = 9 then byte 92 # ''t''
      else if code c < 32 \<or> c = CHR ''<'' \<or> c = CHR ''>'' \<or> c = CHR ''&'' then
        u_escape (''00'' @ [hex_digit (code c div 16), hex_digit (code c mod 16)])
      else [c])"

function json_escape :: "string \<Rightarrow> string" where
  "json_escape [] = []"
| "json_escape (c # cs) =
     (if code c < 128 then escape_ascii c @ json_escape cs
      else if utf8_len (c # cs) = 0 then u_escape ''fffd'' @ json_escape cs
      else let n = utf8_len (c # cs); r = take n (c # cs) in
        (if map code r = [0xE2, 0x80, 0xA8] then u_escape ''2028''
         else if map code r = [0xE2, 0x80, 0xA9] then u_escape ''2029'' else r)
        @ json_escape (drop (n - 1) cs))"
  by pat_completeness auto
termination
  by (relation "measure length") auto

end
