(* ===== verification/Dto.thy ===== *)
theory Dto
  imports Json Boundary
begin

text \<open>
  \<open>internal/transport/kafka/dto.go\<close> and the request half of
  \<open>internal/transport/http/dto.go\<close>: decoding a JSON object into a transaction request and
  turning it into a domain transaction. The two files repeat the same steps; each is written out
  here on its own, and the two are then shown to agree. The decoder of \<open>encoding/json\<close> matches a key to a
  field exactly or after case folding, lets the last duplicate win, leaves a field alone on
  \<open>null\<close>, and reports a type mismatch only after the whole object was read.
\<close>

subsection \<open>encoding/json into the auxiliary struct\<close>

text \<open>\<open>foldName\<close>, as far as it can reach ASCII names: two code points fold to \<open>S\<close> and \<open>K\<close>.\<close>

definition upper_char :: "char \<Rightarrow> char" where
  "upper_char c = (if in_range 97 122 c then byte (code c - 32) else c)"

fun fold_name :: "string \<Rightarrow> string" where
  "fold_name [] = []"
| "fold_name (a # cs) =
     (case cs of
        b # cs' \<Rightarrow>
          if code a = 0xC5 \<and> code b = 0xBF then CHR ''S'' # fold_name cs'
          else (case cs' of
              c # cs'' \<Rightarrow>
                if code a = 0xE2 \<and> code b = 0x84 \<and> code c = 0xAA then CHR ''K'' # fold_name cs''
                else upper_char a # fold_name cs
            | [] \<Rightarrow> upper_char a # fold_name cs)
      | [] \<Rightarrow> [upper_char a])"

text \<open>The field a key selects: the exact name first, then the folded one.\<close>

definition field_names :: "string list" where
  "field_names = [''user_id'', ''transaction_type'', ''amount'', ''timestamp'']"

definition find_field :: "string \<Rightarrow> string option" where
  "find_field k =
     (if k \<in> set field_names then Some k
      else find (\<lambda>f. fold_name f = fold_name k) field_names)"

record aux_struct =
  aux_UserID :: int64
  aux_Type :: string
  aux_Amount :: "json option" \<comment> \<open>\<open>json.RawMessage\<close>; \<open>None\<close> is the empty message\<close>
  aux_Timestamp :: string
  aux_err :: "goerr option" \<comment> \<open>the decoder's saved error\<close>

definition aux_init :: aux_struct where
  "aux_init = \<lparr>aux_UserID = 0, aux_Type = [], aux_Amount = None, aux_Timestamp = [], aux_err = None\<rparr>"

text \<open>\<open>saveError\<close> keeps the first \<open>UnmarshalTypeError\<close>.\<close>

definition save_error :: "string \<Rightarrow> aux_struct \<Rightarrow> aux_struct" where
  "save_error field a =
     (if aux_err a = None
      then a\<lparr>aux_err := Some (Opaque (''json: cannot unmarshal into field '' @ field))\<rparr> else a)"

definition decode_field :: "string \<Rightarrow> json \<Rightarrow> aux_struct \<Rightarrow> aux_struct" where
  "decode_field f v a =
     (if f = ''user_id'' then
        (case v of
           JNull \<Rightarrow> a
         | JNum n \<Rightarrow> (case ParseInt n of Inr i \<Rightarrow> a\<lparr>aux_UserID := i\<rparr> | Inl _ \<Rightarrow> save_error f a)
         | _ \<Rightarrow> save_error f a)
      else if f = ''transaction_type'' then
        (case v of JNull \<Rightarrow> a | JStr s \<Rightarrow> a\<lparr>aux_Type := s\<rparr> | _ \<Rightarrow> save_error f a)
      else if f = ''amount'' then a\<lparr>aux_Amount := Some v\<rparr>
      else
        (case v of JNull \<Rightarrow> a | JStr s \<Rightarrow> a\<lparr>aux_Timestamp := s\<rparr> | _ \<Rightarrow> save_error f a))"

fun decode_members :: "(string \<times> json) list \<Rightarrow> aux_struct \<Rightarrow> aux_struct" where
  "decode_members [] a = a"
| "decode_members ((k, v) # ms) a =
     decode_members ms (case find_field k of None \<Rightarrow> a | Some f \<Rightarrow> decode_field f v a)"

text \<open>\<open>json.Unmarshal(data, &aux)\<close> on a parsed value.\<close>

definition decode_aux :: "json \<Rightarrow> goerr + aux_struct" where
  "decode_aux v =
     (case v of
        JNull \<Rightarrow> Inr aux_init
      | JObj ms \<Rightarrow>
          (let a = decode_members ms aux_init in
           case aux_err a of Some e \<Rightarrow> Inl e | None \<Rightarrow> Inr a)
      | _ \<Rightarrow> Inl (Opaque ''json: cannot unmarshal into struct''))"

text \<open>
  The amount: a message that starts with a quote is unquoted, any other is read as a
  \<open>json.Number\<close>, where \<open>null\<close> leaves the empty string and a boolean, an array or an object
  is a type error.
\<close>

definition amount_string :: "json option \<Rightarrow> goerr + string" where
  "amount_string raw =
     (case raw of
        None \<Rightarrow> Inl (Opaque ''amount is required'')
      | Some (JStr s) \<Rightarrow> Inr s
      | Some (JNum n) \<Rightarrow> Inr n
      | Some JNull \<Rightarrow> Inr []
      | Some _ \<Rightarrow> Inl (Opaque ''json: cannot unmarshal into json.Number''))"

subsection \<open>kafka.TransactionDTO\<close>

record TransactionDTO =
  dto_UserID :: int64
  dto_Type :: TransactionType
  dto_Amount :: string
  dto_Timestamp :: string

definition UnmarshalJSON :: "json \<Rightarrow> goerr + TransactionDTO" where
  "UnmarshalJSON data =
     (case decode_aux data of Inl e \<Rightarrow> Inl e
      | Inr aux \<Rightarrow>
          (case amount_string (aux_Amount aux) of Inl e \<Rightarrow> Inl e
           | Inr amountStr \<Rightarrow>
               Inr \<lparr>dto_UserID = aux_UserID aux, dto_Type = aux_Type aux,
                    dto_Amount = amountStr, dto_Timestamp = aux_Timestamp aux\<rparr>))"

text \<open>\<open>json.Unmarshal(msg.Value, &dto)\<close>: the bytes are checked as a whole first.\<close>

definition Unmarshal :: "string \<Rightarrow> goerr + TransactionDTO" where
  "Unmarshal bytes =
     (case json_parse bytes of None \<Rightarrow> Inl (Opaque ''invalid JSON'') | Some v \<Rightarrow> UnmarshalJSON v)"

definition ToDomain :: "TransactionDTO \<Rightarrow> goerr + transaction" where
  "ToDomain dto =
     (let parsedTime = parsed_or_zero (dto_Timestamp dto) in
      case ParseToMinorUnits (dto_Amount dto) of
        Inl e \<Rightarrow> Inl e
      | Inr amount \<Rightarrow>
          Inr \<lparr>ID = 0, UserID = dto_UserID dto, Type = dto_Type dto, Amount = amount,
               Timestamp = parsedTime, CreatedAt = zero_time\<rparr>)"

subsection \<open>http.CreateTransactionRequest\<close>

record CreateTransactionRequest =
  req_UserID :: int64
  req_TransactionType :: TransactionType
  req_Amount :: string
  req_Timestamp :: string

text \<open>Its own auxiliary struct, with the tags of its fields, and the decoder into it.\<close>

record request_aux =
  raux_UserID :: int64
  raux_TransactionType :: TransactionType
  raux_Amount :: "json option"
  raux_Timestamp :: string

definition request_tags :: "string list" where
  "request_tags = [''user_id'', ''transaction_type'', ''amount'', ''timestamp'']"

definition request_field :: "string \<Rightarrow> string option" where
  "request_field k =
     (if k \<in> set request_tags then Some k else find (\<lambda>tag. fold_name tag = fold_name k) request_tags)"

text \<open>A value stored into a field of a Go type: \<open>null\<close> keeps it, \<open>None\<close> is a type mismatch.\<close>

fun into_int64 :: "json \<Rightarrow> int64 \<Rightarrow> int64 option" where
  "into_int64 JNull old = Some old"
| "into_int64 (JNum n) old = (case ParseInt n of Inr i \<Rightarrow> Some i | Inl _ \<Rightarrow> None)"
| "into_int64 _ old = None"

fun into_string :: "json \<Rightarrow> string \<Rightarrow> string option" where
  "into_string JNull old = Some old"
| "into_string (JStr s) old = Some s"
| "into_string _ old = None"

text \<open>The member for a tag; \<open>None\<close> is a value of the wrong type.\<close>

definition request_member :: "string \<Rightarrow> json \<Rightarrow> request_aux \<Rightarrow> request_aux option" where
  "request_member tag v a =
     (if tag = ''user_id'' then map_option (\<lambda>i. a\<lparr>raux_UserID := i\<rparr>) (into_int64 v (raux_UserID a))
      else if tag = ''transaction_type'' then
        map_option (\<lambda>t. a\<lparr>raux_TransactionType := t\<rparr>) (into_string v (raux_TransactionType a))
      else if tag = ''amount'' then Some (a\<lparr>raux_Amount := Some v\<rparr>)
      else map_option (\<lambda>t. a\<lparr>raux_Timestamp := t\<rparr>) (into_string v (raux_Timestamp a)))"

text \<open>All members, and the tag of the first mismatch, which is reported after the last one.\<close>

fun request_members ::
  "(string \<times> json) list \<Rightarrow> request_aux \<Rightarrow> string option \<Rightarrow> request_aux \<times> string option" where
  "request_members [] a bad = (a, bad)"
| "request_members ((k, v) # ms) a bad =
     (case request_field k of
        None \<Rightarrow> request_members ms a bad
      | Some tag \<Rightarrow>
          (case request_member tag v a of
             Some a' \<Rightarrow> request_members ms a' bad
           | None \<Rightarrow> request_members ms a (if bad = None then Some tag else bad)))"

fun decode_request :: "json \<Rightarrow> goerr + request_aux" where
  "decode_request JNull =
     Inr \<lparr>raux_UserID = 0, raux_TransactionType = [], raux_Amount = None, raux_Timestamp = []\<rparr>"
| "decode_request (JObj ms) =
     (case request_members ms
        \<lparr>raux_UserID = 0, raux_TransactionType = [], raux_Amount = None, raux_Timestamp = []\<rparr> None of
        (a, None) \<Rightarrow> Inr a
      | (a, Some tag) \<Rightarrow> Inl (Opaque (''json: cannot unmarshal into field '' @ tag)))"
| "decode_request _ = Inl (Opaque ''json: cannot unmarshal into struct'')"

text \<open>\<open>aux.Amount[0] == '"'\<close>, and the two ways to read the raw amount.\<close>

fun starts_quoted :: "json \<Rightarrow> bool" where
  "starts_quoted (JStr s) = True"
| "starts_quoted _ = False"

fun into_Number :: "json \<Rightarrow> goerr + string" where
  "into_Number (JNum n) = Inr n"
| "into_Number JNull = Inr []"
| "into_Number _ = Inl (Opaque ''json: cannot unmarshal into json.Number'')"

definition request_amount :: "request_aux \<Rightarrow> goerr + string" where
  "request_amount aux =
     (case raux_Amount aux of
        None \<Rightarrow> Inl (Opaque ''amount is required'')
      | Some raw \<Rightarrow>
          if starts_quoted raw then
            (case into_string raw [] of Some s \<Rightarrow> Inr s
             | None \<Rightarrow> Inl (Opaque ''json: cannot unmarshal into string''))
          else into_Number raw)"

definition req_UnmarshalJSON :: "json \<Rightarrow> goerr + CreateTransactionRequest" where
  "req_UnmarshalJSON data =
     bind_sum (decode_request data) (\<lambda>aux.
       bind_sum (request_amount aux) (\<lambda>amountStr.
         Inr \<lparr>req_UserID = raux_UserID aux, req_TransactionType = raux_TransactionType aux,
              req_Amount = amountStr, req_Timestamp = raux_Timestamp aux\<rparr>))"

definition req_ToDomain :: "CreateTransactionRequest \<Rightarrow> goerr + transaction" where
  "req_ToDomain r =
     (let parsedTime = (case Parse (req_Timestamp r) of Inr t \<Rightarrow> t | Inl _ \<Rightarrow> zero_time) in
      case ParseToMinorUnits (req_Amount r) of
        Inl e \<Rightarrow> Inl e
      | Inr amount \<Rightarrow>
          Inr \<lparr>ID = 0, UserID = req_UserID r, Type = req_TransactionType r, Amount = amount,
               Timestamp = parsedTime, CreatedAt = zero_time\<rparr>)"

subsection \<open>The two decoders\<close>

text \<open>The same auxiliary struct on both sides, with the first mismatch so far.\<close>

definition same_aux :: "aux_struct \<Rightarrow> request_aux \<Rightarrow> string option \<Rightarrow> bool" where
  "same_aux a r bad \<longleftrightarrow>
     aux_UserID a = raux_UserID r \<and> aux_Type a = raux_TransactionType r \<and> aux_Amount a = raux_Amount r
     \<and> aux_Timestamp a = raux_Timestamp r
     \<and> aux_err a = map_option (\<lambda>tag. Opaque (''json: cannot unmarshal into field '' @ tag)) bad"

lemma request_field_find: "request_field k = find_field k"
  by (simp add: request_field_def find_field_def request_tags_def field_names_def)

lemma same_field:
  assumes "same_aux a r bad"
  shows "case request_member tag v r of
      Some r' \<Rightarrow> same_aux (decode_field tag v a) r' bad
    | None \<Rightarrow> same_aux (decode_field tag v a) r (if bad = None then Some tag else bad)"
  using assms
  by (cases v) (auto simp: request_member_def decode_field_def save_error_def same_aux_def split: sum.split)

lemma same_members:
  "same_aux a r bad \<Longrightarrow> case request_members ms r bad of (r', bad') \<Rightarrow> same_aux (decode_members ms a) r' bad'"
proof (induction ms arbitrary: a r bad)
  case (Cons m ms)
  obtain k v where m: "m = (k, v)" by fastforce
  show ?case
  proof (cases "find_field k")
    case None
    with Cons show ?thesis by (simp add: m request_field_find)
  next
    case (Some tag)
    from same_field [OF Cons.prems, of tag v] Cons.IH Some show ?thesis
      by (cases "request_member tag v r") (simp_all add: m request_field_find)
  qed
qed simp

lemma same_decoded:
  "case decode_aux v of
     Inl e \<Rightarrow> decode_request v = Inl e
   | Inr a \<Rightarrow> \<exists>r. decode_request v = Inr r \<and> same_aux a r None"
proof (cases v)
  case (JObj ms)
  let ?r = "\<lparr>raux_UserID = 0, raux_TransactionType = [], raux_Amount = None, raux_Timestamp = []\<rparr>"
  have "same_aux aux_init ?r None" by (simp add: same_aux_def aux_init_def)
  from same_members [OF this, of ms] JObj show ?thesis
    by (auto simp: decode_aux_def Let_def same_aux_def split: prod.split option.split)
qed (auto simp: decode_aux_def same_aux_def aux_init_def)

lemma same_amount: "same_aux a r bad \<Longrightarrow> request_amount r = amount_string (aux_Amount a)"
  by (auto simp: same_aux_def request_amount_def amount_string_def split: option.split json.split)

definition same_request :: "TransactionDTO \<Rightarrow> CreateTransactionRequest \<Rightarrow> bool" where
  "same_request dto r \<longleftrightarrow>
     req_UserID r = dto_UserID dto \<and> req_TransactionType r = dto_Type dto
     \<and> req_Amount r = dto_Amount dto \<and> req_Timestamp r = dto_Timestamp dto"

lemma same_unmarshalled:
  "case UnmarshalJSON v of
     Inl e \<Rightarrow> req_UnmarshalJSON v = Inl e
   | Inr dto \<Rightarrow> \<exists>r. req_UnmarshalJSON v = Inr r \<and> same_request dto r"
proof (cases "decode_aux v")
  case (Inl e)
  with same_decoded [of v] show ?thesis by (simp add: UnmarshalJSON_def req_UnmarshalJSON_def)
next
  case (Inr a)
  with same_decoded [of v] obtain r where r: "decode_request v = Inr r" "same_aux a r None" by auto
  with Inr same_amount [OF r(2)] show ?thesis
    by (auto simp: UnmarshalJSON_def req_UnmarshalJSON_def same_request_def same_aux_def split: sum.split)
qed

text \<open>Without a member for the amount both fail.\<close>

lemma members_no_amount:
  "\<forall>(k, v) \<in> set ms. find_field k \<noteq> Some ''amount'' \<Longrightarrow> aux_Amount (decode_members ms a) = aux_Amount a"
proof (induction ms arbitrary: a)
  case (Cons m ms)
  obtain k v where m: "m = (k, v)" by fastforce
  have "aux_Amount (decode_field f v a) = aux_Amount a" if "f \<noteq> ''amount''" for f
    using that by (auto simp: decode_field_def save_error_def split: json.split sum.split)
  with Cons m show ?case by (auto split: option.split)
qed simp

lemma amount_required:
  assumes "\<forall>(k, v) \<in> set ms. find_field k \<noteq> Some ''amount''"
  shows "isl (UnmarshalJSON (JObj ms))"
  using members_no_amount [OF assms, of aux_init]
  by (auto simp: UnmarshalJSON_def decode_aux_def Let_def aux_init_def amount_string_def split: option.split)

text \<open>
  C34: the Kafka payload and the HTTP request body are read the same way, by two separate
  decoders. On every JSON value they fail together with the same error, or both succeed with the
  same user, type, amount text and timestamp and give the same result in the domain; and an
  object in which no key selects the amount is refused by both.
\<close>

theorem dto_request_agree:
  "(case UnmarshalJSON v of
      Inl e \<Rightarrow> req_UnmarshalJSON v = Inl e
    | Inr dto \<Rightarrow> \<exists>r. req_UnmarshalJSON v = Inr r
        \<and> req_UserID r = dto_UserID dto \<and> req_TransactionType r = dto_Type dto
        \<and> req_Amount r = dto_Amount dto \<and> req_Timestamp r = dto_Timestamp dto
        \<and> req_ToDomain r = ToDomain dto)
   \<and> (\<forall>ms. v = JObj ms \<and> (\<forall>(k, x) \<in> set ms. find_field k \<noteq> Some ''amount'')
        \<longrightarrow> isl (UnmarshalJSON v) \<and> isl (req_UnmarshalJSON v))"
proof -
  have dom: "req_ToDomain r = ToDomain dto" if "same_request dto r" for r dto
    using that by (simp add: same_request_def req_ToDomain_def ToDomain_def parsed_or_zero_def Let_def split: sum.split)
  have "case UnmarshalJSON v of
      Inl e \<Rightarrow> req_UnmarshalJSON v = Inl e
    | Inr dto \<Rightarrow> \<exists>r. req_UnmarshalJSON v = Inr r
        \<and> req_UserID r = dto_UserID dto \<and> req_TransactionType r = dto_Type dto
        \<and> req_Amount r = dto_Amount dto \<and> req_Timestamp r = dto_Timestamp dto
        \<and> req_ToDomain r = ToDomain dto"
    using same_unmarshalled [of v] dom by (auto simp: same_request_def split: sum.split)
  moreover have "isl (req_UnmarshalJSON v)" if "isl (UnmarshalJSON v)"
    using that same_unmarshalled [of v] by (auto split: sum.splits)
  ultimately show ?thesis using amount_required by blast
qed

theorem dto_request_agree_witness:
  "isl (UnmarshalJSON (JObj [(''user_id'', JNum ''7'')])) \<and> isl (req_UnmarshalJSON (JObj [(''user_id'', JNum ''7'')]))"
proof -
  have "find_field ''user_id'' \<noteq> Some ''amount''" by code_simp
  with dto_request_agree [of "JObj [(''user_id'', JNum ''7'')]"] show ?thesis by simp
qed

subsection \<open>Plain text through the scanner\<close>

definition quote :: char where "quote = byte 34"

text \<open>Printable ASCII without the quote and the backslash.\<close>

definition plain_char :: "char \<Rightarrow> bool" where
  "plain_char c \<longleftrightarrow> in_range 32 126 c \<and> code c \<noteq> 34 \<and> code c \<noteq> 92"

abbreviation plain :: "string \<Rightarrow> bool" where "plain \<equiv> list_all plain_char"

lemma code_quote [simp]: "code quote = 34"
  by (simp add: quote_def)

lemma unquote_plain: "plain s \<Longrightarrow> unquote s = s"
  by (induction s) (auto simp: plain_char_def in_range_def)

lemma map_option_append_Nil [simp]: "map_option ((@) []) r = r"
  by (cases r) auto

lemma map_option_append_single [simp]: "map_option ((@) [x]) r = map_option ((#) x) r"
  by (cases r) auto

lemma scan_str:
  "plain s \<Longrightarrow> scan_all (InStr acc) (s @ quote # r) =
     map_option (\<lambda>ts. TStr (unquote (rev acc @ s)) # ts) (scan_all Normal r)"
proof (induction s arbitrary: acc)
  case (Cons c s)
  then have "scan_step (InStr acc) c = Some ([], InStr (c # acc))"
    by (simp add: plain_char_def in_range_def)
  with Cons show ?case by (simp add: option.map_ident)
qed simp

lemma scan_quote: "scan_start quote = Some ([], InStr [])"
proof -
  have "quote \<noteq> CHR ''{''" "quote \<noteq> CHR ''}''" "quote \<noteq> CHR ''[''" "quote \<noteq> CHR '']''"
    "quote \<noteq> CHR '':''" "quote \<noteq> CHR '',''"
    by (simp_all add: code_eq_iff [symmetric] quote_def) (simp_all add: code_def)
  then show ?thesis by (simp add: scan_start_def is_space_def)
qed

lemma scan_quoted:
  "plain s \<Longrightarrow> scan_all Normal (quote # s @ quote # r) =
     map_option (\<lambda>ts. TStr s # ts) (scan_all Normal r)"
  using scan_str [of s "[]" r]
  by (simp add: scan_quote unquote_plain option.map_comp comp_def option.map_ident)

lemma scan_num:
  "\<lbrakk>list_all is_num_char s; \<not> is_num_char c; num_ok (rev acc @ s); scan_start c = Some (ts, st)\<rbrakk> \<Longrightarrow>
   scan_all (InNum acc) (s @ c # r) =
     map_option (\<lambda>us. TNum (rev acc @ s) # us) (scan_all Normal (c # r))"
proof (induction s arbitrary: acc)
  case Nil
  then show ?case by (cases "scan_all st r") (auto split: option.splits)
next
  case (Cons a s)
  then show ?case by (simp add: option.map_ident)
qed

lemma scan_punct:
  "scan_start CHR ''{'' = Some ([TLBrace], Normal)" "scan_start CHR ''}'' = Some ([TRBrace], Normal)"
  "scan_start CHR '':'' = Some ([TColon], Normal)" "scan_start CHR '','' = Some ([TComma], Normal)"
  by (simp_all add: scan_start_def is_space_def code_def)

lemma nat_digits_head: "0 < n \<Longrightarrow> hd (nat_digits n) \<noteq> CHR ''0''"
proof (induction n rule: nat_digits.induct)
  case (1 n)
  show ?case
  proof (cases "n < 10")
    case True
    then have "digit_val (digit_char n) \<noteq> digit_val CHR ''0''"
      using 1 by (simp, simp add: digit_val_def code_def)
    with True show ?thesis by (subst nat_digits.simps) auto
  next
    case False
    with 1 show ?thesis by (subst nat_digits.simps) simp
  qed
qed

lemma num_int_ok_digits: "0 \<le> n \<Longrightarrow> num_int_ok (nat_digits n)"
proof (cases "n = 0")
  case True
  then show ?thesis by (subst True) code_simp
next
  case False
  assume "0 \<le> n"
  with False obtain c cs where c: "nat_digits n = c # cs" "is_digit c" "c \<noteq> CHR ''0''"
    using hd_nat_digits [of n] nat_digits_head [of n] by auto
  have "list_all is_digit cs" using nat_digits_all [OF \<open>0 \<le> n\<close>] c by simp
  then have "dropWhile is_digit cs = []" by (simp add: dropWhile_eq_Nil_conv list_all_iff)
  then have "num_frac_ok (dropWhile is_digit cs)" by (simp only: num_frac_ok_def list.case)
  with c show ?thesis by (simp add: num_int_ok_def)
qed

lemma num_ok_Itoa: "num_ok (Itoa i)"
proof (cases "i < 0")
  case True
  then show ?thesis by (simp add: num_ok_def Itoa_def num_int_ok_digits)
next
  case False
  then obtain c cs where "nat_digits i = c # cs" "is_digit c"
    using hd_nat_digits [of i] by auto
  with False num_int_ok_digits [of i] show ?thesis by (auto simp: num_ok_def Itoa_def)
qed

lemma Itoa_num_chars: "list_all is_num_char (Itoa i)"
proof -
  have "list_all is_num_char s" if "list_all is_digit s" for s
    using that by (rule list.pred_mono_strong) (simp add: is_num_char_def)
  then show ?thesis
    using nat_digits_all [of i] nat_digits_all [of "- i"]
    by (cases "i < 0") (simp_all add: Itoa_def is_num_char_def)
qed

lemma scan_start_digit:
  assumes "c = CHR ''-'' \<or> is_digit c"
  shows "scan_start c = Some ([], InNum [c])"
proof (cases "c = CHR ''-''")
  case True
  then show ?thesis by (simp add: scan_start_def is_space_def code_def)
next
  case False
  with assms have "is_digit c" by simp
  moreover from this have "\<not> is_space c" "code c \<noteq> 34"
    by (auto simp: is_space_def is_digit_def)
  moreover have "\<not> is_digit p" if "p \<in> set ''{}[]:,''" for p
    using that by (auto simp: is_digit_def code_def)
  ultimately show ?thesis by (auto simp: scan_start_def)
qed

lemma scan_int:
  "scan_all Normal (Itoa i @ CHR '','' # r) =
     map_option (\<lambda>us. TNum (Itoa i) # us) (scan_all Normal (CHR '','' # r))"
proof -
  obtain c cs where c: "Itoa i = c # cs" "c = CHR ''-'' \<or> is_digit c"
    using hd_nat_digits [of i] by (cases "i < 0") (auto simp: Itoa_def)
  have comma: "\<not> is_num_char CHR '',''" by (simp add: is_num_char_def is_digit_def code_def)
  have "list_all is_num_char cs" "num_ok (rev [c] @ cs)"
    using Itoa_num_chars [of i] num_ok_Itoa [of i] c(1) by simp_all
  from scan_num [OF this(1) comma this(2) scan_punct(4), of r]
  show ?thesis using c by (simp add: scan_start_digit)
qed

subsection \<open>Escaped text through the scanner\<close>

definition quoted :: "string \<Rightarrow> string" where
  "quoted s = quote # s @ [quote]"

abbreviation ascii :: "string \<Rightarrow> bool" where "ascii \<equiv> list_all (\<lambda>c. code c < 128)"

text \<open>An ASCII byte is written as itself, as a letter after a backslash, or as four hex digits.\<close>

lemma hex_digit: "\<lbrakk>0 \<le> n; n < 16\<rbrakk> \<Longrightarrow> hex_val (hex_digit n) = Some n"
  by (simp add: hex_digit_def hex_val_def in_range_def)

definition escaped_char :: "char \<Rightarrow> string \<Rightarrow> bool" where
  "escaped_char c s \<longleftrightarrow>
     (\<exists>e. s = [byte 92, e] \<and> is_escape e \<and> e \<noteq> CHR ''u'' \<and> unescape e = c)
     \<or> (\<exists>h1 h2. s = [byte 92, CHR ''u'', CHR ''0'', CHR ''0'', h1, h2]
          \<and> hex_val h1 = Some (code c div 16) \<and> hex_val h2 = Some (code c mod 16))
     \<or> (s = [c] \<and> 32 \<le> code c \<and> code c \<noteq> 34 \<and> code c \<noteq> 92)"

lemma escape_ascii_char:
  assumes "code c < 128"
  shows "escaped_char c (escape_ascii c)"
proof -
  have letters: "code CHR ''b'' = 98" "code CHR ''f'' = 102" "code CHR ''n'' = 110" "code CHR ''r'' = 114"
    "code CHR ''t'' = 116" "code CHR ''u'' = 117" by (simp_all add: code_def)
  have self: "is_escape c \<and> c \<noteq> CHR ''u'' \<and> unescape c = c" if "code c = 34 \<or> code c = 92"
    using that letters by (auto simp: is_escape_def unescape_def)
  have "is_escape e \<and> e \<noteq> CHR ''u'' \<and> unescape e = byte n"
    if "(e, n) \<in> {(CHR ''b'', 8), (CHR ''f'', 12), (CHR ''n'', 10), (CHR ''r'', 13), (CHR ''t'', 9)}" for e n
    using that letters by (auto simp: is_escape_def unescape_def)
  then have ctl: "is_escape e \<and> e \<noteq> CHR ''u'' \<and> unescape e = c"
    if "code c = n" "(e, n) \<in> {(CHR ''b'', 8), (CHR ''f'', 12), (CHR ''n'', 10), (CHR ''r'', 13), (CHR ''t'', 9)}" for e n
    using that byte_code [of c] by metis
  have h: "hex_val (hex_digit (code c div 16)) = Some (code c div 16)"
    "hex_val (hex_digit (code c mod 16)) = Some (code c mod 16)"
    using assms code_range(1) [of c] by (auto intro!: hex_digit)
  show ?thesis
    using self h ctl [of 8 "CHR ''b''"] ctl [of 12 "CHR ''f''"] ctl [of 10 "CHR ''n''"]
      ctl [of 13 "CHR ''r''"] ctl [of 9 "CHR ''t''"]
    unfolding escaped_char_def escape_ascii_def u_escape_def by (auto split: if_splits)
qed

lemma unquote_escaped:
  assumes "escaped_char c s" "code c < 128"
  shows "unquote (s @ r) = c # unquote r"
  using assms(1) unfolding escaped_char_def
proof (elim disjE exE conjE)
  fix h1 h2
  assume h: "s = [byte 92, CHR ''u'', CHR ''0'', CHR ''0'', h1, h2]" "hex_val h1 = Some (code c div 16)"
    "hex_val h2 = Some (code c mod 16)"
  have "hex_val CHR ''0'' = Some 0" by code_simp
  with h assms(2) have "unquote_u (s @ r) = ([c], 6)"
    by (simp add: unquote_u_def getu4_def is_surrogate_def encode_rune_def)
  with h(1) show ?thesis by simp
qed (use assms(2) in auto)

lemma scan_escaped:
  assumes "escaped_char c s"
  shows "scan_all (InStr acc) (s @ r) = scan_all (InStr (rev s @ acc)) r"
  using assms unfolding escaped_char_def
proof (elim disjE exE conjE)
  fix h1 h2
  assume h: "s = [byte 92, CHR ''u'', CHR ''0'', CHR ''0'', h1, h2]" "hex_val h1 = Some (code c div 16)"
    "hex_val h2 = Some (code c mod 16)"
  have "hex_val CHR ''0'' = Some 0" by code_simp
  with h show ?thesis by (simp add: option.map_ident)
qed (simp_all add: option.map_ident)

lemma unquote_escape: "ascii s \<Longrightarrow> unquote (json_escape s) = s"
  by (induction s) (simp_all add: unquote_escaped [OF escape_ascii_char])

lemma scan_escape:
  "ascii s \<Longrightarrow> scan_all (InStr acc) (json_escape s @ r) = scan_all (InStr (rev (json_escape s) @ acc)) r"
proof (induction s arbitrary: acc)
  case (Cons c s)
  then have "scan_all (InStr acc) (escape_ascii c @ json_escape s @ r)
      = scan_all (InStr (rev (escape_ascii c) @ acc)) (json_escape s @ r)"
    by (intro scan_escaped [OF escape_ascii_char]) simp
  with Cons show ?case by simp
qed simp

lemma scan_quoted_escape:
  assumes "ascii s"
  shows "scan_all Normal (quoted (json_escape s) @ r) = map_option ((#) (TStr s)) (scan_all Normal r)"
proof -
  have "scan_all Normal (quoted (json_escape s) @ r) = scan_all (InStr []) (json_escape s @ quote # r)"
    by (simp add: quoted_def scan_quote option.map_ident)
  also have "\<dots> = scan_all (InStr (rev (json_escape s))) (quote # r)"
    using scan_escape [OF assms, of "[]" "quote # r"] by simp
  finally show ?thesis by (simp add: unquote_escape [OF assms])
qed

subsection \<open>Round trip of the payload\<close>

text \<open>
  The payload \<open>json.Marshal\<close> writes for a request: the fields in the order of the struct, the
  strings escaped.
\<close>

definition render_dto :: "TransactionDTO \<Rightarrow> string" where
  "render_dto dto =
     ''{'' @ quoted ''user_id'' @ '':'' @ Itoa (sint (dto_UserID dto)) @ '',''
     @ quoted ''transaction_type'' @ '':'' @ quoted (json_escape (dto_Type dto)) @ '',''
     @ quoted ''amount'' @ '':'' @ quoted (json_escape (dto_Amount dto)) @ '',''
     @ quoted ''timestamp'' @ '':'' @ quoted (json_escape (dto_Timestamp dto)) @ ''}''"

lemma plain_names:
  "plain ''user_id''" "plain ''transaction_type''" "plain ''amount''" "plain ''timestamp''"
  by code_simp+

lemma scan_punct_cons:
  "scan_all Normal (CHR ''{'' # r) = map_option ((#) TLBrace) (scan_all Normal r)"
  "scan_all Normal (CHR ''}'' # r) = map_option ((#) TRBrace) (scan_all Normal r)"
  "scan_all Normal (CHR '':'' # r) = map_option ((#) TColon) (scan_all Normal r)"
  "scan_all Normal (CHR '','' # r) = map_option ((#) TComma) (scan_all Normal r)"
  by (simp_all add: scan_punct)

lemma scan_quoted':
  "plain s \<Longrightarrow> scan_all Normal (quoted s @ r) = map_option ((#) (TStr s)) (scan_all Normal r)"
  using scan_quoted [of s r] by (simp add: quoted_def)

lemma json_parse_render:
  assumes "ascii (dto_Type dto)" "ascii (dto_Amount dto)" "ascii (dto_Timestamp dto)"
  shows "json_parse (render_dto dto) =
    Some (JObj [(''user_id'', JNum (Itoa (sint (dto_UserID dto)))),
      (''transaction_type'', JStr (dto_Type dto)), (''amount'', JStr (dto_Amount dto)),
      (''timestamp'', JStr (dto_Timestamp dto))])"
proof -
  have "scan_all Normal (render_dto dto) =
    Some [TLBrace, TStr ''user_id'', TColon, TNum (Itoa (sint (dto_UserID dto))), TComma,
      TStr ''transaction_type'', TColon, TStr (dto_Type dto), TComma,
      TStr ''amount'', TColon, TStr (dto_Amount dto), TComma,
      TStr ''timestamp'', TColon, TStr (dto_Timestamp dto), TRBrace]"
    unfolding render_dto_def
    by (simp add: scan_punct_cons scan_quoted' [OF plain_names(1)] scan_quoted' [OF plain_names(2)]
        scan_quoted' [OF plain_names(3)] scan_quoted' [OF plain_names(4)] scan_quoted_escape [OF assms(1)]
        scan_quoted_escape [OF assms(2)] scan_quoted_escape [OF assms(3)] scan_int
        del: scan_all.simps(2) scan_step.simps)
  then show ?thesis
    by (simp add: json_parse_def parse_value_def push_frame_def max_nesting_def)
qed

lemma Inr_ParseInt_Itoa: "ParseInt (Itoa (sint w)) = Inr (w :: int64)"
  by (simp add: ParseInt_Itoa sint64_range)

text \<open>
  C33: every request whose strings are ASCII survives the trip through its JSON payload, with
  quotes, backslashes, control characters and the characters of HTML escaped by the encoder:
  decoding the payload gives back the same user, type, amount text and timestamp.
\<close>

theorem Unmarshal_render:
  assumes "ascii (dto_Type dto)" "ascii (dto_Amount dto)" "ascii (dto_Timestamp dto)"
  shows "Unmarshal (render_dto dto) = Inr dto"
proof -
  have "find_field ''user_id'' = Some ''user_id''" "find_field ''amount'' = Some ''amount''"
    "find_field ''transaction_type'' = Some ''transaction_type''"
    "find_field ''timestamp'' = Some ''timestamp''"
    by (simp_all add: find_field_def field_names_def)
  then show ?thesis
    by (simp add: Unmarshal_def json_parse_render [OF assms] UnmarshalJSON_def decode_aux_def
        decode_field_def aux_init_def Inr_ParseInt_Itoa amount_string_def Let_def)
qed

definition sample_dto :: TransactionDTO where
  "sample_dto = \<lparr>dto_UserID = 11, dto_Type = ''bet'', dto_Amount = ''12.50'',
     dto_Timestamp = ''2026-03-27T10:00:00Z''\<rparr>"

definition odd_dto :: TransactionDTO where
  "odd_dto = sample_dto\<lparr>dto_Type := [byte 34, byte 92, byte 10, byte 1, CHR ''<'']\<rparr>"

theorem Unmarshal_render_witness:
  "Unmarshal (render_dto sample_dto) = Inr sample_dto \<and> Unmarshal (render_dto odd_dto) = Inr odd_dto"
proof
  show "Unmarshal (render_dto sample_dto) = Inr sample_dto" by (rule Unmarshal_render) code_simp+
  show "Unmarshal (render_dto odd_dto) = Inr odd_dto" by (rule Unmarshal_render) code_simp+
qed

end
