(* ===== verification/Float64.thy ===== *)
theory Float64
  imports Complex_Main
begin

text \<open>
  IEEE binary64 arithmetic on the values the metrics use: a float is the rational it denotes,
  and \<open>fl\<close> rounds a rational to 53 significant bits, ties to even. The model leaves out
  infinities, NaN, signed zero and subnormals, which counts of milliseconds and messages below
  \<open>2 ^ 63\<close> do not reach.
\<close>

function bitlen :: "int \<Rightarrow> int" where
  "bitlen n = (if n \<le> 0 then 0 else 1 + bitlen (n div 2))"
  by pat_completeness auto
termination
  by (relation "measure nat") auto

declare bitlen.simps [simp del]

definition pow2 :: "int \<Rightarrow> rat" where
  "pow2 e = (if 0 \<le> e then 2 ^ nat e else 1 / 2 ^ nat (- e))"

text \<open>The exponent of the leading bit of a positive rational.\<close>

definition lead_exp :: "rat \<Rightarrow> int" where
  "lead_exp x =
     (let (p, q) = quotient_of x; k = bitlen p - bitlen q in if pow2 k \<le> x then k else k - 1)"

definition round_even :: "rat \<Rightarrow> int" where
  "round_even x =
     (let f = \<lfloor>x\<rfloor>; r = x - of_int f in
      if r < 1 / 2 then f else if r > 1 / 2 then f + 1 else if even f then f else f + 1)"

definition fl :: "rat \<Rightarrow> rat" where
  "fl x =
     (if x = 0 then 0
      else let e = lead_exp \<bar>x\<bar> - 52 in of_int (round_even (x / pow2 e)) * pow2 e)"

lemma pow2_pos [simp]: "0 < pow2 e"
  by (simp add: pow2_def)

lemma pow2_nonzero [simp]: "pow2 e \<noteq> 0"
  using pow2_pos [of e] by linarith

lemma pow2_nat: "0 \<le> e \<Longrightarrow> pow2 e = of_int (2 ^ nat e)"
  by (simp add: pow2_def)

lemma bitlen_nonneg: "0 \<le> bitlen n"
proof (induction n rule: bitlen.induct)
  case (1 n)
  then show ?case by (cases "n \<le> 0") (subst bitlen.simps, simp)+
qed

lemma bitlen_bounds: "0 < n \<Longrightarrow> 2 ^ nat (bitlen n - 1) \<le> n \<and> n < 2 ^ nat (bitlen n)"
proof (induction n rule: bitlen.induct)
  case (1 n)
  show ?case
  proof (cases "n div 2 = 0")
    case True
    then have "n = 1" using "1.prems" by auto
    then show ?thesis by (simp add: bitlen.simps)
  next
    case False
    then have pos: "0 < n div 2" using "1.prems" by auto
    with 1 have IH: "2 ^ nat (bitlen (n div 2) - 1) \<le> n div 2" "n div 2 < 2 ^ nat (bitlen (n div 2))"
      by auto
    have b: "bitlen n = 1 + bitlen (n div 2)" using "1.prems" by (subst bitlen.simps) simp
    have b1: "1 \<le> bitlen (n div 2)"
      using pos bitlen_nonneg [of "n div 2 div 2"] by (subst bitlen.simps) simp
    have "nat (bitlen n - 1) = Suc (nat (bitlen (n div 2) - 1))"
      "nat (bitlen n) = Suc (nat (bitlen (n div 2)))"
      using b b1 by auto
    then have "(2::int) ^ nat (bitlen n - 1) = 2 * 2 ^ nat (bitlen (n div 2) - 1)"
      "(2::int) ^ nat (bitlen n) = 2 * 2 ^ nat (bitlen (n div 2))"
      by simp_all
    with IH show ?thesis by linarith
  qed
qed

lemma pow2_add: "pow2 (a + b) = pow2 a * pow2 b"
proof -
  have "pow2 e = 2 powi e" for e
    by (cases "0 \<le> e") (simp_all add: pow2_def power_int_def inverse_eq_divide power_one_over)
  then show ?thesis by (simp add: power_int_add)
qed

lemma pow2_mono: "a \<le> b \<Longrightarrow> pow2 a \<le> pow2 b"
proof -
  assume "a \<le> b"
  then have "pow2 b = pow2 a * pow2 (b - a)" using pow2_add [of a "b - a"] by simp
  moreover have "1 \<le> pow2 (b - a)" using \<open>a \<le> b\<close> by (simp add: pow2_def)
  ultimately show ?thesis using pow2_pos [of a] by simp
qed

lemma lead_exp_le: "0 < x \<Longrightarrow> pow2 (lead_exp x) \<le> x"
proof -
  assume x: "0 < x"
  obtain p q where pq: "quotient_of x = (p, q)" by (cases "quotient_of x")
  then have q: "0 < q" and xpq: "x = of_int p / of_int q"
    using quotient_of_denom_pos quotient_of_div by blast+
  then have p: "0 < p" using x by (simp add: zero_less_divide_iff)
  have "pow2 (bitlen p - bitlen q - 1) \<le> x"
  proof -
    have b: "1 \<le> bitlen p" using p bitlen_nonneg [of "p div 2"] by (subst bitlen.simps) simp
    have "pow2 (bitlen p - 1) \<le> of_int p"
      using bitlen_bounds [OF p] b by (simp add: pow2_nat del: of_int_power)
    moreover have "of_int q \<le> pow2 (bitlen q)"
      using bitlen_bounds [OF q] bitlen_nonneg [of q]
      by (simp add: pow2_nat del: of_int_power)
    moreover have "pow2 (bitlen p - 1) = pow2 (bitlen p - bitlen q - 1) * pow2 (bitlen q)"
      using pow2_add [of "bitlen p - bitlen q - 1" "bitlen q"] by simp
    moreover have "pow2 (bitlen p - bitlen q - 1) * of_int q
        \<le> pow2 (bitlen p - bitlen q - 1) * pow2 (bitlen q)" if "of_int q \<le> pow2 (bitlen q)"
      using that by (intro mult_left_mono) (simp_all add: less_imp_le)
    ultimately have "pow2 (bitlen p - bitlen q - 1) * of_int q \<le> of_int p"
      by linarith
    then show ?thesis using q by (simp add: xpq pos_le_divide_eq)
  qed
  then show ?thesis by (simp add: lead_exp_def pq Let_def)
qed

lemma lead_exp_bound: "\<lbrakk>0 < x; x < 2 ^ 53\<rbrakk> \<Longrightarrow> lead_exp x \<le> 52"
proof (rule ccontr)
  assume x: "0 < x" "x < 2 ^ 53" and "\<not> lead_exp x \<le> 52"
  then have "pow2 53 \<le> pow2 (lead_exp x)" by (intro pow2_mono) simp
  also have "\<dots> \<le> x" by (rule lead_exp_le [OF x(1)])
  finally show False using x by (simp add: pow2_def)
qed

lemma round_even_int [simp]: "round_even (of_int k) = k"
  by (simp add: round_even_def)

lemma round_even_le: "x \<le> of_int k \<Longrightarrow> round_even x \<le> k"
proof -
  assume le: "x \<le> of_int k"
  show ?thesis
  proof (cases "x = of_int k")
    case False
    with le have "\<lfloor>x\<rfloor> < k" by (simp add: floor_less_iff)
    then show ?thesis by (auto simp: round_even_def Let_def)
  qed simp
qed

lemma round_even_ge: "of_int k \<le> x \<Longrightarrow> k \<le> round_even x"
proof -
  assume "of_int k \<le> x"
  then have "k \<le> \<lfloor>x\<rfloor>" by (simp add: le_floor_iff)
  then show ?thesis by (auto simp: round_even_def Let_def)
qed

lemma pow2_scale:
  assumes "e \<le> 0"
  shows "\<exists>j. of_int m / pow2 e = of_int (m * j) \<and> of_int j = 1 / pow2 e"
  using assms by (intro exI [of _ "2 ^ nat (- e)"]) (auto simp: pow2_def)

text \<open>Integers of at most 53 bits are exact.\<close>

lemma fl_int: "\<bar>m\<bar> < 2 ^ 53 \<Longrightarrow> fl (of_int m) = of_int m"
proof (cases "m = 0")
  case False
  assume m: "\<bar>m\<bar> < 2 ^ 53"
  define e where "e = lead_exp \<bar>of_int m\<bar> - 52"
  have "\<bar>of_int m :: rat\<bar> < 2 ^ 53"
    using m by (metis of_int_abs of_int_less_iff of_int_numeral of_int_power)
  then have "e \<le> 0" using False lead_exp_bound [of "\<bar>of_int m\<bar>"] by (simp add: e_def)
  from pow2_scale [OF this, of m] obtain j where "of_int m / pow2 e = of_int (m * j)" by blast
  then have "round_even (of_int m / pow2 e) = m * j" "of_int (m * j) * pow2 e = of_int m"
    by (simp_all add: field_simps del: of_int_mult)
  with False show ?thesis by (simp add: fl_def e_def [symmetric] Let_def del: of_int_mult)
qed (simp add: fl_def)

text \<open>Rounding does not leave an interval whose ends are such integers.\<close>

lemma fl_between:
  assumes "0 \<le> x" "x \<le> of_int m" "m < 2 ^ 53"
  shows "0 \<le> fl x \<and> fl x \<le> of_int m"
proof (cases "x = 0")
  case True
  then show ?thesis using assms by (simp add: fl_def)
next
  case False
  define e where "e = lead_exp \<bar>x\<bar> - 52"
  have "(of_int m :: rat) < 2 ^ 53"
    using assms(3) by (metis of_int_less_iff of_int_numeral of_int_power)
  then have "e \<le> 0" using False assms lead_exp_bound [of x] by (simp add: e_def)
  from pow2_scale [OF this, of m] obtain j where j: "of_int m / pow2 e = of_int (m * j)" by blast
  have "x / pow2 e \<le> of_int m / pow2 e" using assms by (intro divide_right_mono) (auto simp: less_imp_le)
  with j have "round_even (x / pow2 e) \<le> m * j" by (intro round_even_le) simp
  moreover have "0 \<le> x / pow2 e" using assms by (simp add: less_imp_le)
  then have "0 \<le> round_even (x / pow2 e)" by (intro round_even_ge) simp
  ultimately have "0 \<le> of_int (round_even (x / pow2 e)) * pow2 e"
    "of_int (round_even (x / pow2 e)) * pow2 e \<le> of_int (m * j) * pow2 e"
    by (auto simp: less_imp_le intro!: mult_right_mono simp del: of_int_mult)
  moreover have "of_int (m * j) * pow2 e = of_int m" using j by (simp add: field_simps)
  ultimately show ?thesis
    using False by (simp add: fl_def e_def [symmetric] Let_def del: of_int_mult)
qed

end
