(* ===== verification/Metrics.thy ===== *)
theory Metrics
  imports Float64 Go_Time "HOL-Library.Mapping" "HOL-Library.List_Lexorder" "HOL-Library.Char_ord"
begin

text \<open>
  \<open>internal/observability/metrics\<close>: metric keys (\<open>sink.go\<close>) and the in-memory sink
  (\<open>log_sink.go\<close>). The \<open>Sink\<close> interface is the locale \<open>metric_sink\<close>; \<open>LogSink\<close>
  interprets it. A label map is the list of its pairs with distinct names, in any order.
\<close>

type_synonym labels = "(string \<times> string) list"

subsection \<open>Keys\<close>

definition label_pair :: "labels \<Rightarrow> string \<Rightarrow> string" where
  "label_pair ls k = k @ ''='' @ (case map_of ls k of Some v \<Rightarrow> v | None \<Rightarrow> [])"

definition Key :: "string \<Rightarrow> labels \<Rightarrow> string" where
  "Key name ls =
     (if ls = [] then name
      else name @ ''{'' @ Join (map (label_pair ls) (sort (map fst ls))) '','' @ ''}'')"

text \<open>
  A metric key does not depend on the order in which Go iterates over the label map.
\<close>

theorem Key_order_independent:
  assumes "distinct (map fst ls)" "distinct (map fst ls')" "map_of ls = map_of ls'"
  shows "Key name ls = Key name ls'"
proof -
  have "set (map fst ls) = set (map fst ls')"
    using assms(3) by (metis dom_map_of_conv_image_fst image_set)
  then have "sort (map fst ls) = sort (map fst ls')"
    using assms(1,2) by (metis distinct_sort set_sort sorted_distinct_set_unique sorted_sort)
  moreover have "label_pair ls = label_pair ls'"
    by (simp add: label_pair_def fun_eq_iff assms(3))
  moreover have "ls = [] \<longleftrightarrow> ls' = []"
    using assms(3) by (metis map_of_eq_empty_iff)
  ultimately show ?thesis by (simp add: Key_def)
qed

theorem Key_order_independent_witness:
  "Key ''m'' [(''b'', ''2''), (''a'', ''1'')] = Key ''m'' [(''a'', ''1''), (''b'', ''2'')]"
  by (rule Key_order_independent) auto

text \<open>Label names and values that are free of the separators of a key.\<close>

definition clean :: "string \<Rightarrow> bool" where
  "clean s \<longleftrightarrow> CHR ''{'' \<notin> set s \<and> CHR ''}'' \<notin> set s \<and> CHR '','' \<notin> set s \<and> CHR ''='' \<notin> set s"

definition clean_labels :: "labels \<Rightarrow> bool" where
  "clean_labels ls \<longleftrightarrow> distinct (map fst ls) \<and> list_all (\<lambda>(k, v). clean k \<and> clean v) ls"

lemma append_sep_eq:
  assumes "c \<notin> set a" "c \<notin> set a'" "a @ c # b = a' @ c # b'"
  shows "a = a' \<and> b = b'"
  using assms
proof (induction a arbitrary: a')
  case Nil
  then show ?case by (cases a') auto
next
  case (Cons x a)
  then show ?case by (cases a') auto
qed

lemma Join_inj:
  "\<lbrakk>\<forall>x\<in>set xs. c \<notin> set x; \<forall>x\<in>set ys. c \<notin> set x; xs \<noteq> []; ys \<noteq> []; Join xs [c] = Join ys [c]\<rbrakk>
   \<Longrightarrow> xs = ys"
proof -
  have Split_Join: "Split c (Join zs [c]) = zs" if "\<forall>x\<in>set zs. c \<notin> set x" "zs \<noteq> []" for zs
    using that
  proof (induction zs)
    case (Cons z zs)
    then show ?case
      by (cases zs) (auto simp: Split_none Split_append_sep)
  qed simp
  assume "\<forall>x\<in>set xs. c \<notin> set x" "\<forall>x\<in>set ys. c \<notin> set x" "xs \<noteq> []" "ys \<noteq> []"
    "Join xs [c] = Join ys [c]"
  then show ?thesis by (metis Split_Join)
qed

lemma label_pair_clean:
  assumes "clean_labels ls" "k \<in> set (map fst ls)"
  shows "clean k" "\<exists>v. map_of ls k = Some v \<and> clean v \<and> label_pair ls k = k @ ''='' @ v"
proof -
  obtain v where v: "(k, v) \<in> set ls" using assms(2) by auto
  then have "map_of ls k = Some v" using assms(1) by (simp add: clean_labels_def)
  moreover from v assms(1) have "clean k" "clean v" by (auto simp: clean_labels_def list_all_iff)
  ultimately show "clean k" "\<exists>v. map_of ls k = Some v \<and> clean v \<and> label_pair ls k = k @ ''='' @ v"
    by (auto simp: label_pair_def)
qed

lemma label_pairs_eq:
  assumes c: "clean_labels ls" "clean_labels ls'"
    and eq: "map (label_pair ls) ks = map (label_pair ls') ks'"
    and sub: "set ks \<subseteq> set (map fst ls)" "set ks' \<subseteq> set (map fst ls')"
  shows "ks = ks' \<and> (\<forall>k\<in>set ks. map_of ls k = map_of ls' k)"
  using eq sub
proof (induction ks arbitrary: ks')
  case (Cons k ks)
  then obtain k' ks'' where ks': "ks' = k' # ks''" by (cases ks') auto
  obtain v where v: "map_of ls k = Some v" "label_pair ls k = k @ ''='' @ v"
    using label_pair_clean [OF c(1), of k] Cons.prems by auto
  obtain v' where v': "map_of ls' k' = Some v'" "label_pair ls' k' = k' @ ''='' @ v'"
    using label_pair_clean [OF c(2), of k'] Cons.prems ks' by auto
  have "clean k" "clean k'"
    using label_pair_clean(1) [OF c(1)] label_pair_clean(1) [OF c(2)] Cons.prems ks' by auto
  moreover have "k @ CHR ''='' # v = k' @ CHR ''='' # v'"
    using Cons.prems(1) ks' v v' by simp
  ultimately have "k = k' \<and> v = v'" by (intro append_sep_eq) (auto simp: clean_def)
  with Cons v v' ks' show ?case by auto
qed simp

text \<open>
  C37: over clean names and labels a key determines its metric: equal keys have the same name and
  the same label map, so two series are never merged.
\<close>

theorem Key_injective:
  assumes n: "clean name" "clean name'" and c: "clean_labels ls" "clean_labels ls'"
    and eq: "Key name ls = Key name' ls'"
  shows "name = name' \<and> map_of ls = map_of ls'"
proof (cases "ls = [] \<or> ls' = []")
  case True
  have no: "\<not> clean (a @ ''{'' @ b)" for a b by (simp add: clean_def)
  from True eq n no show ?thesis by (auto simp: Key_def split: if_splits)
next
  case False
  define ks where "ks = sort (map fst ls)"
  define ks' where "ks' = sort (map fst ls')"
  have e: "name @ CHR ''{'' # Join (map (label_pair ls) ks) '','' @ ''}'' =
      name' @ CHR ''{'' # Join (map (label_pair ls') ks') '','' @ ''}''"
    using eq False by (simp add: Key_def ks_def ks'_def)
  from append_sep_eq [OF _ _ e] n
  have nm: "name = name'" and j: "Join (map (label_pair ls) ks) '','' = Join (map (label_pair ls') ks') '',''"
    by (auto simp: clean_def)
  have nocomma: "\<forall>x\<in>set (map (label_pair l) (sort (map fst l))). CHR '','' \<notin> set x"
    if "clean_labels l" for l
  proof (intro ballI)
    fix x assume "x \<in> set (map (label_pair l) (sort (map fst l)))"
    then obtain k where "k \<in> set (map fst l)" "x = label_pair l k" by auto
    then show "CHR '','' \<notin> set x"
      using label_pair_clean [OF that, of k] by (auto simp: clean_def)
  qed
  have ne: "ks \<noteq> []" "ks' \<noteq> []"
    using False by (simp_all add: ks_def ks'_def set_empty [symmetric] del: set_empty)
  have "map (label_pair ls) ks = map (label_pair ls') ks'"
    using j ne nocomma [OF c(1)] nocomma [OF c(2)]
    by (intro Join_inj [of _ "CHR '',''"]) (auto simp: ks_def ks'_def)
  moreover have "set ks \<subseteq> set (map fst ls)" "set ks' \<subseteq> set (map fst ls')"
    by (simp_all add: ks_def ks'_def)
  ultimately have k: "ks = ks'" "\<forall>k\<in>set ks. map_of ls k = map_of ls' k"
    using label_pairs_eq [OF c] by blast+
  have "map_of ls k = map_of ls' k" for k
  proof (cases "k \<in> set ks")
    case False
    moreover have "set ks = set (map fst ls)" "set ks' = set (map fst ls')"
      by (simp_all add: ks_def ks'_def)
    ultimately have "k \<notin> set (map fst ls)" "k \<notin> set (map fst ls')"
      using k(1) by blast+
    then show ?thesis by (simp add: map_of_eq_None_iff [THEN iffD2])
  next
    case True
    with k(2) show ?thesis by blast
  qed
  with nm show ?thesis by auto
qed

theorem Key_injective_witness:
  "\<exists>name. name = ''m'' \<and> map_of [(''b'', ''2''), (''a'', ''1'')] = map_of [(''a'', ''1''), (''b'', ''2'')]"
proof -
  have "clean ''m''" "clean_labels [(''b'', ''2''), (''a'', ''1'')]"
    "clean_labels [(''a'', ''1''), (''b'', ''2'')]"
    "Key ''m'' [(''b'', ''2''), (''a'', ''1'')] = Key ''m'' [(''a'', ''1''), (''b'', ''2'')]"
    by code_simp+
  from Key_injective [OF this(1,1,2,3,4)] show ?thesis by blast
qed

subsection \<open>The Sink interface\<close>

text \<open>The calls of the interface, as the components issue them.\<close>

datatype metric_call =
    IncCounter string labels int64
  | SetGauge string labels rat
  | ObserveDuration string labels int

text \<open>What a call adds to a counter.\<close>

fun counter_delta :: "string \<Rightarrow> metric_call \<Rightarrow> int64" where
  "counter_delta k (IncCounter n ls v) = (if Key n ls = k then v else 0)"
| "counter_delta k _ = 0"

text \<open>
  A sink keeps, between two flushes, one sum per counter key. \<open>counter s k\<close> reads a counter
  (0 when the key was never used), \<open>flush\<close> resets it.
\<close>

locale metric_sink =
  fixes call :: "metric_call \<Rightarrow> 's \<Rightarrow> 's"
    and flush :: "'s \<Rightarrow> 's"
    and counter :: "'s \<Rightarrow> string \<Rightarrow> int64"
  assumes counter_call: "counter (call c s) k = counter s k + counter_delta k c"
    and counter_flush: "counter (flush s) k = 0"
begin

lemma counter_fold: "counter (fold call cs s) k = counter s k + sum_list (map (counter_delta k) cs)"
  by (induction cs arbitrary: s) (simp_all add: counter_call add.assoc)

lemma counter_since_flush: "counter (fold call cs (flush s)) k = sum_list (map (counter_delta k) cs)"
  by (simp add: counter_fold counter_flush)

end

subsection \<open>LogSink\<close>

record log_sink =
  counters :: "(string, int64) mapping"
  gauges :: "(string, rat) mapping"
  timers :: "(string, rat list) mapping"

definition NewLogSink :: log_sink where
  "NewLogSink = \<lparr>counters = Mapping.empty, gauges = Mapping.empty, timers = Mapping.empty\<rparr>"

text \<open>Reading a missing key of a Go map gives the zero value.\<close>

definition sink_counter :: "log_sink \<Rightarrow> string \<Rightarrow> int64" where
  "sink_counter s k = (case Mapping.lookup (counters s) k of Some v \<Rightarrow> v | None \<Rightarrow> 0)"

definition sink_timer :: "log_sink \<Rightarrow> string \<Rightarrow> rat list" where
  "sink_timer s k = (case Mapping.lookup (timers s) k of Some v \<Rightarrow> v | None \<Rightarrow> [])"

fun sink_call :: "metric_call \<Rightarrow> log_sink \<Rightarrow> log_sink" where
  "sink_call (IncCounter name ls v) s =
     (let key = Key name ls in
      s\<lparr>counters := Mapping.update key (sink_counter s key + v) (counters s)\<rparr>)"
| "sink_call (SetGauge name ls v) s =
     s\<lparr>gauges := Mapping.update (Key name ls) v (gauges s)\<rparr>"
| "sink_call (ObserveDuration name ls d) s =
     (let key = Key name ls in
      s\<lparr>timers := Mapping.update key (sink_timer s key @ [fl (of_int (Milliseconds d))]) (timers s)\<rparr>)"

text \<open>
  \<open>quantile\<close> interpolates between the two nearest ranks; \<open>None\<close> would be the panic of an
  index out of range.
\<close>

definition index :: "rat list \<Rightarrow> int \<Rightarrow> rat option" where
  "index xs i = (if 0 \<le> i \<and> i < int (length xs) then Some (xs ! nat i) else None)"

definition quantile :: "rat list \<Rightarrow> rat \<Rightarrow> rat option" where
  "quantile xs q =
     (if xs = [] then Some 0
      else if q \<le> 0 then index xs 0
      else if q \<ge> 1 then index xs (int (length xs) - 1)
      else
        let pos = fl (q * fl (of_int (int (length xs) - 1)));
            left = \<lfloor>pos\<rfloor>; right = \<lceil>pos\<rceil> in
        if left = right then index xs left
        else
          let weight = fl (pos - fl (of_int left)) in
          (case (index xs left, index xs right) of
             (Some a, Some b) \<Rightarrow> Some (fl (fl (a * fl (1 - weight)) + fl (b * weight)))
           | _ \<Rightarrow> None))"

record duration_stats =
  st_count :: rat
  st_avg :: rat
  st_p50 :: rat
  st_p95 :: rat
  st_max :: rat

fun fl_sum :: "rat \<Rightarrow> rat list \<Rightarrow> rat" where
  "fl_sum acc [] = acc"
| "fl_sum acc (v # vs) = fl_sum (fl (acc + v)) vs"

definition durationStats :: "rat list \<Rightarrow> duration_stats option" where
  "durationStats values =
     (let vs = sort values; count = fl (of_int (int (length vs))); total = fl_sum 0 vs in
      case (quantile vs (fl (50 / 100)), quantile vs (fl (95 / 100)), index vs (int (length vs) - 1)) of
        (Some p50, Some p95, Some mx) \<Rightarrow>
          Some \<lparr>st_count = count, st_avg = fl (total / count), st_p50 = p50, st_p95 = p95, st_max = mx\<rparr>
      | _ \<Rightarrow> None)"

text \<open>The record \<open>Flush\<close> logs: the counters, the gauges and the statistics of each timer.\<close>

record flush_log =
  log_counters :: "(string, int64) mapping"
  log_gauges :: "(string, rat) mapping"
  log_timers :: "(string, duration_stats option) mapping"

text \<open>The copies of the counters and gauges: entry by entry, so equal to the originals.\<close>

definition cloneCounters :: "(string, int64) mapping \<Rightarrow> (string, int64) mapping" where
  "cloneCounters src = Mapping.map_values (\<lambda>k v. v) src"

definition cloneGauges :: "(string, rat) mapping \<Rightarrow> (string, rat) mapping" where
  "cloneGauges src = Mapping.map_values (\<lambda>k v. v) src"

lemma clone_id [simp]: "cloneCounters m = m" "cloneGauges g = g"
  by (auto simp: cloneCounters_def cloneGauges_def lookup_map_values option.map_ident intro!: mapping_eqI)

definition flush_timers :: "log_sink \<Rightarrow> (string, duration_stats option) mapping" where
  "flush_timers s =
     Mapping.map_values (\<lambda>k vs. durationStats vs) (Mapping.filter (\<lambda>k vs. vs \<noteq> []) (timers s))"

definition Flush :: "log_sink \<Rightarrow> log_sink \<times> flush_log option" where
  "Flush s =
     (if Mapping.is_empty (counters s) \<and> Mapping.is_empty (gauges s) \<and> Mapping.is_empty (timers s)
      then (s, None)
      else
        (NewLogSink,
         Some \<lparr>log_counters = cloneCounters (counters s), log_gauges = cloneGauges (gauges s),
           log_timers = flush_timers s\<rparr>))"

lemma is_empty_iff: "Mapping.is_empty m \<longleftrightarrow> m = Mapping.empty"
  unfolding Mapping.is_empty_def by transfer auto

lemma Flush_resets: "fst (Flush s) = NewLogSink"
  by (auto simp: Flush_def NewLogSink_def is_empty_iff)

lemma sink_counter_call: "sink_counter (sink_call c s) k = sink_counter s k + counter_delta k c"
  by (cases c) (auto simp: sink_counter_def Let_def lookup_update' split: option.splits)

lemma sink_counter_new [simp]: "sink_counter NewLogSink k = 0"
  by (simp add: sink_counter_def NewLogSink_def)

interpretation ls: metric_sink sink_call "\<lambda>s. fst (Flush s)" sink_counter
  by unfold_locales (simp_all add: sink_counter_call Flush_resets)

text \<open>
  After any sequence of metric calls since the last flush, a counter holds the
  (64-bit wrapped) sum of the increments issued under its key, whatever else was recorded.
\<close>

theorem sink_counter_sum:
  "sink_counter (fold sink_call cs (fst (Flush s))) k = sum_list (map (counter_delta k) cs)"
  by (rule ls.counter_since_flush)

subsection \<open>No index out of range\<close>

lemma index_Some: "\<lbrakk>0 \<le> i; i < int (length xs)\<rbrakk> \<Longrightarrow> \<exists>v. index xs i = Some v"
  by (simp add: index_def)

lemma quantile_in_bounds:
  assumes "int (length xs) \<le> 2 ^ 53"
  shows "\<exists>v. quantile xs q = Some v"
proof (cases "xs = [] \<or> q \<le> 0 \<or> q \<ge> 1")
  case True
  then show ?thesis by (auto simp: quantile_def index_def)
next
  case False
  define m where "m = int (length xs) - 1"
  have m: "0 \<le> m" "m < 2 ^ 53" using False assms by (auto simp: m_def Suc_leI)
  have flm: "fl (of_int m) = of_int m" using m by (intro fl_int) simp
  define pos where "pos = fl (q * fl (of_int m))"
  have "0 \<le> q * of_int m" "q * of_int m \<le> of_int m"
    using False m by (auto intro: mult_left_le_one_le)
  from fl_between [OF this m(2)] have p: "0 \<le> pos" "pos \<le> of_int m"
    by (simp_all add: pos_def flm)
  have "0 \<le> \<lfloor>pos\<rfloor>" "\<lfloor>pos\<rfloor> \<le> \<lceil>pos\<rceil>" "\<lceil>pos\<rceil> \<le> m"
    using p by (auto simp: ceiling_le_iff floor_le_ceiling)
  then have "0 \<le> \<lfloor>pos\<rfloor> \<and> \<lfloor>pos\<rfloor> < int (length xs)" "0 \<le> \<lceil>pos\<rceil> \<and> \<lceil>pos\<rceil> < int (length xs)"
    unfolding m_def by linarith+
  then obtain a b where "index xs \<lfloor>pos\<rfloor> = Some a" "index xs \<lceil>pos\<rceil> = Some b"
    using index_Some by metis
  with False show ?thesis
    by (simp add: quantile_def Let_def pos_def m_def)
qed

lemma durationStats_total:
  assumes "vs \<noteq> []" "int (length vs) \<le> 2 ^ 53"
  shows "durationStats vs \<noteq> None"
proof -
  have len: "int (length (sort vs)) \<le> 2 ^ 53" using assms by simp
  obtain a b where "quantile (sort vs) (fl (50 / 100)) = Some a" "quantile (sort vs) (fl (95 / 100)) = Some b"
    using quantile_in_bounds [OF len] by blast
  moreover obtain c where "index (sort vs) (int (length (sort vs)) - 1) = Some c"
    using index_Some [of "int (length (sort vs)) - 1" "sort vs"] assms(1) by (auto simp: Suc_leI)
  ultimately show ?thesis by (simp add: durationStats_def Let_def)
qed

lemma lookup_flush_timers:
  "Mapping.lookup (flush_timers s) k =
     (case Mapping.lookup (timers s) k of
        Some vs \<Rightarrow> if vs = [] then None else Some (durationStats vs)
      | None \<Rightarrow> None)"
  by (auto simp: flush_timers_def lookup_map_values Mapping.lookup_filter split: option.splits)

lemma durationStats_single:
  obtains st where "durationStats [x] = Some st" "st_count st = 1" "st_max st = x"
proof -
  have f: "fl 1 = 1" using fl_int [of 1] by simp
  have q: "quantile [x] p = Some x" for p by (simp add: quantile_def index_def fl_def)
  show thesis by (rule that [of "\<lparr>st_count = 1, st_avg = fl (fl (0 + x) / 1), st_p50 = x, st_p95 = x, st_max = x\<rparr>"])
    (simp_all add: durationStats_def Let_def q f index_def)
qed

text \<open>The statistics of a window: its size, its largest sample, and for an odd size its median.\<close>

lemma quantile_median:
  assumes "odd (length xs)" "int (length xs) \<le> 2 ^ 53"
  shows "quantile xs (fl (50 / 100)) = Some (xs ! (length xs div 2))"
proof -
  from assms(1) obtain m where m: "length xs = 2 * m + 1" by (rule oddE)
  have half: "fl (50 / 100) = 1 / 2" by code_simp
  have len: "int (length xs) - 1 = 2 * int m" by (simp add: m)
  have "fl (of_int (2 * int m)) = of_int (2 * int m)" by (rule fl_int) (use assms(2) m in simp)
  moreover have "fl (of_int (int m)) = of_int (int m)" by (rule fl_int) (use assms(2) m in simp)
  ultimately have pos: "fl (1 / 2 * fl (of_int (int (length xs) - 1))) = of_int (int m)" unfolding len by simp
  have "quantile xs (1 / 2) = index xs (int m)"
    unfolding quantile_def pos Let_def using m by auto
  then show ?thesis using m by (simp only: half) (simp add: index_def)
qed

lemma last_sort: "vs \<noteq> [] \<Longrightarrow> last (sort vs) = Max (set vs)"
proof -
  assume "vs \<noteq> []"
  then have ne: "sort vs \<noteq> []" by (metis set_empty set_sort)
  then obtain xs x where x: "sort vs = xs @ [x]" by (metis append_butlast_last_id)
  have "sorted (xs @ [x])" by (metis sorted_sort x)
  then have "Max (set (xs @ [x])) = x" by (intro Max_eqI) (auto simp: sorted_append)
  moreover have "set (xs @ [x]) = set vs" unfolding x [symmetric] by (rule set_sort)
  ultimately have "Max (set vs) = x" by simp
  moreover have "last (sort vs) = x" unfolding x by simp
  ultimately show ?thesis by simp
qed

lemma durationStats_window:
  assumes "vs \<noteq> []" "int (length vs) < 2 ^ 53"
  shows "\<exists>st. durationStats vs = Some st \<and> st_count st = of_int (int (length vs)) \<and> st_max st = Max (set vs)
    \<and> (odd (length vs) \<longrightarrow> st_p50 st = sort vs ! (length vs div 2))"
proof -
  have ne: "sort vs \<noteq> []" using assms(1) by (metis set_empty set_sort)
  have "index (sort vs) (int (length (sort vs)) - 1) = Some (last (sort vs))"
    using assms(1) ne by (auto simp: index_def last_conv_nth nat_diff_distrib' Suc_leI)
  with last_sort [OF assms(1)] have mx: "index (sort vs) (int (length (sort vs)) - 1) = Some (Max (set vs))" by simp
  from durationStats_total [OF assms(1)] assms(2) obtain st where st: "durationStats vs = Some st" by fastforce
  with mx have "st_max st = Max (set vs)" "st_count st = fl (of_int (int (length vs)))"
    "quantile (sort vs) (fl (50 / 100)) = Some (st_p50 st)"
    by (auto simp: durationStats_def Let_def split: option.splits)
  with st quantile_median [of "sort vs"] assms(2) fl_int [of "int (length vs)"] show ?thesis by auto
qed


definition sample_sink :: log_sink where
  "sample_sink = sink_call (ObserveDuration ''d'' [] 7000000) NewLogSink"


end
