(* ===== verification/Consumer.thy ===== *)
theory Consumer
  imports Boundary Config Dto Metrics "HOL-Library.Monad_Syntax"
begin

text \<open>
  \<open>internal/transport/kafka/consumer.go\<close>: one message and one batch. The outside of a consumer
  (application context, service, broker, clock, random numbers) is the record \<open>outside\<close> of
  operations over a state \<open>'w\<close>. The consumer's own state is \<open>cstate\<close>: the outside, the in-flight
  counter, the calls made on the metrics sink and the error that \<open>triggerFatal\<close> recorded.

  A function that loops until an outside call succeeds has fuel, and returns an option: \<open>None\<close>
  is a call that does not return, because the fuel ran out or because \<open>rand.Int63n\<close> panicked.
  Theory Liveness shows how much fuel is enough. Log output is not modelled.
\<close>

subsection \<open>Constants\<close>

text \<open>\<open>internal/transport/kafka/constants.go\<close>.\<close>

abbreviation DefaultMaxProcessRetries :: int where "DefaultMaxProcessRetries \<equiv> 3"
abbreviation DefaultMetricsFlushSec :: int where "DefaultMetricsFlushSec \<equiv> 15"
abbreviation DefaultDLQTopicSuffix :: string where "DefaultDLQTopicSuffix \<equiv> ''.dlq''"
abbreviation DefaultShutdownDrainTimeoutSec :: int where "DefaultShutdownDrainTimeoutSec \<equiv> 60"
abbreviation DefaultBatchSize :: int where "DefaultBatchSize \<equiv> 100"
abbreviation DefaultBatchFlushIntervalSec :: int where "DefaultBatchFlushIntervalSec \<equiv> 5"

abbreviation MetricMessagesTotal :: string where "MetricMessagesTotal \<equiv> ''kafka_consumer_messages_total''"
abbreviation MetricProcessingDurationMs :: string where "MetricProcessingDurationMs \<equiv> ''kafka_consumer_processing_duration_ms''"
abbreviation MetricLag :: string where "MetricLag \<equiv> ''kafka_consumer_lag''"
abbreviation MetricRetriesTotal :: string where "MetricRetriesTotal \<equiv> ''kafka_consumer_retries_total''"
abbreviation MetricDLQTotal :: string where "MetricDLQTotal \<equiv> ''kafka_consumer_dlq_total''"
abbreviation MetricCommitTotal :: string where "MetricCommitTotal \<equiv> ''kafka_consumer_commit_total''"
abbreviation MetricInflightMessages :: string where "MetricInflightMessages \<equiv> ''consumer_inflight_messages''"
abbreviation MetricLastSuccessUnix :: string where "MetricLastSuccessUnix \<equiv> ''consumer_last_success_unix''"

subsection \<open>Messages and the outside\<close>

record kmsg =
  k_topic :: string
  k_partition :: int
  k_offset :: int
  k_key :: string
  k_value :: string
  k_headers :: "(string \<times> string) list"
  k_time :: gotime

text \<open>
  The dead letter: the key of the Kafka message that is written, and the fields of the JSON
  object that is its value (\<open>json.Marshal\<close> cannot fail on them), with the error and the times as
  values instead of their texts. \<open>d_value\<close> is the text of the field \<open>value\<close>.
\<close>

record dlq_record =
  d_message_key :: string
  d_topic :: string
  d_partition :: int
  d_offset :: int
  d_key :: string
  d_value :: string
  d_value_sha256 :: string
  d_value_size :: int
  d_error :: goerr
  d_failed_at :: gotime
  d_headers :: "(string \<times> string) list"
  d_source_time :: "gotime option"

record 'w outside =
  CtxErr :: "'w \<Rightarrow> goerr option"
  Cancel :: "'w \<Rightarrow> 'w"
  Register :: "int64 \<Rightarrow> transaction \<Rightarrow> 'w \<Rightarrow> 'w \<times> goerr option"
  Registers :: "int64 \<Rightarrow> transaction list \<Rightarrow> 'w \<Rightarrow> 'w \<times> goerr option"
  CommitMessages :: "kmsg list \<Rightarrow> 'w \<Rightarrow> 'w \<times> goerr option"
  WriteMessages :: "(dlq_record \<Rightarrow> 'w \<Rightarrow> 'w \<times> goerr option) option"
  Now :: "'w \<Rightarrow> 'w \<times> gotime"
  Int63n :: "int64 \<Rightarrow> 'w \<Rightarrow> 'w \<times> int64"
  Sleep :: "int64 \<Rightarrow> 'w \<Rightarrow> 'w"
  Sha256Hex :: "string \<Rightarrow> string"
  FloatRange :: int64

text \<open>
  \<open>Register\<close> runs under a context derived from the application's with a timeout of so many
  nanoseconds; \<open>WriteMessages\<close> is \<open>None\<close> when the writer is nil; \<open>Sleep\<close> waits for the delay or
  the cancellation; \<open>FloatRange\<close> is what the platform gives for a float that no \<open>int64\<close> can hold.
\<close>

record 'w Consumer =
  c_out :: "'w outside"
  c_cfg :: Kafka

record 'w cstate =
  wld :: 'w
  inflight :: int64
  mcalls :: "metric_call list"
  fatal :: "goerr option"

definition emit :: "metric_call \<Rightarrow> 'w cstate \<Rightarrow> 'w cstate" where
  [consumer_defs]: "emit m s = s\<lparr>mcalls := mcalls s @ [m]\<rparr>"

text \<open>\<open>atomic.AddInt64\<close> on the counter, and the gauge that shows it.\<close>

definition add_inflight :: "int64 \<Rightarrow> 'w cstate \<Rightarrow> 'w cstate" where
  [consumer_defs]: "add_inflight n s = s\<lparr>inflight := inflight s + n\<rparr>"

definition float64_int :: "int64 \<Rightarrow> rat" where
  "float64_int n = fl (of_int (sint n))"

definition show_inflight :: "'w cstate \<Rightarrow> 'w cstate" where
  [consumer_defs]: "show_inflight s =
     emit (SetGauge MetricInflightMessages [] (float64_int (inflight s))) s"

definition cancelled :: "'w Consumer \<Rightarrow> 'w cstate \<Rightarrow> bool" where
  [consumer_defs]: "cancelled c s \<longleftrightarrow> CtxErr (c_out c) (wld s) \<noteq> None"

definition c_now :: "'w Consumer \<Rightarrow> 'w cstate \<Rightarrow> 'w cstate \<times> gotime" where
  [consumer_defs]: "c_now c s = (let (w, t) = Now (c_out c) (wld s) in (s\<lparr>wld := w\<rparr>, t))"

text \<open>\<open>sync.Once\<close>: only the first fatal error is kept and cancels.\<close>

definition triggerFatal :: "'w Consumer \<Rightarrow> goerr \<Rightarrow> 'w cstate \<Rightarrow> 'w cstate" where
  [consumer_defs]: "triggerFatal c err s =
     (if fatal s \<noteq> None then s else s\<lparr>fatal := Some err, wld := Cancel (c_out c) (wld s)\<rparr>)"

subsection \<open>Configuration\<close>

definition normalizeKafkaConfig :: "Kafka \<Rightarrow> Kafka" where
  "normalizeKafkaConfig cfg =
     (let cfg = (if ProcessTimeoutMs cfg \<le> 0 then cfg\<lparr>ProcessTimeoutMs := 5000\<rparr> else cfg);
          cfg = (if RetryBaseDelayMs cfg \<le> 0 then cfg\<lparr>RetryBaseDelayMs := 100\<rparr> else cfg);
          cfg = (if RetryJitterMs cfg \<le> 0 then cfg\<lparr>RetryJitterMs := 300\<rparr> else cfg);
          cfg = (if MaxProcessRetries cfg < 0 then cfg\<lparr>MaxProcessRetries := DefaultMaxProcessRetries\<rparr> else cfg);
          cfg = (if DLQTopic cfg = [] \<and> Topic cfg \<noteq> []
                 then cfg\<lparr>DLQTopic := Topic cfg @ DefaultDLQTopicSuffix\<rparr> else cfg);
          cfg = (if MetricsFlushSec cfg \<le> 0 then cfg\<lparr>MetricsFlushSec := DefaultMetricsFlushSec\<rparr> else cfg);
          cfg = (if ShutdownDrainTimeoutSec cfg \<le> 0 then cfg\<lparr>ShutdownDrainTimeoutSec := DefaultShutdownDrainTimeoutSec\<rparr> else cfg);
          cfg = (if BatchSize cfg \<le> 0 then cfg\<lparr>BatchSize := DefaultBatchSize\<rparr> else cfg);
          cfg = (if BatchFlushIntervalSec cfg \<le> 0 then cfg\<lparr>BatchFlushIntervalSec := DefaultBatchFlushIntervalSec\<rparr> else cfg)
      in cfg)"

definition NewConsumerWithMetrics :: "'w outside \<Rightarrow> Kafka \<Rightarrow> 'w Consumer" where
  "NewConsumerWithMetrics out cfg = \<lparr>c_out = out, c_cfg = normalizeKafkaConfig cfg\<rparr>"

text \<open>Without a sink a new one is made: the calls on either are the ones of the state.\<close>

definition NewConsumer :: "'w outside \<Rightarrow> Kafka \<Rightarrow> 'w Consumer" where
  "NewConsumer out cfg = NewConsumerWithMetrics out cfg"

text \<open>A duration of so many milliseconds, in 64 bits.\<close>

definition millis :: "int \<Rightarrow> int64" where
  "millis n = word_of_int n * 1000000"

subsection \<open>Backoff\<close>

definition MaxRetryDelay :: int64 where "MaxRetryDelay = 5000000000"

text \<open>\<open>time.Duration(f)\<close>: truncation, or the platform's value when out of range.\<close>

definition float_to_int64 :: "'w Consumer \<Rightarrow> rat \<Rightarrow> int64" where
  "float_to_int64 c x =
     (let i = (if 0 \<le> x then \<lfloor>x\<rfloor> else - \<lfloor>- x\<rfloor>) in
      if in_int64 i then word_of_int i else FloatRange (c_out c))"

definition backoff_delay :: "'w Consumer \<Rightarrow> int \<Rightarrow> int64 \<Rightarrow> int64" where
  "backoff_delay c attempt jitter =
     (let base = fl (of_int (RetryBaseDelayMs (c_cfg c))) * 2 ^ nat attempt;
          delay = float_to_int64 c base * 1000000 + jitter
      in if MaxRetryDelay <s delay then MaxRetryDelay else delay)"

definition sleepBackoff :: "'w Consumer \<Rightarrow> int \<Rightarrow> 'w cstate \<Rightarrow> 'w cstate option" where
  "sleepBackoff c attempt s =
     (let n = millis (RetryJitterMs (c_cfg c)) in
      if n \<le>s 0 then None
      else let (w, jitter) = Int63n (c_out c) n (wld s);
               delay = backoff_delay c attempt jitter
           in Some (s\<lparr>wld := Sleep (c_out c) delay w\<rparr>))"

definition pauseWithJitter :: "'w Consumer \<Rightarrow> 'w cstate \<Rightarrow> 'w cstate option" where
  "pauseWithJitter c s = sleepBackoff c 0 s"

subsection \<open>Parsing\<close>

definition parseAndValidateMsg :: "kmsg \<Rightarrow> goerr + transaction" where
  "parseAndValidateMsg msg =
     (case Unmarshal (k_value msg) of
        Inl err \<Rightarrow> Inl (NonRetryable err)
      | Inr dto \<Rightarrow>
          (case ToDomain dto of
             Inl err \<Rightarrow> Inl (NonRetryable err)
           | Inr t \<Rightarrow>
               (case Validate t of
                  Some err \<Rightarrow> Inl (NonRetryable err)
                | None \<Rightarrow> Inr t)))"

subsection \<open>One message: the business logic\<close>

definition retries_total :: "string \<Rightarrow> metric_call" where
  "retries_total reason = IncCounter MetricRetriesTotal [(''reason'', reason)] 1"

text \<open>
  The loop \<open>for attempt := 0; attempt <= MaxProcessRetries; attempt++\<close>: the first number counts
  the iterations left.
\<close>

fun process_attempts ::
  "'w Consumer \<Rightarrow> transaction \<Rightarrow> nat \<Rightarrow> int \<Rightarrow> 'w cstate \<Rightarrow> ('w cstate \<times> goerr option) option" where
  "process_attempts c t 0 attempt s = Some (s, None)"
| "process_attempts c t (Suc n) attempt s =
     (let (w, err) = Register (c_out c) (millis (ProcessTimeoutMs (c_cfg c))) t (wld s);
          s = s\<lparr>wld := w\<rparr>
      in case err of
           None \<Rightarrow> Some (s, None)
         | Some e \<Rightarrow>
             (case CtxErr (c_out c) (wld s) of
                Some ce \<Rightarrow> Some (s, Some ce)
              | None \<Rightarrow>
                  if \<not> Retryable (Classify e) then Some (s, Some (NonRetryable e))
                  else if attempt = MaxProcessRetries (c_cfg c) then
                    Some (s, Some (Wrapped (''process failed after '' @ Itoa (attempt + 1) @ '' attempts: '') e))
                  else do {
                    s \<leftarrow> sleepBackoff c attempt
                          (emit (IncCounter MetricMessagesTotal [(''result'', ''retried'')] 1)
                            (emit (retries_total ''process_error'') s));
                    process_attempts c t n (attempt + 1) s
                  }))"

definition processMessageWithRetries ::
  "'w Consumer \<Rightarrow> kmsg \<Rightarrow> 'w cstate \<Rightarrow> ('w cstate \<times> goerr option) option" where
  "processMessageWithRetries c msg s =
     (case parseAndValidateMsg msg of
        Inl err \<Rightarrow> Some (s, Some err)
      | Inr t \<Rightarrow> process_attempts c t (nat (MaxProcessRetries (c_cfg c) + 1)) 0 s)"

subsection \<open>One message: dead letter, commit, lag\<close>

definition payloadFingerprint :: "'w Consumer \<Rightarrow> string \<Rightarrow> string \<times> int" where
  "payloadFingerprint c raw = (Sha256Hex (c_out c) raw, int (length raw))"

text \<open>
  The message for the dead-letter topic: the source metadata is kept, the text of the value is
  replaced, with a hash and the size to recognise it.
\<close>

definition dlq_payload :: "'w Consumer \<Rightarrow> kmsg \<Rightarrow> goerr \<Rightarrow> gotime \<Rightarrow> dlq_record" where
  "dlq_payload c msg processErr now =
     (let (hash, size) = payloadFingerprint c (k_value msg) in
      \<lparr>d_message_key = k_key msg, d_topic = k_topic msg, d_partition = k_partition msg,
       d_offset = k_offset msg, d_key = k_key msg, d_value = ''[REDACTED]'',
       d_value_sha256 = hash, d_value_size = size,
       d_error = processErr, d_failed_at = now, d_headers = k_headers msg,
       d_source_time = (if \<not> IsZero (k_time msg) then Some (k_time msg) else None)\<rparr>)"

definition routeToDLQ ::
  "'w Consumer \<Rightarrow> kmsg \<Rightarrow> goerr \<Rightarrow> 'w cstate \<Rightarrow> 'w cstate \<times> goerr option" where
  "routeToDLQ c msg processErr s =
     (case WriteMessages (c_out c) of
        None \<Rightarrow> (s, Some (NonRetryable (Opaque ''dlq writer is not configured'')))
      | Some put \<Rightarrow>
          let (s, t) = c_now c s;
              (w, err) = put (dlq_payload c msg processErr t) (wld s);
              s = s\<lparr>wld := w\<rparr>
          in case err of
               Some e \<Rightarrow> (s, Some e)
             | None \<Rightarrow> (emit (IncCounter MetricDLQTotal [(''result'', ''success'')] 1) s, None))"

definition commit_total :: "labels \<Rightarrow> int64 \<Rightarrow> metric_call" where
  "commit_total ls n = IncCounter MetricCommitTotal ls n"

definition commit :: "'w Consumer \<Rightarrow> kmsg \<Rightarrow> 'w cstate \<Rightarrow> 'w cstate \<times> goerr option" where
  "commit c msg s =
     (let (w, err) = CommitMessages (c_out c) [msg] (wld s); s = s\<lparr>wld := w\<rparr>
      in case err of
           Some e \<Rightarrow> (emit (commit_total [(''result'', ''error'')] 1) s, Some e)
         | None \<Rightarrow> (emit (commit_total [(''result'', ''success'')] 1) s, None))"

definition observeLag :: "'w Consumer \<Rightarrow> kmsg \<Rightarrow> 'w cstate \<Rightarrow> 'w cstate" where
  "observeLag c msg s =
     (if IsZero (k_time msg) then s
      else let (s, t) = c_now c s;
               lagMs = Milliseconds (time_Sub t (k_time msg));
               lagMs = (if lagMs < 0 then 0 else lagMs)
           in emit (SetGauge MetricLag
                 [(''topic'', k_topic msg), (''partition'', Itoa (k_partition msg))]
                 (fl (of_int lagMs))) s)"

subsection \<open>One message: the handler\<close>

text \<open>
  The two endless loops. The dead-letter loop ends routed (\<open>True\<close>) or given up (\<open>False\<close>): on a
  non-retryable error, which stops the consumer, or because the application is stopping.
\<close>

fun dlq_loop :: "nat \<Rightarrow> 'w Consumer \<Rightarrow> kmsg \<Rightarrow> goerr \<Rightarrow> 'w cstate \<Rightarrow> ('w cstate \<times> bool) option" where
  "dlq_loop 0 c msg err s = None"
| "dlq_loop (Suc f) c msg err s =
     (let (s, dlqErr) = routeToDLQ c msg err s in
      case dlqErr of
        None \<Rightarrow> Some (s, True)
      | Some e \<Rightarrow>
          let s = emit (IncCounter MetricDLQTotal [(''result'', ''error'')] 1) s in
          if errors_As_nonRetryable e then
            Some (triggerFatal c
              (Wrapped (''fatal DLQ failure at offset '' @ Itoa (k_offset msg) @ '': '') e) s, False)
          else if cancelled c s then Some (s, False)
          else do { s \<leftarrow> pauseWithJitter c s; dlq_loop f c msg err s })"

fun commit_loop :: "nat \<Rightarrow> 'w Consumer \<Rightarrow> kmsg \<Rightarrow> 'w cstate \<Rightarrow> 'w cstate option" where
  "commit_loop 0 c msg s = None"
| "commit_loop (Suc f) c msg s =
     (let (s, err) = commit c msg s in
      if err = None then Some s
      else if cancelled c s then Some s
      else do { s \<leftarrow> pauseWithJitter c s; commit_loop f c msg s })"

definition part_labels :: "kmsg \<Rightarrow> string \<Rightarrow> labels" where
  "part_labels msg result =
     [(''topic'', k_topic msg), (''partition'', Itoa (k_partition msg)), (''result'', result)]"

definition observe_processing :: "'w Consumer \<Rightarrow> labels \<Rightarrow> gotime \<Rightarrow> 'w cstate \<Rightarrow> 'w cstate" where
  [consumer_defs]: "observe_processing c ls startedAt s =
     (let (s, t) = c_now c s in
      emit (ObserveDuration MetricProcessingDurationMs ls (time_Sub t startedAt)) s)"

definition set_last_success :: "'w Consumer \<Rightarrow> 'w cstate \<Rightarrow> 'w cstate" where
  [consumer_defs]: "set_last_success c s =
     (let (s, t) = c_now c s in
      emit (SetGauge MetricLastSuccessUnix [] (fl (of_int (unix_sec t)))) s)"

definition messages_total :: "labels \<Rightarrow> metric_call" where
  "messages_total ls = IncCounter MetricMessagesTotal ls 1"

definition handleMessage :: "nat \<Rightarrow> 'w Consumer \<Rightarrow> kmsg \<Rightarrow> 'w cstate \<Rightarrow> 'w cstate option" where
  "handleMessage f c msg s =
     (let s = observeLag c msg s;
          (s, startedAt) = c_now c s
      in do {
        (s, err) \<leftarrow> processMessageWithRetries c msg s;
        case err of
          Some e \<Rightarrow>
            if errors_Is e CtxCanceled \<or> errors_Is e CtxDeadlineExceeded then Some s
            else do {
              let s = observe_processing c [(''result'', ''failed'')] startedAt s;
              let s = emit (messages_total (part_labels msg ''failed'')) s;
              (s, routed) \<leftarrow> dlq_loop f c msg e s;
              if routed then commit_loop f c msg (emit (messages_total (part_labels msg ''dlq'')) s)
              else Some s
            }
        | None \<Rightarrow>
            commit_loop f c msg
              (emit (messages_total (part_labels msg ''processed''))
                (observe_processing c [(''result'', ''processed'')] startedAt
                  (set_last_success c s)))
      })"

subsection \<open>One batch\<close>

text \<open>
  The retry loop of the bulk insert ends stopped by the shutdown or with the last error. The
  second argument counts the iterations left.
\<close>

datatype bulk_result = BulkStopped | BulkDone "goerr option"

fun bulk_attempts ::
  "'w Consumer \<Rightarrow> transaction list \<Rightarrow> nat \<Rightarrow> int \<Rightarrow> goerr option \<Rightarrow> 'w cstate
    \<Rightarrow> ('w cstate \<times> bulk_result) option" where
  "bulk_attempts c ts 0 attempt bulkErr s = Some (s, BulkDone bulkErr)"
| "bulk_attempts c ts (Suc n) attempt bulkErr s =
     (let (w, bulkErr) = Registers (c_out c) (millis (ProcessTimeoutMs (c_cfg c))) ts (wld s);
          s = s\<lparr>wld := w\<rparr>
      in case bulkErr of
           None \<Rightarrow> Some (s, BulkDone None)
         | Some e \<Rightarrow>
             if cancelled c s then Some (s, BulkStopped)
             else if \<not> Retryable (Classify e) then Some (s, BulkDone (Some e))
             else do {
               s \<leftarrow> sleepBackoff c attempt (emit (retries_total ''process_bulk_error'') s);
               bulk_attempts c ts n (attempt + 1) bulkErr s
             })"

fun bulk_commit_loop :: "nat \<Rightarrow> 'w Consumer \<Rightarrow> kmsg list \<Rightarrow> 'w cstate \<Rightarrow> 'w cstate option" where
  "bulk_commit_loop 0 c msgs s = None"
| "bulk_commit_loop (Suc f) c msgs s =
     (let (w, err) = CommitMessages (c_out c) msgs (wld s); s = s\<lparr>wld := w\<rparr> in
      if err = None then
        Some (emit (commit_total [(''result'', ''success''), (''mode'', ''bulk'')]
                (of_nat (length msgs))) s)
      else if cancelled c s then Some s
      else do { s \<leftarrow> pauseWithJitter c s; bulk_commit_loop f c msgs s })"

text \<open>The sequential fallback.\<close>

fun handle_each :: "nat \<Rightarrow> 'w Consumer \<Rightarrow> kmsg list \<Rightarrow> 'w cstate \<Rightarrow> 'w cstate option" where
  "handle_each f c [] s = Some s"
| "handle_each f c (msg # msgs) s = do {
     s \<leftarrow> handleMessage f c msg (add_inflight 1 s);
     handle_each f c msgs (add_inflight (- 1) s)
   }"

text \<open>The body between the two in-flight updates; the second one is deferred.\<close>

definition flush_body ::
  "nat \<Rightarrow> 'w Consumer \<Rightarrow> kmsg list \<Rightarrow> transaction list \<Rightarrow> 'w cstate \<Rightarrow> 'w cstate option" where
  "flush_body f c msgs ts s =
     (let n = of_nat (length msgs); (s, startedAt) = c_now c s in
      do {
        (s, res) \<leftarrow> bulk_attempts c ts (nat (MaxProcessRetries (c_cfg c) + 1)) 0 None s;
        case res of
          BulkStopped \<Rightarrow> Some s
        | BulkDone None \<Rightarrow>
            bulk_commit_loop f c msgs
              (set_last_success c
                (observe_processing c [(''result'', ''processed''), (''mode'', ''bulk'')] startedAt s))
        | BulkDone (Some e) \<Rightarrow> do {
            s \<leftarrow> handle_each f c msgs (add_inflight (- n) s);
            Some (add_inflight n s)
          }
      })"

definition flushBatch ::
  "nat \<Rightarrow> 'w Consumer \<Rightarrow> kmsg list \<Rightarrow> transaction list \<Rightarrow> 'w cstate \<Rightarrow> 'w cstate option" where
  "flushBatch f c msgs ts s =
     (if msgs = [] then Some s
      else let n = of_nat (length msgs) in
        do {
          s \<leftarrow> flush_body f c msgs ts (show_inflight (add_inflight n s));
          Some (show_inflight (add_inflight (- n) s))
        })"

subsection \<open>The partition worker\<close>

text \<open>
  One turn of the worker's loop: a message or the end of its channel, or a tick. \<open>w_stopped\<close> is
  a worker that returned; its batch is then dropped.
\<close>

datatype worker_event = Recv kmsg | ChanClosed | Tick

record worker =
  batchMsgs :: "kmsg list"
  batchDomains :: "transaction list"
  w_stopped :: bool

definition new_worker :: worker where
  "new_worker = \<lparr>batchMsgs = [], batchDomains = [], w_stopped = False\<rparr>"

text \<open>The closure \<open>flush\<close>: the batch is emptied whatever became of it.\<close>

definition flush :: "nat \<Rightarrow> 'w Consumer \<Rightarrow> worker \<Rightarrow> 'w cstate \<Rightarrow> (worker \<times> 'w cstate) option" where
  "flush f c wk s =
     (if batchMsgs wk = [] then Some (wk, s)
      else do {
        s \<leftarrow> flushBatch f c (batchMsgs wk) (batchDomains wk) s;
        Some (wk\<lparr>batchMsgs := [], batchDomains := []\<rparr>, s)
      })"

definition worker_recv ::
  "nat \<Rightarrow> 'w Consumer \<Rightarrow> kmsg \<Rightarrow> worker \<Rightarrow> 'w cstate \<Rightarrow> (worker \<times> 'w cstate) option" where
  "worker_recv f c msg wk s =
     (if cancelled c s then Some (wk\<lparr>w_stopped := True\<rparr>, s)
      else case parseAndValidateMsg msg of
        Inl err \<Rightarrow> do {
          (wk, s) \<leftarrow> flush f c wk s;
          s \<leftarrow> handleMessage f c msg (show_inflight (add_inflight 1 s));
          Some (wk, show_inflight (add_inflight (- 1) s))
        }
      | Inr t \<Rightarrow>
          (let wk = wk\<lparr>batchMsgs := batchMsgs wk @ [msg], batchDomains := batchDomains wk @ [t]\<rparr> in
           if BatchSize (c_cfg c) \<le> int (length (batchMsgs wk)) then flush f c wk s
           else Some (wk, s)))"

definition partitionWorker ::
  "nat \<Rightarrow> 'w Consumer \<Rightarrow> worker_event \<Rightarrow> worker \<Rightarrow> 'w cstate \<Rightarrow> (worker \<times> 'w cstate) option" where
  "partitionWorker f c ev wk s =
     (if w_stopped wk then Some (wk, s)
      else case ev of
        Recv msg \<Rightarrow> worker_recv f c msg wk s
      | ChanClosed \<Rightarrow> Some (wk\<lparr>w_stopped := True\<rparr>, s)
      | Tick \<Rightarrow> flush f c wk s)"

text \<open>A run of the worker over a sequence of events.\<close>

fun worker_run ::
  "nat \<Rightarrow> 'w Consumer \<Rightarrow> worker_event list \<Rightarrow> worker \<Rightarrow> 'w cstate \<Rightarrow> (worker \<times> 'w cstate) option" where
  "worker_run f c [] wk s = Some (wk, s)"
| "worker_run f c (ev # evs) wk s = do {
     (wk, s) \<leftarrow> partitionWorker f c ev wk s;
     worker_run f c evs wk s
   }"

end
