(* ===== verification/Delivery.thy ===== *)
theory Delivery
  imports Consumer "HOL-Library.Sublist"
begin

text \<open>
  What the consumer relies on of its outside is the locale \<open>consumer_env\<close>; inside it, what one
  message, one batch and one worker guarantee: a message is committed only when it is stored or
  dead-lettered, and, as long as the application runs, in the order received without gaps.
\<close>

subsection \<open>The contract of the outside\<close>

text \<open>
  An outside call that may commit the messages of \<open>C\<close>: transactions and dead letters are never
  lost, commits only grow, by messages of \<open>C\<close>, a cancelled context stays cancelled, and an
  invariant \<open>good\<close> of the outside is kept.
\<close>

definition outside_step ::
  "'w outside \<Rightarrow> ('w \<Rightarrow> transaction set) \<Rightarrow> ('w \<Rightarrow> dlq_record set) \<Rightarrow> ('w \<Rightarrow> kmsg set)
    \<Rightarrow> ('w \<Rightarrow> bool) \<Rightarrow> kmsg set \<Rightarrow> 'w \<Rightarrow> 'w \<Rightarrow> bool" where
  "outside_step out stored dlq committed good C w w' \<longleftrightarrow>
     stored w \<subseteq> stored w' \<and> dlq w \<subseteq> dlq w'
     \<and> committed w \<subseteq> committed w' \<and> committed w' \<subseteq> committed w \<union> C
     \<and> (CtxErr out w \<noteq> None \<longrightarrow> CtxErr out w' \<noteq> None)
     \<and> (good w \<longrightarrow> good w')"

text \<open>
  \<open>stored w\<close> are the transactions in the store, \<open>dlq w\<close> the records in the dead-letter topic,
  \<open>committed w\<close> the messages of the commit requests that took effect; one that failed may have
  taken effect (\<open>commit_step\<close>). A database call under a context that is done fails.
\<close>

locale consumer_env =
  fixes out :: "'w outside"
    and stored :: "'w \<Rightarrow> transaction set"
    and dlq :: "'w \<Rightarrow> dlq_record set"
    and committed :: "'w \<Rightarrow> kmsg set"
    and good :: "'w \<Rightarrow> bool"
  assumes ctx_err: "CtxErr out w = Some e \<Longrightarrow> errors_Is e CtxCanceled \<or> errors_Is e CtxDeadlineExceeded"
    and cancel_step: "outside_step out stored dlq committed good {} w (Cancel out w)"
    and cancel_done: "CtxErr out (Cancel out w) \<noteq> None"
    and register_step: "outside_step out stored dlq committed good {} w (fst (Register out d t w))"
    and register_ok: "Register out d t w = (w', None) \<Longrightarrow> t \<in> stored w'"
    and register_done: "CtxErr out w \<noteq> None \<Longrightarrow> snd (Register out d t w) \<noteq> None"
    and registers_step: "outside_step out stored dlq committed good {} w (fst (Registers out d ts w))"
    and registers_ok: "Registers out d ts w = (w', None) \<Longrightarrow> set ts \<subseteq> stored w'"
    and registers_done: "\<lbrakk>CtxErr out w \<noteq> None; ts \<noteq> []\<rbrakk> \<Longrightarrow> snd (Registers out d ts w) \<noteq> None"
    and commit_step: "outside_step out stored dlq committed good (set ms) w (fst (CommitMessages out ms w))"
    and commit_ok: "CommitMessages out ms w = (w', None) \<Longrightarrow> set ms \<subseteq> committed w'"
    and write_step: "WriteMessages out = Some write \<Longrightarrow>
          outside_step out stored dlq committed good {} w (fst (write r w))"
    and write_ok: "\<lbrakk>WriteMessages out = Some write; write r w = (w', None)\<rbrakk> \<Longrightarrow> r \<in> dlq w'"
    and now_step: "outside_step out stored dlq committed good {} w (fst (Now out w))"
    and rand_step: "outside_step out stored dlq committed good {} w (fst (Int63n out n w))"
    and sleep_step: "outside_step out stored dlq committed good {} w (Sleep out d w)"
begin

lemma step_refl: "outside_step out stored dlq committed good C w w"
  by (simp add: outside_step_def)

lemma step_trans:
  "\<lbrakk>outside_step out stored dlq committed good C w w'; outside_step out stored dlq committed good C w' w''\<rbrakk>
   \<Longrightarrow> outside_step out stored dlq committed good C w w''"
  unfolding outside_step_def by blast

lemma step_mono:
  "\<lbrakk>outside_step out stored dlq committed good C w w'; C \<subseteq> D\<rbrakk> \<Longrightarrow> outside_step out stored dlq committed good D w w'"
  unfolding outside_step_def by blast

end

text \<open>A message the program is done with: its transaction is stored, or it is in the dead letters.\<close>

definition dead :: "dlq_record set \<Rightarrow> kmsg \<Rightarrow> bool" where
  "dead rs m \<longleftrightarrow> (\<exists>r \<in> rs. d_topic r = k_topic m \<and> d_partition r = k_partition m
     \<and> d_offset r = k_offset m \<and> d_key r = k_key m)"

definition handled :: "transaction set \<Rightarrow> dlq_record set \<Rightarrow> kmsg \<Rightarrow> bool" where
  "handled ts rs m \<longleftrightarrow> (\<exists>t. parseAndValidateMsg m = Inr t \<and> t \<in> ts) \<or> dead rs m"

definition valid_msg :: "kmsg \<Rightarrow> bool" where
  "valid_msg m \<longleftrightarrow> (\<exists>t. parseAndValidateMsg m = Inr t)"

lemma handled_mono: "\<lbrakk>handled ts rs m; ts \<subseteq> ts'; rs \<subseteq> rs'\<rbrakk> \<Longrightarrow> handled ts' rs' m"
  unfolding handled_def dead_def by blast

definition ctx_error :: "goerr \<Rightarrow> bool" where
  "ctx_error e \<longleftrightarrow> errors_Is e CtxCanceled \<or> errors_Is e CtxDeadlineExceeded"

lemma ctx_error_simps [simp]:
  "\<not> ctx_error (NonRetryable e)" "ctx_error (Wrapped pre e) = ctx_error e"
  by (simp_all add: ctx_error_def)

lemma ctx_error_Retryable: "Retryable (Classify e) \<Longrightarrow> \<not> ctx_error e"
  using Classify_context by (auto simp: ctx_error_def)

lemma parse_error_nonRetryable:
  "parseAndValidateMsg m = Inl e \<Longrightarrow> \<exists>e'. e = NonRetryable e'"
  by (auto simp: parseAndValidateMsg_def split: sum.splits option.splits)

subsection \<open>Effects of the consumer\<close>

text \<open>
  A consumer over such an outside. \<open>adv C s s'\<close>: from \<open>s\<close> to \<open>s'\<close> at most the messages of \<open>C\<close>
  were committed, and a recorded fatal error still means a cancelled context.
\<close>

locale kafka_consumer = consumer_env "c_out c" stored dlq committed good
  for c :: "'w Consumer" and stored dlq committed good +
  assumes retries: "0 \<le> MaxProcessRetries (c_cfg c)"
begin

definition adv :: "kmsg set \<Rightarrow> 'w cstate \<Rightarrow> 'w cstate \<Rightarrow> bool" where
  "adv C s s' \<longleftrightarrow> outside_step (c_out c) stored dlq committed good C (wld s) (wld s')
     \<and> ((fatal s \<noteq> None \<longrightarrow> cancelled c s) \<longrightarrow> (fatal s' \<noteq> None \<longrightarrow> cancelled c s'))"

definition done_with :: "'w cstate \<Rightarrow> kmsg \<Rightarrow> bool" where
  "done_with s m \<longleftrightarrow> handled (stored (wld s)) (dlq (wld s)) m"

lemma adv_trans: "\<lbrakk>adv C s s'; adv C s' s''\<rbrakk> \<Longrightarrow> adv C s s''"
  unfolding adv_def using step_trans by blast

lemma adv_mono: "\<lbrakk>adv C s s'; C \<subseteq> D\<rbrakk> \<Longrightarrow> adv D s s'"
  unfolding adv_def using step_mono by blast

lemma adv_empty: "adv {} s s' \<Longrightarrow> adv C s s'"
  by (erule adv_mono) simp

lemma adv_then: "\<lbrakk>adv {} s s'; adv C s' s''\<rbrakk> \<Longrightarrow> adv C s s''"
  by (rule adv_trans [OF adv_empty])

lemma adv_done_with: "\<lbrakk>adv C s s'; done_with s m\<rbrakk> \<Longrightarrow> done_with s' m"
  unfolding adv_def done_with_def outside_step_def using handled_mono by blast

lemma adv_committed: "adv C s s' \<Longrightarrow> committed (wld s) \<subseteq> committed (wld s')"
  by (simp add: adv_def outside_step_def)

lemma adv_committed_le: "adv C s s' \<Longrightarrow> committed (wld s') \<subseteq> committed (wld s) \<union> C"
  by (simp add: adv_def outside_step_def)

definition sane :: "'w cstate \<Rightarrow> bool" where
  "sane s \<longleftrightarrow> (fatal s \<noteq> None \<longrightarrow> cancelled c s)"

lemma adv_sane: "\<lbrakk>adv C s s'; sane s\<rbrakk> \<Longrightarrow> sane s'"
  by (simp add: adv_def sane_def)

lemma adv_good: "\<lbrakk>adv C s s'; good (wld s)\<rbrakk> \<Longrightarrow> good (wld s')"
  by (simp add: adv_def outside_step_def)

lemma adv_cancelled: "\<lbrakk>adv C s s'; cancelled c s\<rbrakk> \<Longrightarrow> cancelled c s'"
  by (simp add: adv_def outside_step_def cancelled_def)

lemma adv_wld:
  "\<lbrakk>outside_step (c_out c) stored dlq committed good C (wld s) (wld s'); fatal s' = fatal s\<rbrakk> \<Longrightarrow> adv C s s'"
  by (auto simp: adv_def outside_step_def cancelled_def)

lemma adv_refl [simp]: "adv C s s"
  by (simp add: adv_wld step_refl)

lemma adv_emit [simp]: "adv C s (emit m s)" "adv C s (add_inflight n s)" "adv C s (show_inflight s)"
  by (simp_all add: adv_wld step_refl consumer_defs)

lemma adv_now: "c_now c s = (s', t) \<Longrightarrow> adv C s s'"
  using now_step [of "wld s"]
  by (auto simp: c_now_def intro!: adv_wld step_mono [where C = "{}" and D = C] split: prod.splits)

lemma adv_now_emit: "adv C s (case c_now c s of (s', t) \<Rightarrow> emit (m t) s')"
proof (cases "c_now c s")
  case (Pair s' t)
  from adv_trans [OF adv_now [OF Pair] adv_emit(1)] show ?thesis by (simp add: Pair)
qed

lemma adv_observe: "adv C s (observe_processing c ls t0 s)" "adv C s (set_last_success c s)"
  "adv C s (observeLag c msg s)"
  by (simp_all add: observe_processing_def set_last_success_def observeLag_def Let_def adv_now_emit)

lemma adv_sleepBackoff: "sleepBackoff c n s = Some s' \<Longrightarrow> adv C s s'"
proof -
  assume "sleepBackoff c n s = Some s'"
  then obtain n d w j where r: "Int63n (c_out c) n (wld s) = (w, j)"
    and s': "s' = s\<lparr>wld := Sleep (c_out c) d w\<rparr>"
    by (auto simp: sleepBackoff_def Let_def split: if_splits prod.splits)
  have "outside_step (c_out c) stored dlq committed good {} (wld s) w"
    using rand_step [where n = n and w = "wld s"] r by simp
  from step_trans [OF this sleep_step] show ?thesis
    unfolding s' by - (rule adv_empty, rule adv_wld, simp_all)
qed

lemma adv_pause: "pauseWithJitter c s = Some s' \<Longrightarrow> adv C s s'"
  by (simp add: pauseWithJitter_def adv_sleepBackoff)

lemma adv_triggerFatal: "adv C s (triggerFatal c e s)"
proof (cases "fatal s")
  case None
  have "outside_step (c_out c) stored dlq committed good C (wld s) (Cancel (c_out c) (wld s))"
    by (rule step_mono [OF cancel_step]) simp
  with None show ?thesis
    by (simp add: adv_def triggerFatal_def cancelled_def cancel_done del: not_None_eq)
qed (simp add: triggerFatal_def)

lemma triggerFatal_cancelled: "sane s \<Longrightarrow> cancelled c (triggerFatal c e s)"
  using cancel_done by (auto simp: triggerFatal_def sane_def cancelled_def)

lemma adv_register:
  "Register (c_out c) d t (wld s) = (w, e) \<Longrightarrow> adv {} s (s\<lparr>wld := w\<rparr>)"
  using register_step [where w = "wld s" and d = d and t = t] by (intro adv_wld) simp_all

lemma adv_registers:
  "Registers (c_out c) d ts (wld s) = (w, e) \<Longrightarrow> adv {} s (s\<lparr>wld := w\<rparr>)"
  using registers_step [where w = "wld s" and d = d and ts = ts] by (intro adv_wld) simp_all

lemma adv_commit:
  "CommitMessages (c_out c) ms (wld s) = (w, e) \<Longrightarrow> adv (set ms) s (s\<lparr>wld := w\<rparr>)"
  using commit_step [where w = "wld s" and ms = ms] by (intro adv_wld) simp_all

text \<open>The business logic: a nil error means stored; a context error means cancelled.\<close>

lemma process_attempts_spec:
  assumes "process_attempts c t n a s = Some (s', r)" "int n = MaxProcessRetries (c_cfg c) + 1 - a" "0 < n"
  shows "adv {} s s'
    \<and> (case r of None \<Rightarrow> t \<in> stored (wld s') | Some e \<Rightarrow> ctx_error e \<longrightarrow> cancelled c s')
    \<and> (cancelled c s \<longrightarrow> (\<exists>e. r = Some e \<and> ctx_error e))"
  using assms
proof (induction n arbitrary: a s)
  case (Suc n)
  obtain w err where reg:
    "Register (c_out c) (millis (ProcessTimeoutMs (c_cfg c))) t (wld s) = (w, err)"
    by (metis surj_pair)
  let ?s = "s\<lparr>wld := w\<rparr>"
  have av: "adv {} s ?s" using adv_register [OF reg] .
  show ?case
  proof (cases err)
    case None
    with Suc.prems(1) reg have "s' = ?s" "r = None" by simp_all
    moreover have "\<not> cancelled c s"
      using register_done [where w = "wld s"] reg None by (metis cancelled_def snd_conv)
    ultimately show ?thesis
      using av register_ok [OF reg [unfolded None]] by simp
  next
    case (Some e)
    show ?thesis
    proof (cases "CtxErr (c_out c) w")
      case (Some ce)
      with Suc.prems(1) reg \<open>err = Some e\<close> have "s' = ?s" "r = Some ce" by simp_all
      with Some av show ?thesis
        using ctx_err [OF Some] by (simp add: cancelled_def ctx_error_def)
    next
      case None
      then have nc: "\<not> cancelled c s"
        using adv_cancelled [OF av] by (fastforce simp: cancelled_def simp del: not_None_eq)
      show ?thesis
      proof (cases "Retryable (Classify e) \<and> a \<noteq> MaxProcessRetries (c_cfg c)")
        case False
        with Suc.prems(1) reg \<open>err = Some e\<close> None have "s' = ?s" "\<exists>e'. r = Some e' \<and> \<not> ctx_error e'"
          by (auto simp: Let_def ctx_error_Retryable split: if_splits)
        with av nc show ?thesis by auto
      next
        case True
        let ?s2 = "emit (IncCounter ''kafka_consumer_messages_total'' [(''result'', ''retried'')] 1)
                     (emit (retries_total ''process_error'') ?s)"
        from True Suc.prems(1) reg \<open>err = Some e\<close> None obtain s3
          where sl: "sleepBackoff c a ?s2 = Some s3" and rest: "process_attempts c t n (a + 1) s3 = Some (s', r)"
          by (auto simp: Let_def bind_eq_Some_conv)
        have "adv {} s s3"
          using av adv_sleepBackoff [OF sl] by (meson adv_emit(1) adv_trans)
        moreover have "0 < n" "int n = MaxProcessRetries (c_cfg c) + 1 - (a + 1)"
          using Suc.prems(2) True by auto
        ultimately show ?thesis
          using Suc.IH [OF rest] nc adv_trans by blast
      qed
    qed
  qed
qed simp

lemma processMessageWithRetries_spec:
  assumes "processMessageWithRetries c msg s = Some (s', r)"
  shows "adv {} s s'"
    and "r = None \<Longrightarrow> done_with s' msg"
    and "\<lbrakk>r = Some e; ctx_error e\<rbrakk> \<Longrightarrow> cancelled c s'"
    and "\<lbrakk>valid_msg msg; cancelled c s\<rbrakk> \<Longrightarrow> \<exists>e. r = Some e \<and> ctx_error e"
proof -
  have "adv {} s s' \<and> (r = None \<longrightarrow> done_with s' msg)
    \<and> (\<forall>e. r = Some e \<and> ctx_error e \<longrightarrow> cancelled c s')
    \<and> (valid_msg msg \<and> cancelled c s \<longrightarrow> (\<exists>e. r = Some e \<and> ctx_error e))"
  proof (cases "parseAndValidateMsg msg")
    case (Inl err)
    with assms parse_error_nonRetryable [OF Inl] show ?thesis
      by (auto simp: processMessageWithRetries_def valid_msg_def)
  next
    case (Inr t)
    with assms have "process_attempts c t (nat (MaxProcessRetries (c_cfg c) + 1)) 0 s = Some (s', r)"
      by (simp add: processMessageWithRetries_def)
    from process_attempts_spec [OF this] retries Inr show ?thesis
      by (auto simp: done_with_def handled_def split: option.splits)
  qed
  then show "adv {} s s'" "r = None \<Longrightarrow> done_with s' msg"
    "\<lbrakk>r = Some e; ctx_error e\<rbrakk> \<Longrightarrow> cancelled c s'"
    "\<lbrakk>valid_msg msg; cancelled c s\<rbrakk> \<Longrightarrow> \<exists>e. r = Some e \<and> ctx_error e"
    by blast+
qed

lemma routeToDLQ_spec:
  assumes "routeToDLQ c msg err s = (s', e)"
  shows "adv {} s s' \<and> (e = None \<longrightarrow> done_with s' msg)"
proof (cases "WriteMessages (c_out c)")
  case None
  with assms show ?thesis by (auto simp: routeToDLQ_def)
next
  case (Some put)
  obtain s1 t where n: "c_now c s = (s1, t)" by (metis surj_pair)
  let ?r = "dlq_payload c msg err t"
  obtain w e' where wr: "put ?r (wld s1) = (w, e')" by (metis surj_pair)
  have eq: "routeToDLQ c msg err s =
      (case e' of Some e \<Rightarrow> (s1\<lparr>wld := w\<rparr>, Some e)
       | None \<Rightarrow> (emit (IncCounter ''kafka_consumer_dlq_total'' [(''result'', ''success'')] 1)
                   (s1\<lparr>wld := w\<rparr>), None))"
    using Some n wr by (simp add: routeToDLQ_def Let_def)
  have "outside_step (c_out c) stored dlq committed good {} (wld s1) w"
    using write_step [OF Some, of "wld s1" ?r] wr by simp
  then have "adv {} s1 (s1\<lparr>wld := w\<rparr>)" by (intro adv_wld) simp_all
  with adv_now [OF n] have av: "adv {} s (s1\<lparr>wld := w\<rparr>)" by (rule adv_trans)
  have "e' = None \<Longrightarrow> dead (dlq w) msg"
    using write_ok [OF Some] wr by (auto simp: dead_def dlq_payload_def payloadFingerprint_def intro!: bexI [of _ ?r])
  moreover have "adv {} s (emit m (s1\<lparr>wld := w\<rparr>))" for m
    by (rule adv_trans [OF av]) simp
  ultimately show ?thesis
    using assms av by (auto simp: eq done_with_def handled_def emit_def split: option.splits)
qed

lemma dlq_loop_spec:
  assumes "dlq_loop f c msg err s = Some (s', routed)" "sane s"
  shows "adv {} s s' \<and> (if routed then done_with s' msg else cancelled c s')"
  using assms
proof (induction f arbitrary: s)
  case (Suc f)
  obtain s1 e where r: "routeToDLQ c msg err s = (s1, e)" by (metis surj_pair)
  from routeToDLQ_spec [OF r] have av: "adv {} s s1" and dw: "e = None \<Longrightarrow> done_with s1 msg" by auto
  show ?case
  proof (cases e)
    case None
    with Suc.prems(1) r av dw show ?thesis by auto
  next
    case (Some e')
    let ?s2 = "emit (IncCounter ''kafka_consumer_dlq_total'' [(''result'', ''error'')] 1) s1"
    have av2: "adv {} s ?s2" by (rule adv_trans [OF av adv_emit(1)])
    then have sane: "sane ?s2" using Suc.prems(2) by (rule adv_sane)
    consider (fatal) "errors_As_nonRetryable e'" | (stop) "\<not> errors_As_nonRetryable e'" "cancelled c ?s2"
      | (again) "\<not> errors_As_nonRetryable e'" "\<not> cancelled c ?s2" by blast
    then show ?thesis
    proof cases
      case fatal
      with Suc.prems(1) r Some have s': "s' = triggerFatal c
          (Wrapped (''fatal DLQ failure at offset '' @ Itoa (k_offset msg) @ '': '') e') ?s2" "\<not> routed"
        by (auto simp: Let_def)
      with triggerFatal_cancelled [OF sane] adv_trans [OF av2 adv_triggerFatal] show ?thesis by simp
    next
      case stop
      with Suc.prems(1) r Some av2 show ?thesis by (auto simp: Let_def)
    next
      case again
      with Suc.prems(1) r Some obtain s3 where p: "pauseWithJitter c ?s2 = Some s3"
        and l: "dlq_loop f c msg err s3 = Some (s', routed)"
        by (auto simp: Let_def bind_eq_Some_conv)
      have "adv {} s s3" by (rule adv_trans [OF av2 adv_pause [OF p]])
      with Suc.IH [OF l] adv_sane Suc.prems(2) adv_trans show ?thesis by blast
    qed
  qed
qed simp

lemma commit_spec:
  assumes "commit c msg s = (s', e)"
  shows "adv {msg} s s' \<and> (e = None \<longrightarrow> msg \<in> committed (wld s'))"
proof -
  obtain w e' where cm: "CommitMessages (c_out c) [msg] (wld s) = (w, e')" by (metis surj_pair)
  from adv_commit [OF cm] have "adv {msg} s (s\<lparr>wld := w\<rparr>)" by simp
  then have "adv {msg} s (emit m (s\<lparr>wld := w\<rparr>))" for m by (rule adv_trans) simp
  with assms cm commit_ok [of "[msg]" "wld s" w] show ?thesis
    by (auto simp: commit_def emit_def Let_def split: option.splits)
qed

lemma commit_loop_spec:
  assumes "commit_loop f c msg s = Some s'"
  shows "adv {msg} s s' \<and> (\<not> cancelled c s' \<longrightarrow> msg \<in> committed (wld s'))"
  using assms
proof (induction f arbitrary: s)
  case (Suc f)
  obtain s1 e where cm: "commit c msg s = (s1, e)" by (metis surj_pair)
  from commit_spec [OF cm] have av: "adv {msg} s s1" and c: "e = None \<Longrightarrow> msg \<in> committed (wld s1)"
    by auto
  show ?case
  proof (cases "e = None \<or> cancelled c s1")
    case True
    with Suc.prems cm av c show ?thesis by (auto split: if_splits)
  next
    case False
    with Suc.prems cm obtain s2 where p: "pauseWithJitter c s1 = Some s2"
      and l: "commit_loop f c msg s2 = Some s'"
      by (auto simp: bind_eq_Some_conv)
    from Suc.IH [OF l] adv_trans [OF av adv_pause [OF p]] adv_trans show ?thesis by blast
  qed
qed simp

text \<open>
  \<open>delivered ms s s'\<close>: of the messages \<open>ms\<close>, in order, at most a prefix was newly committed, each
  message of it handled; it is all of \<open>ms\<close>, committed, when the context still runs at the end.
\<close>

definition delivered :: "kmsg list \<Rightarrow> 'w cstate \<Rightarrow> 'w cstate \<Rightarrow> bool" where
  "delivered ms s s' \<longleftrightarrow>
     (\<exists>ds. prefix ds ms \<and> adv (set ds) s s' \<and> (\<forall>m \<in> set ds. done_with s' m)
           \<and> (\<not> cancelled c s' \<longrightarrow> ds = ms \<and> set ms \<subseteq> committed (wld s')))"

lemma deliveredI:
  "\<lbrakk>prefix ds ms; adv (set ds) s s'; \<And>m. m \<in> set ds \<Longrightarrow> done_with s' m;
    \<not> cancelled c s' \<Longrightarrow> ds = ms \<and> set ms \<subseteq> committed (wld s')\<rbrakk> \<Longrightarrow> delivered ms s s'"
  unfolding delivered_def by blast

lemma delivered_nothing: "\<lbrakk>adv {} s s'; cancelled c s'\<rbrakk> \<Longrightarrow> delivered ms s s'"
  by (rule deliveredI [of "[]"]) auto

lemma delivered_adv: "delivered ms s s' \<Longrightarrow> adv (set ms) s s'"
  unfolding delivered_def using adv_mono set_mono_prefix by blast

lemma delivered_pre:
  assumes "adv {} s s'" "delivered ms s' s''"
  shows "delivered ms s s''"
  using assms adv_then unfolding delivered_def by blast

lemma delivered_post:
  assumes "delivered ms s s'" "adv {} s' s''"
  shows "delivered ms s s''"
proof -
  from assms(1) obtain ds where d: "prefix ds ms" "adv (set ds) s s'" "\<forall>m \<in> set ds. done_with s' m"
    "\<not> cancelled c s' \<longrightarrow> ds = ms \<and> set ms \<subseteq> committed (wld s')" by (auto simp: delivered_def)
  show ?thesis
  proof (rule deliveredI [OF d(1)])
    show "adv (set ds) s s''" using d(2) adv_empty [OF assms(2)] by (rule adv_trans)
    show "done_with s'' m" if "m \<in> set ds" for m
      using adv_done_with [OF assms(2)] d(3) that by blast
    show "ds = ms \<and> set ms \<subseteq> committed (wld s'')" if "\<not> cancelled c s''"
      using d(4) adv_cancelled [OF assms(2)] adv_committed [OF assms(2)] that by blast
  qed
qed

lemma delivered_append:
  assumes "delivered ms s s'" "\<not> cancelled c s'" "delivered ms' s' s''"
  shows "delivered (ms @ ms') s s''"
proof -
  from assms(1,2) have a: "adv (set ms) s s'" "\<forall>m \<in> set ms. done_with s' m" "set ms \<subseteq> committed (wld s')"
    by (auto simp: delivered_def)
  from assms(3) obtain ds where d: "prefix ds ms'" "adv (set ds) s' s''" "\<forall>m \<in> set ds. done_with s'' m"
    "\<not> cancelled c s'' \<longrightarrow> ds = ms' \<and> set ms' \<subseteq> committed (wld s'')" by (auto simp: delivered_def)
  show ?thesis
  proof (rule deliveredI [of "ms @ ds"])
    show "prefix (ms @ ds) (ms @ ms')" using d(1) by simp
    show "adv (set (ms @ ds)) s s''"
      using adv_trans [OF adv_mono [OF a(1)] adv_mono [OF d(2)], of "set (ms @ ds)"] by simp
    show "done_with s'' m" if "m \<in> set (ms @ ds)" for m
      using that a(2) d(3) adv_done_with [OF d(2)] by auto
    show "ms @ ds = ms @ ms' \<and> set (ms @ ms') \<subseteq> committed (wld s'')" if "\<not> cancelled c s''"
      using d(4) that a(3) adv_committed [OF d(2)] by auto
  qed
qed

lemma delivered_stop:
  assumes "delivered ms s s'" "cancelled c s'" "adv {} s' s''"
  shows "delivered (ms @ ms') s s''"
proof -
  have "cancelled c s''" using adv_cancelled assms(2,3) by blast
  with delivered_post [OF assms(1,3)] show ?thesis
    unfolding delivered_def using prefix_prefix by blast
qed

text \<open>
  The handler either reaches its commit loop with the message handled, or stops with the context
  cancelled and nothing committed. A valid message under a cancelled context is of the second
  kind.
\<close>

lemma dlq_branch:
  assumes "dlq_loop f c msg e s = Some (s1, routed)" "sane s"
    and "(if routed then commit_loop f c msg (emit m s1) else Some s1) = Some s'"
  shows "(\<exists>s3. adv {} s s3 \<and> done_with s3 msg \<and> commit_loop f c msg s3 = Some s')
         \<or> adv {} s s' \<and> cancelled c s'"
proof -
  from dlq_loop_spec [OF assms(1,2)]
  have d: "adv {} s s1" "if routed then done_with s1 msg else cancelled c s1" by auto
  have e: "adv {} s1 (emit m s1)" by simp
  show ?thesis
    using assms(3) d adv_trans [OF d(1) e] adv_done_with [OF e] by (auto split: if_splits)
qed

lemma handleMessage_cases:
  assumes "handleMessage f c msg s = Some s'" "sane s"
  obtains (commit) s3 where "adv {} s s3" "done_with s3 msg" "commit_loop f c msg s3 = Some s'"
      "\<not> (valid_msg msg \<and> cancelled c s)"
  | (stop) "adv {} s s'" "cancelled c s'"
proof -
  obtain s1 t0 where n: "c_now c (observeLag c msg s) = (s1, t0)" by (metis surj_pair)
  have a1: "adv {} s s1" by (rule adv_trans [OF adv_observe(3) adv_now [OF n]])
  from assms(1) n obtain s2 r where p: "processMessageWithRetries c msg s1 = Some (s2, r)"
    by (auto simp: handleMessage_def bind_eq_Some_conv)
  note spec = processMessageWithRetries_spec [OF p]
  have a2: "adv {} s s2" by (rule adv_trans [OF a1 spec(1)])
  show ?thesis
  proof (cases r)
    case None
    let ?s3 = "emit (messages_total (part_labels msg ''processed''))
                (observe_processing c [(''result'', ''processed'')] t0 (set_last_success c s2))"
    have a3: "adv {} s2 ?s3" by (meson adv_emit(1) adv_observe(1,2) adv_trans)
    from assms(1) n p None have "commit_loop f c msg ?s3 = Some s'"
      by (simp add: handleMessage_def)
    from commit [OF adv_trans [OF a2 a3] adv_done_with [OF a3 spec(2) [OF None]] this]
    show ?thesis using spec(4) None adv_cancelled [OF a1] by auto
  next
    case (Some e)
    show ?thesis
    proof (cases "ctx_error e")
      case True
      with assms(1) n p Some have "s' = s2" by (simp add: handleMessage_def ctx_error_def)
      with spec(3) [OF Some True] a2 stop show ?thesis by simp
    next
      case False
      let ?s3 = "emit (messages_total (part_labels msg ''failed''))
                   (observe_processing c [(''result'', ''failed'')] t0 s2)"
      have "adv {} s2 ?s3" by (meson adv_emit(1) adv_observe(1) adv_trans)
      then have a3: "adv {} s ?s3" by (rule adv_trans [OF a2])
      from False assms(1) n p Some obtain s4 routed where d: "dlq_loop f c msg e ?s3 = Some (s4, routed)"
        and rest: "(if routed then commit_loop f c msg (emit (messages_total (part_labels msg ''dlq'')) s4)
                    else Some s4) = Some s'"
        by (auto simp: handleMessage_def ctx_error_def bind_eq_Some_conv)
      have "\<not> (valid_msg msg \<and> cancelled c s)"
        using spec(4) Some False adv_cancelled [OF a1] by auto
      with dlq_branch [OF d adv_sane [OF a3 assms(2)] rest] show ?thesis
        using commit stop adv_trans [OF a3] by blast
    qed
  qed
qed

lemma commit_loop_delivered:
  assumes "commit_loop f c msg s = Some s'" "done_with s msg"
  shows "delivered [msg] s s'"
proof -
  from commit_loop_spec [OF assms(1)] have cl: "adv {msg} s s'"
    "\<not> cancelled c s' \<Longrightarrow> msg \<in> committed (wld s')" by auto
  from adv_done_with [OF cl(1) assms(2)] cl show ?thesis
    by (intro deliveredI [of "[msg]"]) auto
qed

lemma handleMessage_delivered:
  assumes "handleMessage f c msg s = Some s'" "sane s"
  shows "delivered [msg] s s'"
  using assms
  by (cases rule: handleMessage_cases)
    (blast intro: delivered_pre commit_loop_delivered, blast intro: delivered_nothing)

lemma handleMessage_cancelled:
  assumes "handleMessage f c msg s = Some s'" "sane s" "valid_msg msg" "cancelled c s"
  shows "adv {} s s'"
  using assms(1,2) by (cases rule: handleMessage_cases) (use assms(3,4) in auto)

text \<open>A sequence of valid messages: nothing happens any more once the context is cancelled.\<close>

lemma handle_each_cancelled:
  assumes "handle_each f c msgs s = Some s'" "sane s" "\<forall>m \<in> set msgs. valid_msg m" "cancelled c s"
  shows "adv {} s s'"
  using assms
proof (induction msgs arbitrary: s)
  case (Cons msg msgs)
  let ?s = "add_inflight 1 s"
  from Cons.prems(1) obtain s1 where h: "handleMessage f c msg ?s = Some s1"
    and r: "handle_each f c msgs (add_inflight (- 1) s1) = Some s'"
    by (auto simp: bind_eq_Some_conv)
  have a0: "adv {} s ?s" by simp
  have a1: "adv {} ?s s1"
    using handleMessage_cancelled [OF h adv_sane [OF a0]] Cons.prems adv_cancelled [OF a0] by simp
  have a2: "adv {} s (add_inflight (- 1) s1)"
    using adv_trans [OF adv_trans [OF a0 a1]] by simp
  have "adv {} (add_inflight (- 1) s1) s'"
    using Cons.IH [OF r adv_sane [OF a2]] Cons.prems adv_cancelled [OF a2] by simp
  then show ?case by (rule adv_trans [OF a2])
qed simp

lemma handle_each_delivered:
  assumes "handle_each f c msgs s = Some s'" "sane s" "\<forall>m \<in> set msgs. valid_msg m"
  shows "delivered msgs s s'"
  using assms
proof (induction msgs arbitrary: s)
  case Nil
  then show ?case by (intro deliveredI [of "[]"]) auto
next
  case (Cons msg msgs)
  let ?s = "add_inflight 1 s"
  from Cons.prems(1) obtain s1 where h: "handleMessage f c msg ?s = Some s1"
    and r: "handle_each f c msgs (add_inflight (- 1) s1) = Some s'"
    by (auto simp: bind_eq_Some_conv)
  let ?s1 = "add_inflight (- 1) s1"
  have a0: "adv {} s ?s" by simp
  have "delivered [msg] ?s s1" by (rule handleMessage_delivered [OF h adv_sane [OF a0 Cons.prems(2)]])
  then have "delivered [msg] s ?s1"
    using delivered_pre [OF a0] delivered_post by (metis adv_emit(2))
  note d = this
  have sane: "sane ?s1" using delivered_adv [OF d] Cons.prems(2) by (rule adv_sane)
  show ?case
  proof (cases "cancelled c ?s1")
    case True
    from handle_each_cancelled [OF r sane] Cons.prems(3) True delivered_stop [OF d True]
    show ?thesis by simp
  next
    case False
    from delivered_append [OF d False Cons.IH [OF r sane]] Cons.prems(3) show ?thesis by simp
  qed
qed

text \<open>The batch: \<open>parsed msgs ts\<close> says that \<open>ts\<close> are the transactions of \<open>msgs\<close>.\<close>

definition parsed :: "kmsg list \<Rightarrow> transaction list \<Rightarrow> bool" where
  "parsed msgs ts \<longleftrightarrow> map parseAndValidateMsg msgs = map Inr ts"

lemma parsed_valid: "parsed msgs ts \<Longrightarrow> \<forall>m \<in> set msgs. valid_msg m"
  unfolding parsed_def valid_msg_def by (auto simp: list_eq_iff_nth_eq in_set_conv_nth) 

lemma parsed_done_with:
  assumes "parsed msgs ts" "set ts \<subseteq> stored (wld s)" "m \<in> set msgs"
  shows "done_with s m"
proof -
  from assms(1,3) have "parseAndValidateMsg m \<in> set (map Inr ts)"
    unfolding parsed_def by (metis imageI list.set_map)
  with assms(2) show ?thesis by (auto simp: done_with_def handled_def)
qed

lemma bulk_attempts_spec:
  assumes "bulk_attempts c ts n a bulkErr s = Some (s', res)" "0 < n \<or> bulkErr \<noteq> None" "ts \<noteq> []"
  shows "adv {} s s' \<and> (res = BulkStopped \<longrightarrow> cancelled c s')
    \<and> (res = BulkDone None \<longrightarrow> set ts \<subseteq> stored (wld s'))
    \<and> (0 < n \<and> cancelled c s \<longrightarrow> res = BulkStopped)"
  using assms
proof (induction n arbitrary: a bulkErr s)
  case (Suc n)
  obtain w err where reg:
    "Registers (c_out c) (millis (ProcessTimeoutMs (c_cfg c))) ts (wld s) = (w, err)"
    by (metis surj_pair)
  let ?s = "s\<lparr>wld := w\<rparr>"
  have av: "adv {} s ?s" using adv_registers [OF reg] .
  show ?case
  proof (cases err)
    case None
    with Suc.prems(1) reg have "s' = ?s" "res = BulkDone None" by simp_all
    moreover have "\<not> cancelled c s"
      using registers_done [where w = "wld s" and ts = ts] reg None Suc.prems(3)
      by (metis cancelled_def snd_conv)
    ultimately show ?thesis using av registers_ok [OF reg [unfolded None]] by simp
  next
    case (Some e)
    consider (stop) "cancelled c ?s" | (giveup) "\<not> cancelled c ?s" "\<not> Retryable (Classify e)"
      | (again) "\<not> cancelled c ?s" "Retryable (Classify e)" by blast
    then show ?thesis
    proof cases
      case stop
      with Suc.prems(1) reg Some av show ?thesis by (auto simp: Let_def)
    next
      case giveup
      with Suc.prems(1) reg Some av adv_cancelled [OF av] show ?thesis by (auto simp: Let_def)
    next
      case again
      let ?s2 = "emit (retries_total ''process_bulk_error'') ?s"
      from again Suc.prems(1) reg Some obtain s3 where sl: "sleepBackoff c a ?s2 = Some s3"
        and rest: "bulk_attempts c ts n (a + 1) (Some e) s3 = Some (s', res)"
        by (auto simp: Let_def bind_eq_Some_conv)
      have "adv {} s s3" using av adv_sleepBackoff [OF sl] by (meson adv_emit(1) adv_trans)
      with Suc.IH [OF rest _ Suc.prems(3)] again adv_cancelled [OF av] adv_trans show ?thesis by blast
    qed
  qed
qed auto

lemma bulk_commit_loop_spec:
  assumes "bulk_commit_loop f c msgs s = Some s'"
  shows "adv (set msgs) s s' \<and> (\<not> cancelled c s' \<longrightarrow> set msgs \<subseteq> committed (wld s'))"
  using assms
proof (induction f arbitrary: s)
  case (Suc f)
  obtain w e where cm: "CommitMessages (c_out c) msgs (wld s) = (w, e)" by (metis surj_pair)
  let ?s = "s\<lparr>wld := w\<rparr>"
  from adv_commit [OF cm] have av: "adv (set msgs) s ?s" .
  show ?case
  proof (cases "e = None \<or> cancelled c ?s")
    case True
    have "adv (set msgs) s (emit m ?s)" for m by (rule adv_trans [OF av]) simp
    with True Suc.prems cm av commit_ok [of msgs "wld s" w] show ?thesis
      by (auto simp: Let_def emit_def split: if_splits)
  next
    case False
    with Suc.prems cm obtain s2 where p: "pauseWithJitter c ?s = Some s2"
      and l: "bulk_commit_loop f c msgs s2 = Some s'"
      by (auto simp: Let_def bind_eq_Some_conv)
    from Suc.IH [OF l] adv_trans [OF av adv_pause [OF p]] adv_trans show ?thesis by blast
  qed
qed simp

lemma flush_body_cases:
  assumes "flush_body f c msgs ts s = Some s'" "sane s" "msgs \<noteq> []" "parsed msgs ts"
  obtains (stop) "adv {} s s'" "cancelled c s'"
  | (bulk) s2 where "adv {} s s2" "set ts \<subseteq> stored (wld s2)" "bulk_commit_loop f c msgs s2 = Some s'"
      "\<not> cancelled c s"
  | (each) s2 s3 where "adv {} s s2" "handle_each f c msgs s2 = Some s3" "adv {} s3 s'"
      "\<not> cancelled c s"
proof -
  obtain s1 t0 where n: "c_now c s = (s1, t0)" by (metis surj_pair)
  from assms(1) n obtain s2 res where
    b: "bulk_attempts c ts (nat (MaxProcessRetries (c_cfg c) + 1)) 0 None s1 = Some (s2, res)"
    by (auto simp: flush_body_def Let_def bind_eq_Some_conv)
  from assms(3,4) have "ts \<noteq> []" by (auto simp: parsed_def)
  with bulk_attempts_spec [OF b] retries have sp: "adv {} s1 s2" "res = BulkStopped \<longrightarrow> cancelled c s2"
    "res = BulkDone None \<longrightarrow> set ts \<subseteq> stored (wld s2)" "cancelled c s1 \<longrightarrow> res = BulkStopped"
    by auto
  have a2: "adv {} s s2" using adv_trans adv_now [OF n] sp(1) by blast
  show ?thesis
  proof (cases res)
    case BulkStopped
    with assms(1) n b have "s' = s2" by (simp add: flush_body_def Let_def)
    with BulkStopped sp(2) a2 stop show ?thesis by simp
  next
    case (BulkDone err)
    then have nc: "\<not> cancelled c s" using sp(4) adv_cancelled [OF adv_now [OF n]] by auto
    show ?thesis
    proof (cases err)
      case None
      let ?s3 = "set_last_success c
        (observe_processing c [(''result'', ''processed''), (''mode'', ''bulk'')] t0 s2)"
      have "adv {} s2 ?s3" by (meson adv_observe(1,2) adv_trans)
      moreover from this have "set ts \<subseteq> stored (wld ?s3)"
        using sp(3) BulkDone None by (auto simp: adv_def outside_step_def)
      moreover from assms(1) n b BulkDone None have "bulk_commit_loop f c msgs ?s3 = Some s'"
        by (simp add: flush_body_def Let_def)
      ultimately show ?thesis using bulk nc adv_trans [OF a2] by blast
    next
      case (Some e)
      let ?n = "of_nat (length msgs)"
      from assms(1) n b BulkDone Some obtain s3 where
        "handle_each f c msgs (add_inflight (- ?n) s2) = Some s3" "s' = add_inflight ?n s3"
        by (auto simp: flush_body_def Let_def bind_eq_Some_conv)
      then show ?thesis using each nc adv_trans [OF a2] by (metis adv_emit(2))
    qed
  qed
qed

lemma flush_body_delivered:
  assumes "flush_body f c msgs ts s = Some s'" "sane s" "msgs \<noteq> []" "parsed msgs ts"
  shows "delivered msgs s s'" and "cancelled c s \<Longrightarrow> adv {} s s'"
proof -
  show "delivered msgs s s'" using assms
  proof (cases rule: flush_body_cases)
    case stop
    then show ?thesis by (rule delivered_nothing)
  next
    case (bulk s2)
    from bulk_commit_loop_spec [OF bulk(3)] have "adv (set msgs) s2 s'"
      "\<not> cancelled c s' \<Longrightarrow> set msgs \<subseteq> committed (wld s')" by auto
    then have "delivered msgs s2 s'"
      using adv_done_with parsed_done_with [OF assms(4) bulk(2)]
      by (intro deliveredI [of msgs]) auto
    with bulk(1) show ?thesis by (rule delivered_pre)
  next
    case (each s2 s3)
    have "delivered msgs s2 s3"
      using handle_each_delivered [OF each(2)] adv_sane [OF each(1)] assms(2) parsed_valid [OF assms(4)]
      by blast
    then show ?thesis using delivered_pre [OF each(1)] delivered_post each(3) by blast
  qed
  show "adv {} s s'" if "cancelled c s"
    using assms by (cases rule: flush_body_cases) (use that in auto)
qed

lemma flushBatch_delivered:
  assumes "flushBatch f c msgs ts s = Some s'" "sane s" "parsed msgs ts"
  shows "delivered msgs s s'" and "cancelled c s \<Longrightarrow> adv {} s s'"
proof -
  have "delivered msgs s s' \<and> (cancelled c s \<longrightarrow> adv {} s s')"
  proof (cases "msgs = []")
    case True
    with assms(1) show ?thesis by (auto simp: flushBatch_def intro!: deliveredI [of "[]"])
  next
    case False
    let ?n = "of_nat (length msgs)"
    let ?s = "show_inflight (add_inflight ?n s)"
    have a0: "adv {} s ?s" by (meson adv_emit(2,3) adv_trans)
    from assms(1) False obtain s1 where b: "flush_body f c msgs ts ?s = Some s1"
      and s': "s' = show_inflight (add_inflight (- ?n) s1)"
      by (auto simp: flushBatch_def Let_def bind_eq_Some_conv)
    have a1: "adv {} s1 s'" unfolding s' by (meson adv_emit(2,3) adv_trans)
    from flush_body_delivered [OF b adv_sane [OF a0 assms(2)] False assms(3)]
    have d: "delivered msgs ?s s1" "cancelled c ?s \<Longrightarrow> adv {} ?s s1" by auto
    from delivered_post [OF delivered_pre [OF a0 d(1)] a1] have "delivered msgs s s'" .
    moreover have "adv {} s s'" if "cancelled c s"
      using adv_trans [OF adv_trans [OF a0 d(2) [OF adv_cancelled [OF a0 that]]] a1] .
    ultimately show ?thesis by blast
  qed
  then show "delivered msgs s s'" "cancelled c s \<Longrightarrow> adv {} s s'" by auto
qed

end

end
