(* ===== verification/Worker.thy ===== *)
theory Worker
  imports Delivery
begin

text \<open>
  The partition worker: what a run over any sequence of messages, ticks and the end of the
  channel guarantees.
\<close>

text \<open>The messages of a sequence of events, in order.\<close>

fun received :: "worker_event list \<Rightarrow> kmsg list" where
  "received [] = []"
| "received (Recv m # evs) = m # received evs"
| "received (ChanClosed # evs) = received evs"
| "received (Tick # evs) = received evs"

lemma received_append [simp]: "received (evs @ evs') = received evs @ received evs'"
  by (induction evs rule: received.induct) simp_all

context kafka_consumer
begin

text \<open>Whatever was newly committed is handled.\<close>

definition accounted :: "'w cstate \<Rightarrow> 'w cstate \<Rightarrow> bool" where
  "accounted s s' \<longleftrightarrow> (\<exists>C. adv C s s' \<and> (\<forall>m \<in> C. done_with s' m))"

lemma accounted_refl [simp]: "accounted s s"
  unfolding accounted_def by (rule exI [of _ "{}"]) simp

lemma delivered_accounted: "delivered ms s s' \<Longrightarrow> accounted s s'"
  unfolding delivered_def accounted_def by blast

lemma adv_accounted: "adv {} s s' \<Longrightarrow> accounted s s'"
  unfolding accounted_def by blast

lemma accounted_trans:
  assumes "accounted s s'" "accounted s' s''"
  shows "accounted s s''"
proof -
  from assms obtain C D where
    C: "adv C s s'" "\<forall>m \<in> C. done_with s' m" and D: "adv D s' s''" "\<forall>m \<in> D. done_with s'' m"
    by (auto simp: accounted_def)
  have "adv (C \<union> D) s s''"
    by (rule adv_trans [OF adv_mono [OF C(1)] adv_mono [OF D(1)]]) auto
  moreover have "\<forall>m \<in> C \<union> D. done_with s'' m"
    using C(2) D adv_done_with [OF D(1)] by auto
  ultimately show ?thesis unfolding accounted_def by blast
qed

lemma accounted_sane: "\<lbrakk>accounted s s'; sane s\<rbrakk> \<Longrightarrow> sane s'"
  unfolding accounted_def using adv_sane by blast

lemma accounted_cancelled: "\<lbrakk>accounted s s'; cancelled c s\<rbrakk> \<Longrightarrow> cancelled c s'"
  unfolding accounted_def using adv_cancelled by blast

text \<open>
  The invariant of a worker that started in \<open>s0\<close> and received \<open>rs\<close>: a first part of \<open>rs\<close> was
  delivered, and the rest is the batch, as long as the worker and the application run.
\<close>

definition worker_inv :: "'w cstate \<Rightarrow> kmsg list \<Rightarrow> worker \<Rightarrow> 'w cstate \<Rightarrow> bool" where
  "worker_inv s0 rs wk s \<longleftrightarrow>
     (\<exists>hist pend. rs = hist @ pend \<and> delivered hist s0 s
        \<and> (\<not> cancelled c s \<and> \<not> w_stopped wk \<longrightarrow> pend = batchMsgs wk))"

definition batch_ok :: "worker \<Rightarrow> bool" where
  "batch_ok wk \<longleftrightarrow> parsed (batchMsgs wk) (batchDomains wk)"

lemma batch_ok_new [simp]: "batch_ok new_worker"
  by (simp add: batch_ok_def new_worker_def parsed_def)

lemma worker_invI:
  "\<lbrakk>rs = hist @ pend; delivered hist s0 s;
    \<lbrakk>\<not> cancelled c s; \<not> w_stopped wk\<rbrakk> \<Longrightarrow> pend = batchMsgs wk\<rbrakk> \<Longrightarrow> worker_inv s0 rs wk s"
  unfolding worker_inv_def by blast

lemma flush_step:
  assumes "flush f c wk s = Some (wk', s')" "batch_ok wk" "sane s"
  shows "accounted s s'" and "batch_ok wk'" and "w_stopped wk' = w_stopped wk"
    and "batchMsgs wk' = []"
    and "\<not> cancelled c s \<Longrightarrow> delivered (batchMsgs wk) s s'"
    and "cancelled c s \<Longrightarrow> adv {} s s'"
proof -
  have "batch_ok wk' \<and> w_stopped wk' = w_stopped wk \<and> batchMsgs wk' = []
    \<and> delivered (batchMsgs wk) s s' \<and> (cancelled c s \<longrightarrow> adv {} s s')"
  proof (cases "batchMsgs wk = []")
    case True
    with assms(1,2) show ?thesis by (auto simp: flush_def intro!: deliveredI [of "[]"])
  next
    case False
    with assms(1) have "flushBatch f c (batchMsgs wk) (batchDomains wk) s = Some s'"
      "wk' = wk\<lparr>batchMsgs := [], batchDomains := []\<rparr>"
      by (auto simp: flush_def bind_eq_Some_conv)
    with flushBatch_delivered [OF this(1) assms(3)] assms(2) show ?thesis
      by (simp add: batch_ok_def parsed_def)
  qed
  then show "accounted s s'" "batch_ok wk'" "w_stopped wk' = w_stopped wk" "batchMsgs wk' = []"
    "\<not> cancelled c s \<Longrightarrow> delivered (batchMsgs wk) s s'" "cancelled c s \<Longrightarrow> adv {} s s'"
    using delivered_accounted by blast+
qed

lemma flush_inv:
  assumes "flush f c wk s = Some (wk', s')" "batch_ok wk" "sane s" "worker_inv s0 rs wk s" "\<not> w_stopped wk"
  shows "worker_inv s0 rs wk' s'" and "\<not> cancelled c s \<Longrightarrow> delivered rs s0 s'"
proof -
  note st = flush_step [OF assms(1-3)]
  from assms(4) obtain hist pend where h: "rs = hist @ pend" "delivered hist s0 s"
    "\<not> cancelled c s \<Longrightarrow> pend = batchMsgs wk" using assms(5) by (auto simp: worker_inv_def)
  have live: "delivered rs s0 s'" if "\<not> cancelled c s"
    using delivered_append [OF h(2) that st(5) [OF that]] h(1,3) that by simp
  then show "\<not> cancelled c s \<Longrightarrow> delivered rs s0 s'" .
  show "worker_inv s0 rs wk' s'"
  proof (cases "cancelled c s")
    case True
    with accounted_cancelled [OF st(1)] delivered_post [OF h(2) st(6)] h(1) show ?thesis
      by (auto intro: worker_invI)
  next
    case False
    with live st(4) show ?thesis by (intro worker_invI [of rs rs "[]"]) auto
  qed
qed

text \<open>The steps of the loop.\<close>

lemma recv_bad:
  assumes "worker_recv f c msg wk s = Some (wk', s')" "\<not> cancelled c s" "\<not> valid_msg msg"
  obtains wk1 s1 s2 where "flush f c wk s = Some (wk1, s1)"
    "handleMessage f c msg (show_inflight (add_inflight 1 s1)) = Some s2"
    "wk' = wk1" "s' = show_inflight (add_inflight (- 1) s2)"
proof -
  from assms(3) obtain e where "parseAndValidateMsg msg = Inl e"
    by (cases "parseAndValidateMsg msg") (auto simp: valid_msg_def)
  with assms(1,2) that show ?thesis by (auto simp: worker_recv_def bind_eq_Some_conv)
qed

lemma recv_valid:
  assumes "worker_recv f c msg wk s = Some (wk', s')" "\<not> cancelled c s" "valid_msg msg" "batch_ok wk"
  obtains wk1 where "batch_ok wk1" "batchMsgs wk1 = batchMsgs wk @ [msg]" "w_stopped wk1 = w_stopped wk"
    "flush f c wk1 s = Some (wk', s') \<or> wk' = wk1 \<and> s' = s"
proof -
  from assms(3) obtain t where t: "parseAndValidateMsg msg = Inr t" by (auto simp: valid_msg_def)
  let ?wk = "wk\<lparr>batchMsgs := batchMsgs wk @ [msg], batchDomains := batchDomains wk @ [t]\<rparr>"
  from assms(4) t have "batch_ok ?wk" by (simp add: batch_ok_def parsed_def)
  moreover from assms(1,2) t have "flush f c ?wk s = Some (wk', s') \<or> wk' = ?wk \<and> s' = s"
    by (auto simp: worker_recv_def Let_def split: if_splits)
  ultimately show ?thesis using that [of ?wk] by simp
qed

lemma handle_counted:
  assumes "handleMessage f c msg (show_inflight (add_inflight 1 s1)) = Some s2" "sane s1"
  shows "delivered [msg] s1 (show_inflight (add_inflight (- 1) s2))"
proof -
  have a: "adv {} s (show_inflight (add_inflight n s))" for n s by (meson adv_emit(2,3) adv_trans)
  from handleMessage_delivered [OF assms(1) adv_sane [OF a assms(2)]]
  have "delivered [msg] (show_inflight (add_inflight 1 s1)) s2" .
  from delivered_post [OF delivered_pre [OF a this] a] show ?thesis .
qed

lemma recv_accounted:
  assumes "worker_recv f c msg wk s = Some (wk', s')" "batch_ok wk" "sane s"
  shows "accounted s s' \<and> batch_ok wk'"
proof -
  consider (stop) "cancelled c s" | (bad) "\<not> cancelled c s" "\<not> valid_msg msg"
    | (valid) "\<not> cancelled c s" "valid_msg msg" by blast
  then show ?thesis
  proof cases
    case stop
    with assms show ?thesis by (auto simp: worker_recv_def batch_ok_def)
  next
    case bad
    obtain wk1 s1 s2 where r: "flush f c wk s = Some (wk1, s1)"
      "handleMessage f c msg (show_inflight (add_inflight 1 s1)) = Some s2"
      "wk' = wk1" "s' = show_inflight (add_inflight (- 1) s2)"
      using recv_bad [OF assms(1) bad] .
    note st = flush_step [OF r(1) assms(2,3)]
    from handle_counted [OF r(2) accounted_sane [OF st(1) assms(3)]] r(3,4) st(1,2) show ?thesis
      using accounted_trans delivered_accounted by blast
  next
    case valid
    obtain wk1 where r: "batch_ok wk1" "flush f c wk1 s = Some (wk', s') \<or> wk' = wk1 \<and> s' = s"
      using recv_valid [OF assms(1) valid assms(2)] by metis
    with flush_step [OF _ r(1) assms(3)] show ?thesis by auto
  qed
qed

lemma recv_inv:
  assumes "worker_recv f c msg wk s = Some (wk', s')" "batch_ok wk" "sane s"
    and inv: "worker_inv s0 rs wk s" "\<not> w_stopped wk" and ok: "valid_msg msg \<or> \<not> cancelled c s'"
  shows "worker_inv s0 (rs @ [msg]) wk' s'"
proof -
  from inv obtain hist pend where h: "rs = hist @ pend" "delivered hist s0 s"
    "\<not> cancelled c s \<Longrightarrow> pend = batchMsgs wk" by (auto simp: worker_inv_def)
  consider (stop) "cancelled c s" | (bad) "\<not> cancelled c s" "\<not> valid_msg msg"
    | (valid) "\<not> cancelled c s" "valid_msg msg" by blast
  then show ?thesis
  proof cases
    case stop
    with assms(1) h show ?thesis
      by (auto simp: worker_recv_def intro!: worker_invI [of _ hist "pend @ [msg]"])
  next
    case bad
    obtain wk1 s1 s2 where r: "flush f c wk s = Some (wk1, s1)"
      "handleMessage f c msg (show_inflight (add_inflight 1 s1)) = Some s2"
      "wk' = wk1" "s' = show_inflight (add_inflight (- 1) s2)"
      using recv_bad [OF assms(1) bad] .
    note st = flush_step [OF r(1) assms(2,3)]
    from handle_counted [OF r(2) accounted_sane [OF st(1) assms(3)]] r(4)
    have d: "delivered [msg] s1 s'" by simp
    from ok bad(2) have "\<not> cancelled c s1"
      using accounted_cancelled [OF delivered_accounted [OF d]] by blast
    from delivered_append [OF flush_inv(2) [OF r(1) assms(2,3) inv bad(1)] this d] st(4) r(3)
    show ?thesis by (intro worker_invI [of _ "rs @ [msg]" "[]"]) auto
  next
    case valid
    obtain wk1 where r: "batch_ok wk1" "batchMsgs wk1 = batchMsgs wk @ [msg]" "w_stopped wk1 = w_stopped wk"
      "flush f c wk1 s = Some (wk', s') \<or> wk' = wk1 \<and> s' = s"
      using recv_valid [OF assms(1) valid assms(2)] .
    have "worker_inv s0 (rs @ [msg]) wk1 s"
      using h valid(1) r(2) by (intro worker_invI [of _ hist "batchMsgs wk1"]) auto
    with flush_inv(1) [OF _ r(1) assms(3) this] r(3,4) inv(2) show ?thesis by auto
  qed
qed

text \<open>Runs.\<close>

lemma step_accounted:
  assumes "partitionWorker f c ev wk s = Some (wk', s')" "batch_ok wk" "sane s"
  shows "accounted s s' \<and> batch_ok wk'"
proof (cases "w_stopped wk")
  case True
  with assms show ?thesis by (auto simp: partitionWorker_def)
next
  case False
  show ?thesis
  proof (cases ev)
    case (Recv m)
    with assms False recv_accounted show ?thesis by (simp add: partitionWorker_def)
  next
    case ChanClosed
    with assms False show ?thesis by (auto simp: partitionWorker_def batch_ok_def)
  next
    case Tick
    with assms False flush_step(1,2) show ?thesis by (auto simp: partitionWorker_def)
  qed
qed

lemma step_inv:
  assumes "partitionWorker f c ev wk s = Some (wk', s')" "batch_ok wk" "sane s"
    and inv: "worker_inv s0 rs wk s" and ok: "(\<forall>m \<in> set (received [ev]). valid_msg m) \<or> \<not> cancelled c s'"
  shows "worker_inv s0 (rs @ received [ev]) wk' s'"
proof (cases "w_stopped wk")
  case True
  from inv obtain hist pend where "rs = hist @ pend" "delivered hist s0 s" by (auto simp: worker_inv_def)
  with True assms(1) show ?thesis
    by (auto simp: partitionWorker_def intro!: worker_invI [of _ hist "pend @ received [ev]"])
next
  case False
  show ?thesis
  proof (cases ev)
    case (Recv m)
    with assms(1) False have "worker_recv f c m wk s = Some (wk', s')" by (simp add: partitionWorker_def)
    from recv_inv [OF this assms(2,3) inv False] ok Recv show ?thesis by simp
  next
    case ChanClosed
    from inv obtain hist pend where "rs = hist @ pend" "delivered hist s0 s" by (auto simp: worker_inv_def)
    with assms(1) False ChanClosed show ?thesis
      by (auto simp: partitionWorker_def intro!: worker_invI [of _ hist pend])
  next
    case Tick
    with assms(1) False have "flush f c wk s = Some (wk', s')" by (simp add: partitionWorker_def)
    from flush_inv(1) [OF this assms(2,3) inv False] Tick show ?thesis by simp
  qed
qed

lemma run_accounted:
  assumes "worker_run f c evs wk s = Some (wk', s')" "batch_ok wk" "sane s"
  shows "accounted s s' \<and> batch_ok wk'"
  using assms
proof (induction evs arbitrary: wk s)
  case (Cons ev evs)
  from Cons.prems(1) obtain wk1 s1 where st: "partitionWorker f c ev wk s = Some (wk1, s1)"
    and r: "worker_run f c evs wk1 s1 = Some (wk', s')" by (auto simp: bind_eq_Some_conv)
  from step_accounted [OF st Cons.prems(2,3)] have "accounted s s1" "batch_ok wk1" by auto
  with Cons.IH [OF r] accounted_sane Cons.prems(3) accounted_trans show ?case by blast
qed simp

lemma received_Cons: "received (ev # evs) = received [ev] @ received evs"
  by (cases ev) simp_all

lemma run_inv:
  assumes "worker_run f c evs wk s = Some (wk', s')" "batch_ok wk" "sane s" "worker_inv s0 rs wk s"
    and "(\<forall>m \<in> set (received evs). valid_msg m) \<or> \<not> cancelled c s'"
  shows "worker_inv s0 (rs @ received evs) wk' s'"
  using assms
proof (induction evs arbitrary: wk s rs)
  case (Cons ev evs)
  from Cons.prems(1) obtain wk1 s1 where st: "partitionWorker f c ev wk s = Some (wk1, s1)"
    and r: "worker_run f c evs wk1 s1 = Some (wk', s')" by (auto simp: bind_eq_Some_conv)
  from step_accounted [OF st Cons.prems(2,3)] have a: "accounted s s1" "batch_ok wk1" by auto
  have sane: "sane s1" using accounted_sane [OF a(1) Cons.prems(3)] .
  have "(\<forall>m \<in> set (received [ev]). valid_msg m) \<or> \<not> cancelled c s1"
    using Cons.prems(5) accounted_cancelled run_accounted [OF r a(2) sane] received_Cons [of ev evs] by auto
  from step_inv [OF st Cons.prems(2,3,4) this] Cons.IH [OF r a(2) sane, of "rs @ received [ev]"]
    Cons.prems(5) received_Cons [of ev evs]
  show ?case by auto
qed simp

lemma worker_inv_start: "worker_inv s [] new_worker s"
  by (rule worker_invI [of _ "[]" "[]"]) (auto simp: new_worker_def intro: deliveredI [of "[]"])

lemma run_committed:
  assumes "worker_run f c evs new_worker s = Some (wk, s')" "fatal s = None"
    and "m \<in> committed (wld s')" "m \<notin> committed (wld s)"
  shows "handled (stored (wld s')) (dlq (wld s')) m"
proof -
  have "sane s" using assms(2) by (simp add: sane_def)
  from run_accounted [OF assms(1) batch_ok_new this] obtain C where
    "adv C s s'" "\<forall>m \<in> C. done_with s' m" by (auto simp: accounted_def)
  with assms(3,4) adv_committed_le show ?thesis unfolding done_with_def by blast
qed

lemma run_good:
  assumes "worker_run f c evs new_worker s = Some (wk, s')" "fatal s = None" "good (wld s)"
  shows "good (wld s')"
proof -
  have "sane s" using assms(2) by (simp add: sane_def)
  from run_accounted [OF assms(1) batch_ok_new this] obtain C where "adv C s s'"
    by (auto simp: accounted_def)
  then show ?thesis using assms(3) by (rule adv_good)
qed

lemma run_history:
  assumes "worker_run f c evs new_worker s = Some (wk, s')" "fatal s = None"
    and ok: "(\<forall>m \<in> set (received evs). valid_msg m) \<or> CtxErr (c_out c) (wld s') = None"
  shows "\<exists>hist pend. received evs = hist @ pend
    \<and> (\<forall>m \<in> set hist. handled (stored (wld s')) (dlq (wld s')) m)
    \<and> committed (wld s') \<subseteq> committed (wld s) \<union> set hist
    \<and> (CtxErr (c_out c) (wld s') = None \<and> \<not> w_stopped wk
         \<longrightarrow> pend = batchMsgs wk \<and> set hist \<subseteq> committed (wld s'))"
proof -
  have sane: "sane s" using assms(2) by (simp add: sane_def)
  have "worker_inv s (received evs) wk s'"
    using run_inv [OF assms(1) batch_ok_new sane worker_inv_start] ok by (simp add: cancelled_def)
  then obtain hist pend where h: "received evs = hist @ pend" "delivered hist s s'"
    "\<not> cancelled c s' \<and> \<not> w_stopped wk \<longrightarrow> pend = batchMsgs wk"
    unfolding worker_inv_def by blast
  from h(2) obtain ds where d: "prefix ds hist" "adv (set ds) s s'" "\<forall>m \<in> set ds. done_with s' m"
    "\<not> cancelled c s' \<longrightarrow> ds = hist \<and> set hist \<subseteq> committed (wld s')" unfolding delivered_def by blast
  from d(1) obtain zs where z: "hist = ds @ zs" by (rule prefixE)
  show ?thesis
  proof (intro exI conjI)
    show "received evs = ds @ (zs @ pend)" using h(1) z by simp
    show "\<forall>m \<in> set ds. handled (stored (wld s')) (dlq (wld s')) m"
      using d(3) by (simp add: done_with_def)
    show "committed (wld s') \<subseteq> committed (wld s) \<union> set ds" by (rule adv_committed_le [OF d(2)])
    show "CtxErr (c_out c) (wld s') = None \<and> \<not> w_stopped wk
        \<longrightarrow> zs @ pend = batchMsgs wk \<and> set ds \<subseteq> committed (wld s')"
      using h(3) d(4) z by (simp add: cancelled_def)
  qed
qed

text \<open>A worker only stops at the end of its channel or under a cancelled context.\<close>

lemma step_stopped:
  assumes "partitionWorker f c ev wk s = Some (wk', s')" "batch_ok wk" "sane s" "w_stopped wk'"
  shows "w_stopped wk \<or> ev = ChanClosed \<or> cancelled c s'"
proof (cases "w_stopped wk")
  case False
  show ?thesis
  proof (cases ev)
    case (Recv m)
    with assms(1) False have r: "worker_recv f c m wk s = Some (wk', s')" by (simp add: partitionWorker_def)
    show ?thesis
    proof (cases "cancelled c s")
      case True
      with r show ?thesis by (simp add: worker_recv_def)
    next
      case nc: False
      show ?thesis
      proof (cases "valid_msg m")
        case True
        from recv_valid [OF r nc True assms(2)] show ?thesis
          using flush_step(3) [OF _ _ assms(3)] False assms(4) by metis
      next
        case bad: False
        from recv_bad [OF r nc bad] show ?thesis
          using flush_step(3) [OF _ assms(2,3)] False assms(4) by metis
      qed
    qed
  next
    case Tick
    with assms False flush_step(3) show ?thesis by (auto simp: partitionWorker_def)
  qed simp
qed simp

lemma run_stopped:
  assumes "worker_run f c evs wk s = Some (wk', s')" "batch_ok wk" "sane s" "w_stopped wk'"
  shows "w_stopped wk \<or> ChanClosed \<in> set evs \<or> cancelled c s'"
  using assms
proof (induction evs arbitrary: wk s)
  case (Cons ev evs)
  from Cons.prems(1) obtain wk1 s1 where st: "partitionWorker f c ev wk s = Some (wk1, s1)"
    and r: "worker_run f c evs wk1 s1 = Some (wk', s')" by (auto simp: bind_eq_Some_conv)
  from step_accounted [OF st Cons.prems(2,3)] have a: "accounted s s1" "batch_ok wk1" by auto
  have sane: "sane s1" using accounted_sane [OF a(1) Cons.prems(3)] .
  from run_accounted [OF r a(2) sane] have "cancelled c s1 \<Longrightarrow> cancelled c s'"
    using accounted_cancelled by blast
  with Cons.IH [OF r a(2) sane Cons.prems(4)] step_stopped [OF st Cons.prems(2,3)] show ?case by auto
qed simp

text \<open>A tick empties the batch of a worker that runs.\<close>

lemma worker_run_append:
  "worker_run f c (evs @ evs') wk s =
     Option.bind (worker_run f c evs wk s) (\<lambda>(wk, s). worker_run f c evs' wk s)"
  by (induction evs arbitrary: wk s) (auto simp: case_prod_beta split: bind_split)

lemma run_tick_empty:
  assumes "worker_run f c (evs @ [Tick]) new_worker s = Some (wk, s')" "fatal s = None" "\<not> w_stopped wk"
  shows "batchMsgs wk = []"
proof -
  have sane: "sane s" using assms(2) by (simp add: sane_def)
  from assms(1) obtain wk1 s1 where r: "worker_run f c evs new_worker s = Some (wk1, s1)"
    and t: "partitionWorker f c Tick wk1 s1 = Some (wk, s')"
    by (auto simp: worker_run_append bind_eq_Some_conv)
  from run_accounted [OF r batch_ok_new sane] have "batch_ok wk1" "sane s1"
    using accounted_sane sane by auto
  with t assms(3) flush_step(4) show ?thesis by (auto simp: partitionWorker_def split: if_splits)
qed

lemma run_tick_all:
  assumes "worker_run f c (evs @ [Tick]) new_worker s = Some (wk, s')" "fatal s = None"
    and "ChanClosed \<notin> set evs" "CtxErr (c_out c) (wld s') = None"
  shows "\<forall>m \<in> set (received evs). m \<in> committed (wld s') \<and> handled (stored (wld s')) (dlq (wld s')) m"
proof -
  have "\<not> w_stopped wk"
    using run_stopped [OF assms(1) batch_ok_new] assms(2,3,4)
    by (auto simp: sane_def cancelled_def new_worker_def)
  with run_history [OF assms(1,2) disjI2 [OF assms(4)]] run_tick_empty [OF assms(1,2)] assms(4)
  show ?thesis by auto
qed

text \<open>
  What a turn may commit, and an invariant that other workers of the same consumer do not
  disturb.
\<close>

lemma flush_adv:
  assumes "flush f c wk s = Some (wk', s')" "batch_ok wk" "sane s"
  shows "adv (set (batchMsgs wk)) s s'"
  using flush_step(5,6) [OF assms] delivered_adv adv_empty by blast

lemma recv_adv:
  assumes "worker_recv f c msg wk s = Some (wk', s')" "batch_ok wk" "sane s"
  shows "adv (set (batchMsgs wk @ [msg])) s s' \<and> set (batchMsgs wk') \<subseteq> set (batchMsgs wk @ [msg])"
proof -
  consider (stop) "cancelled c s" | (bad) "\<not> cancelled c s" "\<not> valid_msg msg"
    | (valid) "\<not> cancelled c s" "valid_msg msg" by blast
  then show ?thesis
  proof cases
    case stop
    with assms(1) have "s' = s \<and> batchMsgs wk' = batchMsgs wk" by (auto simp: worker_recv_def)
    then show ?thesis by auto
  next
    case bad
    obtain wk1 s1 s2 where r: "flush f c wk s = Some (wk1, s1)"
      "handleMessage f c msg (show_inflight (add_inflight 1 s1)) = Some s2"
      "wk' = wk1" "s' = show_inflight (add_inflight (- 1) s2)"
      using recv_bad [OF assms(1) bad] .
    note st = flush_step [OF r(1) assms(2,3)]
    from delivered_adv [OF handle_counted [OF r(2) accounted_sane [OF st(1) assms(3)]]]
    have "adv {msg} s1 s'" using r(4) by simp
    with flush_adv [OF r(1) assms(2,3)] have "adv (set (batchMsgs wk) \<union> {msg}) s s'"
      by (meson Un_upper1 Un_upper2 adv_mono adv_trans)
    with st(4) r(3) show ?thesis by auto
  next
    case valid
    obtain wk1 where r: "batch_ok wk1" "batchMsgs wk1 = batchMsgs wk @ [msg]"
      "flush f c wk1 s = Some (wk', s') \<or> wk' = wk1 \<and> s' = s"
      using recv_valid [OF assms(1) valid assms(2)] by metis
    from r(3) show ?thesis
    proof
      assume fl: "flush f c wk1 s = Some (wk', s')"
      from flush_adv [OF fl r(1) assms(3)] flush_step(4) [OF fl r(1) assms(3)] r(2) show ?thesis by simp
    qed (use r(2) in simp)
  qed
qed

lemma turn_adv:
  assumes "partitionWorker f c ev wk s = Some (wk', s')" "batch_ok wk" "sane s"
  shows "adv (set (batchMsgs wk @ received [ev])) s s'"
    and "set (batchMsgs wk') \<subseteq> set (batchMsgs wk @ received [ev])"
proof -
  have "adv (set (batchMsgs wk @ received [ev])) s s'
    \<and> set (batchMsgs wk') \<subseteq> set (batchMsgs wk @ received [ev])"
  proof (cases "w_stopped wk")
    case True
    with assms(1) show ?thesis by (auto simp: partitionWorker_def)
  next
    case False
    with assms(1) recv_adv [OF _ assms(2,3)] flush_adv [OF _ assms(2,3)] flush_step(4) [OF _ assms(2,3)]
    show ?thesis by (cases ev) (auto simp: partitionWorker_def)
  qed
  then show "adv (set (batchMsgs wk @ received [ev])) s s'"
    "set (batchMsgs wk') \<subseteq> set (batchMsgs wk @ received [ev])" by auto
qed

lemma worker_inv_env:
  assumes "worker_inv s0 rs wk s" "adv {} s s'"
  shows "worker_inv s0 rs wk s'"
proof -
  from assms(1) obtain hist pend where "rs = hist @ pend" "delivered hist s0 s"
    "\<not> cancelled c s \<and> \<not> w_stopped wk \<longrightarrow> pend = batchMsgs wk" unfolding worker_inv_def by blast
  with delivered_post [OF _ assms(2)] adv_cancelled [OF assms(2)] show ?thesis
    by (intro worker_invI [of _ hist pend]) blast+
qed

lemma worker_inv_cong:
  "\<lbrakk>batchMsgs wk' = batchMsgs wk; w_stopped wk' = w_stopped wk\<rbrakk>
   \<Longrightarrow> worker_inv s0 rs wk' s = worker_inv s0 rs wk s"
  by (simp add: worker_inv_def)

end

end
