(* ===== verification/Repository.thy ===== *)
theory Repository
  imports Boundary Metrics
begin

text \<open>
  \<open>internal/repository\<close>: the PostgreSQL adapter (\<open>postgresql.go\<close>). The driver
  (\<open>database/sql\<close> with \<open>lib/pq\<close>) is a parameter, the record \<open>sql_driver\<close> over a state \<open>'d\<close>
  of the outside world; a context is a value of type \<open>'c\<close>. Every method returns the driver's
  state, the calls it made on the metrics sink, in order, and its Go results.
  What the adapter relies on of the driver is the locale \<open>pg_driver\<close> of theory Table.
\<close>

subsection \<open>Metric names\<close>

abbreviation MetricPostgresQueriesTotal :: string where "MetricPostgresQueriesTotal \<equiv> ''postgres_queries_total''"
abbreviation MetricPostgresQueryDurationMs :: string where "MetricPostgresQueryDurationMs \<equiv> ''postgres_query_duration_ms''"
abbreviation MetricPostgresConnectionAttempts :: string where "MetricPostgresConnectionAttempts \<equiv> ''postgres_connection_attempts_total''"

subsection \<open>The driver\<close>

text \<open>A bound argument of a statement; \<open>ArgTime\<close> is a \<open>sql.NullTime\<close>.\<close>

datatype sql_arg = ArgInt int64 | ArgStr string | ArgTime "gotime option"

text \<open>The five columns that \<open>rows.Scan\<close> reads.\<close>

type_synonym scanned = "int64 \<times> string \<times> int64 \<times> gotime option \<times> gotime"

text \<open>
  The cursor of a query: what each \<open>Scan\<close> after a true \<open>Next\<close> gives, and what \<open>Err\<close> and
  \<open>Close\<close> report.
\<close>

record sql_rows =
  Scans :: "(goerr + scanned) list"
  RowsErr :: "goerr option"
  RowsClose :: "goerr option"

record ('d, 'c) sql_driver =
  ExecContext :: "'d \<Rightarrow> 'c \<Rightarrow> string \<Rightarrow> sql_arg list \<Rightarrow> 'd \<times> goerr option"
  QueryContext :: "'d \<Rightarrow> 'c \<Rightarrow> string \<Rightarrow> sql_arg list \<Rightarrow> 'd \<times> (goerr + sql_rows)"
  OpenDB :: "'d \<Rightarrow> string \<Rightarrow> 'd \<times> goerr option"
  SetPool :: "'d \<Rightarrow> int \<Rightarrow> int \<Rightarrow> int \<Rightarrow> 'd"
  PingDB :: "'d \<Rightarrow> 'd \<times> goerr option"
  CloseDB :: "'d \<Rightarrow> 'd \<times> goerr option"
  TimeNow :: "'d \<Rightarrow> 'd \<times> gotime"

text \<open>
  The receiver: \<open>None\<close> is a nil \<open>*PostgresRepo\<close>; a non-nil one may have a nil \<open>db\<close> or a nil
  metrics sink.
\<close>

record postgres_repo =
  repo_db :: bool
  repo_metrics :: bool

definition nil_db :: "postgres_repo option \<Rightarrow> bool" where
  "nil_db r \<longleftrightarrow> (case r of None \<Rightarrow> True | Some p \<Rightarrow> \<not> repo_db p)"

definition nil_metrics :: "postgres_repo option \<Rightarrow> bool" where
  "nil_metrics r \<longleftrightarrow> (case r of None \<Rightarrow> True | Some p \<Rightarrow> \<not> repo_metrics p)"

subsection \<open>Metrics\<close>

definition incQueryCounter :: "postgres_repo option \<Rightarrow> string \<Rightarrow> string \<Rightarrow> string \<Rightarrow> metric_call list" where
  "incQueryCounter r operation result reason =
     (if nil_metrics r then []
      else [IncCounter MetricPostgresQueriesTotal
              ([(''operation'', operation), (''result'', result)]
               @ (if reason \<noteq> [] then [(''reason'', reason)] else [])) 1])"

text \<open>The deferred \<open>observeDuration\<close> reads the clock again (only) when it has a sink.\<close>

definition observeDuration ::
  "('d, 'c) sql_driver \<Rightarrow> postgres_repo option \<Rightarrow> string \<Rightarrow> gotime \<Rightarrow> 'd \<Rightarrow> 'd \<times> metric_call list" where
  "observeDuration drv r operation startedAt d =
     (if nil_metrics r then (d, [])
      else let (d, t) = TimeNow drv d in
        (d, [ObserveDuration MetricPostgresQueryDurationMs [(''operation'', operation)]
               (time_Sub t startedAt)]))"

text \<open>
  The frame of the three methods: read the clock, run the body, then the deferred observation.
\<close>

definition timed ::
  "('d, 'c) sql_driver \<Rightarrow> postgres_repo option \<Rightarrow> string
    \<Rightarrow> ('d \<Rightarrow> 'd \<times> metric_call list \<times> 'r) \<Rightarrow> 'd \<Rightarrow> 'd \<times> metric_call list \<times> 'r" where
  "timed drv r operation body d =
     (let (d, startedAt) = TimeNow drv d;
          (d, ms, res) = body d;
          (d, ms') = observeDuration drv r operation startedAt d
      in (d, ms @ ms', res))"

subsection \<open>Writing\<close>

text \<open>The time is bound as NULL exactly when it is the zero time.\<close>

definition null_time :: "gotime \<Rightarrow> gotime option" where
  "null_time t = (if \<not> IsZero t then Some t else None)"

definition nl_tab2 :: string where "nl_tab2 = [CHR 0x0A, CHR 0x09, CHR 0x09]"

definition insert_head :: string where
  "insert_head = nl_tab2 @ ''INSERT INTO transactions (user_id, type, amount, timestamp)''
     @ nl_tab2 @ ''VALUES ''"

definition insert_tail :: string where
  "insert_tail = nl_tab2 @ ''ON CONFLICT (user_id, type, amount, timestamp) DO NOTHING''
     @ [CHR 0x0A, CHR 0x09]"

definition save_args :: "transaction \<Rightarrow> sql_arg list" where
  "save_args t = [ArgInt (UserID t), ArgStr (Type t), ArgInt (Amount t), ArgTime (null_time (Timestamp t))]"

definition Save ::
  "('d, 'c) sql_driver \<Rightarrow> postgres_repo option \<Rightarrow> 'c \<Rightarrow> transaction \<Rightarrow> 'd
    \<Rightarrow> 'd \<times> metric_call list \<times> goerr option" where
  "Save drv r ctx t = timed drv r ''save'' (\<lambda>d.
     if nil_db r then
       (d, incQueryCounter r ''save'' ''error'' ''repo_not_initialized'',
        Some (Sentinel ErrRepoNotInitialized))
     else
       let (d, err) = ExecContext drv d ctx
             (insert_head @ ''($1, $2, $3, $4)'' @ insert_tail) (save_args t)
       in case err of
            Some e \<Rightarrow> (d, incQueryCounter r ''save'' ''error'' ''exec'', Some e)
          | None \<Rightarrow> (d, incQueryCounter r ''save'' ''success'' [], None))"

text \<open>The placeholders of the \<open>i\<close>-th tuple (\<open>fmt.Sprintf\<close>), and the loop over the batch.\<close>

definition tuple_text :: "int \<Rightarrow> string" where
  "tuple_text i = ''($'' @ Itoa (i * 4 + 1) @ '', $'' @ Itoa (i * 4 + 2) @ '', $''
     @ Itoa (i * 4 + 3) @ '', $'' @ Itoa (i * 4 + 4) @ '')''"

fun bulk_parts :: "int \<Rightarrow> transaction list \<Rightarrow> string list \<times> sql_arg list" where
  "bulk_parts i [] = ([], [])"
| "bulk_parts i (t # ts) =
     (let (vs, as) = bulk_parts (i + 1) ts in (tuple_text i # vs, save_args t @ as))"

definition SaveBulk ::
  "('d, 'c) sql_driver \<Rightarrow> postgres_repo option \<Rightarrow> 'c \<Rightarrow> transaction list \<Rightarrow> 'd
    \<Rightarrow> 'd \<times> metric_call list \<times> goerr option" where
  "SaveBulk drv r ctx txs = timed drv r ''save_bulk'' (\<lambda>d.
     if nil_db r then
       (d, incQueryCounter r ''save_bulk'' ''error'' ''repo_not_initialized'',
        Some (Sentinel ErrRepoNotInitialized))
     else if txs = [] then (d, [], None)
     else
       let (valueStrings, valueArgs) = bulk_parts 0 txs;
           (d, err) = ExecContext drv d ctx
             (insert_head @ Join valueStrings '','' @ insert_tail) valueArgs
       in case err of
            Some e \<Rightarrow> (d, incQueryCounter r ''save_bulk'' ''error'' ''exec'', Some e)
          | None \<Rightarrow> (d, incQueryCounter r ''save_bulk'' ''success'' [], None))"

subsection \<open>Reading\<close>

definition QueryGetTransactionsBase :: string where
  "QueryGetTransactionsBase =
     nl_tab2 @ ''SELECT user_id, type, amount, timestamp, created_at''
     @ nl_tab2 @ ''FROM transactions'' @ nl_tab2 @ ''WHERE 1=1'' @ [CHR 0x0A, CHR 0x09]"

definition QueryOrderByTimestampDesc :: string where
  "QueryOrderByTimestampDesc = '' ORDER BY timestamp DESC NULLS LAST''"

text \<open>The filters appended so far: the condition texts and their arguments, numbered by count.\<close>

definition add_cond :: "string \<Rightarrow> sql_arg \<Rightarrow> string list \<times> sql_arg list \<Rightarrow> string list \<times> sql_arg list" where
  "add_cond col a st =
     (let (conds, args) = st; args = args @ [a] in
      (conds @ [col @ '' = $'' @ Itoa (int (length args))], args))"

definition get_conds :: "int64 \<Rightarrow> TransactionType option \<Rightarrow> string list \<times> sql_arg list" where
  "get_conds userID tType =
     (let st = ([], []);
          st = (if 0 <s userID then add_cond ''user_id'' (ArgInt userID) st else st)
      in case tType of None \<Rightarrow> st | Some ty \<Rightarrow> add_cond ''type'' (ArgStr ty) st)"

definition get_query :: "string list \<Rightarrow> string" where
  "get_query conds =
     QueryGetTransactionsBase
     @ (if conds \<noteq> [] then '' AND '' @ Join conds '' AND '' else [])
     @ QueryOrderByTimestampDesc"

definition tx_of_scan :: "scanned \<Rightarrow> transaction" where
  "tx_of_scan row =
     (case row of (uid, ty, amount, ts, created) \<Rightarrow>
        \<lparr>ID = 0, UserID = uid, Type = ty, Amount = amount,
         Timestamp = (case ts of Some t \<Rightarrow> t | None \<Rightarrow> zero_time), CreatedAt = created\<rparr>)"

text \<open>The loop over the cursor stops at the first row that does not scan.\<close>

fun scan_rows :: "(goerr + scanned) list \<Rightarrow> goerr + transaction list" where
  "scan_rows [] = Inr []"
| "scan_rows (Inl e # rs) = Inl e"
| "scan_rows (Inr row # rs) =
     (case scan_rows rs of Inl e \<Rightarrow> Inl e | Inr ts \<Rightarrow> Inr (tx_of_scan row # ts))"

definition Get ::
  "('d, 'c) sql_driver \<Rightarrow> postgres_repo option \<Rightarrow> 'c \<Rightarrow> int64 \<Rightarrow> TransactionType option \<Rightarrow> 'd
    \<Rightarrow> 'd \<times> metric_call list \<times> (goerr + transaction list)" where
  "Get drv r ctx userID tType = timed drv r ''get'' (\<lambda>d.
     if nil_db r then
       (d, incQueryCounter r ''get'' ''error'' ''repo_not_initialized'',
        Inl (Sentinel ErrRepoNotInitialized))
     else
       let (conditions, args) = get_conds userID tType;
           (d, res) = QueryContext drv d ctx (get_query conditions) args
       in case res of
            Inl e \<Rightarrow> (d, incQueryCounter r ''get'' ''error'' ''query'', Inl e)
          | Inr rows \<Rightarrow>
              let closed = (if RowsClose rows \<noteq> None
                            then incQueryCounter r ''get'' ''error'' ''close_rows'' else [])
              in case scan_rows (Scans rows) of
                   Inl e \<Rightarrow> (d, incQueryCounter r ''get'' ''error'' ''scan'' @ closed, Inl e)
                 | Inr ts \<Rightarrow>
                     (case RowsErr rows of
                        Some e \<Rightarrow> (d, incQueryCounter r ''get'' ''error'' ''rows'' @ closed, Inl e)
                      | None \<Rightarrow> (d, incQueryCounter r ''get'' ''success'' [] @ closed, Inr ts)))"

subsection \<open>Opening and closing\<close>

record PoolConfig =
  MaxOpenConns :: int
  MaxIdleConns :: int
  ConnMaxLifetime :: int

definition DefaultPoolConfig :: PoolConfig where
  "DefaultPoolConfig = \<lparr>MaxOpenConns = 25, MaxIdleConns = 5, ConnMaxLifetime = 300 * 1000000000\<rparr>"

definition normalize_pool :: "PoolConfig \<Rightarrow> PoolConfig" where
  "normalize_pool p =
     \<lparr>MaxOpenConns = (if MaxOpenConns p \<le> 0 then MaxOpenConns DefaultPoolConfig else MaxOpenConns p),
      MaxIdleConns = (if MaxIdleConns p \<le> 0 then MaxIdleConns DefaultPoolConfig else MaxIdleConns p),
      ConnMaxLifetime =
        (if ConnMaxLifetime p \<le> 0 then ConnMaxLifetime DefaultPoolConfig else ConnMaxLifetime p)\<rparr>"

definition connection_attempt :: "string \<Rightarrow> string \<Rightarrow> metric_call" where
  "connection_attempt result reason =
     IncCounter MetricPostgresConnectionAttempts
       ([(''result'', result)] @ (if reason \<noteq> [] then [(''reason'', reason)] else [])) 1"

definition NewPostgresRepoWithPoolAndMetrics ::
  "('d, 'c) sql_driver \<Rightarrow> string \<Rightarrow> PoolConfig \<Rightarrow> 'd
    \<Rightarrow> 'd \<times> metric_call list \<times> (goerr + postgres_repo)" where
  "NewPostgresRepoWithPoolAndMetrics drv url poolCfg d =
     (let started = [connection_attempt ''started'' []];
          (d, err) = OpenDB drv d url
      in case err of
           Some e \<Rightarrow>
             (d, started @ [connection_attempt ''error'' ''open''],
              Inl (WrappedBy (Sentinel ErrDBUnavailable) (Wrapped ''open postgres connection: '' e)))
         | None \<Rightarrow>
             let p = normalize_pool poolCfg;
                 d = SetPool drv d (MaxOpenConns p) (MaxIdleConns p) (ConnMaxLifetime p);
                 (d, err) = PingDB drv d
             in case err of
                  Some e \<Rightarrow>
                    let (d, closeErr) = CloseDB drv d in
                    (d, started @ [connection_attempt ''error'' ''ping'']
                        @ (if closeErr \<noteq> None then [connection_attempt ''error'' ''close_db''] else []),
                     Inl (WrappedBy (Sentinel ErrDBUnavailable) (Wrapped ''ping postgres: '' e)))
                | None \<Rightarrow>
                    (d, started @ [connection_attempt ''success'' []],
                     Inr \<lparr>repo_db = True, repo_metrics = True\<rparr>))"

definition NewPostgresRepo ::
  "('d, 'c) sql_driver \<Rightarrow> string \<Rightarrow> 'd \<Rightarrow> 'd \<times> metric_call list \<times> (goerr + postgres_repo)" where
  "NewPostgresRepo drv url = NewPostgresRepoWithPoolAndMetrics drv url DefaultPoolConfig"

definition Close ::
  "('d, 'c) sql_driver \<Rightarrow> postgres_repo option \<Rightarrow> 'd \<Rightarrow> 'd \<times> metric_call list" where
  "Close drv r d =
     (if nil_db r then (d, [])
      else let (d, err) = CloseDB drv d in
        (d, if err \<noteq> None then incQueryCounter r ''close'' ''error'' ''close_db'' else []))"

end
