(* ===== verification/Table.thy ===== *)
theory Table
  imports Repository "HOL-Library.Multiset"
begin

text \<open>
  The table of \<open>migrations/000001_init.up.sql\<close> and what the adapter relies on of the driver:
  the locale \<open>pg_driver\<close>, with a reference database that interprets it.
\<close>

subsection \<open>The table\<close>

text \<open>
  A row. A \<open>timestamptz\<close> value is a number of microseconds; the serial \<open>id\<close> is not read by
  the program.
\<close>

record row =
  r_user :: int64
  r_type :: string
  r_amount :: int64
  r_ts :: "int option"
  r_created :: gotime

text \<open>\<open>CHECK (type IN ('bet', 'win'))\<close>, and the unique key, NULLS NOT DISTINCT.\<close>

definition row_ok :: "row \<Rightarrow> bool" where
  "row_ok r \<longleftrightarrow> r_type r = ''bet'' \<or> r_type r = ''win''"

definition key_of :: "row \<Rightarrow> int64 \<times> string \<times> int64 \<times> int option" where
  "key_of r = (r_user r, r_type r, r_amount r, r_ts r)"

text \<open>\<open>ON CONFLICT ... DO NOTHING\<close>: a row whose key exists is skipped.\<close>

definition insert_row :: "row \<Rightarrow> row list \<Rightarrow> row list" where
  "insert_row r rows = (if key_of r \<in> set (map key_of rows) then rows else rows @ [r])"

definition insert_rows :: "row list \<Rightarrow> row list \<Rightarrow> row list" where
  "insert_rows rs rows = fold insert_row rs rows"

lemma insert_row_keys: "key_of ` set (insert_row r rows) = insert (key_of r) (key_of ` set rows)"
  by (auto simp: insert_row_def)

lemma insert_rows_simps [simp]:
  "insert_rows [] rows = rows"
  "insert_rows (r # rs) rows = insert_rows rs (insert_row r rows)"
  by (simp_all add: insert_rows_def)

lemma insert_rows_keys: "key_of ` set (insert_rows rs rows) = key_of ` set rs \<union> key_of ` set rows"
  by (induction rs arbitrary: rows) (auto simp: insert_row_keys)

lemma insert_row_distinct: "distinct (map key_of rows) \<Longrightarrow> distinct (map key_of (insert_row r rows))"
  by (auto simp: insert_row_def)

lemma insert_rows_distinct:
  "distinct (map key_of rows) \<Longrightarrow> distinct (map key_of (insert_rows rs rows))"
  by (induction rs arbitrary: rows) (auto intro: insert_row_distinct)

lemma insert_row_present: "key_of r \<in> key_of ` set rows \<Longrightarrow> insert_row r rows = rows"
  by (auto simp: insert_row_def)

lemma insert_rows_present: "key_of ` set rs \<subseteq> key_of ` set rows \<Longrightarrow> insert_rows rs rows = rows"
  by (induction rs arbitrary: rows) (auto simp: insert_row_present)

lemma insert_rows_prefix: "\<exists>new. insert_rows rs rows = rows @ new"
proof (induction rs arbitrary: rows)
  case (Cons r rs)
  obtain new where "insert_rows rs (insert_row r rows) = insert_row r rows @ new"
    using Cons.IH by blast
  then show ?case by (auto simp: insert_row_def)
qed simp

text \<open>The list of keys depends on the keys alone, not on when the rows were created.\<close>

lemma insert_row_map_key:
  "map key_of (insert_row r rows)
   = (if key_of r \<in> set (map key_of rows) then map key_of rows else map key_of rows @ [key_of r])"
  by (auto simp: insert_row_def)

subsection \<open>Positional parameters\<close>

text \<open>The tuples of \<open>$n\<close> parameters in a VALUES list.\<close>

fun scan_values :: "string \<Rightarrow> int option \<Rightarrow> int list \<Rightarrow> int list list" where
  "scan_values [] cur tup = []"
| "scan_values (c # cs) cur tup =
     (if is_digit c then scan_values cs (map_option (\<lambda>n. n * 10 + digit_val c) cur) tup
      else
        let tup' = (case cur of Some n \<Rightarrow> tup @ [n] | None \<Rightarrow> tup) in
        if c = CHR ''$'' then scan_values cs (Some 0) tup'
        else if c = CHR ''('' then scan_values cs None []
        else if c = CHR '')'' then tup' # scan_values cs None []
        else scan_values cs None tup')"

definition sql_tuples :: "string \<Rightarrow> int list list" where
  "sql_tuples s = scan_values s None []"

definition arg_at :: "sql_arg list \<Rightarrow> int \<Rightarrow> sql_arg option" where
  "arg_at args n = (if 1 \<le> n \<and> n \<le> int (length args) then Some (args ! nat (n - 1)) else None)"

text \<open>A tuple of four parameters of the right types is a row; \<open>micros\<close> stores a time.\<close>

definition bind_tuple :: "(gotime \<Rightarrow> int) \<Rightarrow> gotime \<Rightarrow> sql_arg list \<Rightarrow> int list \<Rightarrow> row option" where
  "bind_tuple micros now args ns =
     (case map (arg_at args) ns of
        [Some (ArgInt u), Some (ArgStr ty), Some (ArgInt a), Some (ArgTime ts)] \<Rightarrow>
          Some \<lparr>r_user = u, r_type = ty, r_amount = a, r_ts = map_option micros ts, r_created = now\<rparr>
      | _ \<Rightarrow> None)"

definition bind_rows ::
  "(gotime \<Rightarrow> int) \<Rightarrow> gotime \<Rightarrow> sql_arg list \<Rightarrow> string \<Rightarrow> row list option" where
  "bind_rows micros now args vs = those (map (bind_tuple micros now args) (sql_tuples vs))"

text \<open>The row that stores a transaction.\<close>

definition row_of :: "(gotime \<Rightarrow> int) \<Rightarrow> gotime \<Rightarrow> transaction \<Rightarrow> row" where
  "row_of micros now t =
     \<lparr>r_user = UserID t, r_type = Type t, r_amount = Amount t,
      r_ts = map_option micros (null_time (Timestamp t)), r_created = now\<rparr>"

definition tx_key :: "(gotime \<Rightarrow> int) \<Rightarrow> transaction \<Rightarrow> int64 \<times> string \<times> int64 \<times> int option" where
  "tx_key micros t = (UserID t, Type t, Amount t, map_option micros (null_time (Timestamp t)))"

lemma key_of_row_of [simp]: "key_of (row_of micros now t) = tx_key micros t"
  by (simp add: key_of_def row_of_def tx_key_def)

lemma row_ok_row_of: "row_ok (row_of micros now t) \<longleftrightarrow> IsValid (Type t) = None"
  by (auto simp: row_ok_def row_of_def)

lemma scan_digits:
  "list_all is_digit ds \<Longrightarrow>
   scan_values (ds @ rest) (Some n) tup = scan_values rest (Some (digits_val n ds)) tup"
  by (induction ds arbitrary: n) auto

lemma scan_Itoa [simp]:
  "0 \<le> n \<Longrightarrow> scan_values (Itoa n @ rest) (Some 0) tup = scan_values rest (Some n) tup"
  by (simp add: Itoa_def scan_digits nat_digits_all flip: dec_def)

lemma not_digit_punct [simp]:
  "\<not> is_digit CHR ''$''" "\<not> is_digit CHR ''(''" "\<not> is_digit CHR '')''"
  "\<not> is_digit CHR '',''" "\<not> is_digit CHR '' ''"
  by (simp_all add: is_digit_def code_def of_char_def)

lemma scan_tuple_text:
  "0 \<le> i \<Longrightarrow> scan_values (tuple_text i @ rest) None [] =
     [i * 4 + 1, i * 4 + 2, i * 4 + 3, i * 4 + 4] # scan_values rest None []"
  by (simp add: tuple_text_def)

lemma bulk_parts_Cons: "bulk_parts i (t # ts) =
   (tuple_text i # fst (bulk_parts (i + 1) ts), save_args t @ snd (bulk_parts (i + 1) ts))"
  by (simp add: case_prod_beta)

declare bulk_parts.simps(2) [simp del]
declare bulk_parts_Cons [simp]

lemma bulk_parts_Nil_iff [simp]: "fst (bulk_parts i ts) = [] \<longleftrightarrow> ts = []"
  by (cases ts) simp_all

lemma length_bulk_args: "length (snd (bulk_parts i ts)) = 4 * length ts"
  by (induction ts arbitrary: i) (simp_all add: save_args_def)

lemma arg_at_nth: "k < length args \<Longrightarrow> arg_at args (int k + 1) = Some (args ! k)"
  by (simp add: arg_at_def)

lemma length_save_args: "length (save_args t) = 4"
  by (simp add: save_args_def)

lemma bind_tuple_at:
  assumes "length pre = 4 * k"
  shows "bind_tuple micros now (pre @ save_args t @ suf)
           [int k * 4 + 1, int k * 4 + 2, int k * 4 + 3, int k * 4 + 4] = Some (row_of micros now t)"
proof -
  let ?args = "pre @ save_args t @ suf"
  have at: "arg_at ?args (int (4 * k + j) + 1) = Some (save_args t ! j)" if "j < 4" for j
  proof -
    have "4 * k + j < length ?args" using assms that by (simp add: save_args_def)
    then have "arg_at ?args (int (4 * k + j) + 1) = Some (?args ! (4 * k + j))"
      by (rule arg_at_nth)
    also have "?args ! (4 * k + j) = (save_args t @ suf) ! j"
      by (simp add: nth_append assms)
    also have "\<dots> = save_args t ! j" using that by (simp add: nth_append length_save_args)
    finally show ?thesis .
  qed
  have "arg_at ?args (int k * 4 + 1) = Some (ArgInt (UserID t))"
    "arg_at ?args (int k * 4 + 2) = Some (ArgStr (Type t))"
    "arg_at ?args (int k * 4 + 3) = Some (ArgInt (Amount t))"
    "arg_at ?args (int k * 4 + 4) = Some (ArgTime (null_time (Timestamp t)))"
    using at [of 0] at [of 1] at [of 2] at [of 3] by (simp_all add: save_args_def algebra_simps)
  then show ?thesis
    by (simp only: bind_tuple_def list.map) (simp add: row_of_def)
qed

lemma those_Cons: "those (x # xs) = (case x of None \<Rightarrow> None | Some a \<Rightarrow> map_option ((#) a) (those xs))"
  by simp

lemma bulk_statement:
  assumes "length pre = 4 * k"
  shows "those (map (bind_tuple micros now (pre @ snd (bulk_parts (int k) ts)))
           (sql_tuples (Join (fst (bulk_parts (int k) ts)) '',''))) = Some (map (row_of micros now) ts)"
  using assms
proof (induction ts arbitrary: k pre)
  case Nil
  then show ?case by (simp add: sql_tuples_def)
next
  case (Cons t ts)
  let ?ps = "bulk_parts (int (Suc k)) ts"
  have IH: "those (map (bind_tuple micros now ((pre @ save_args t) @ snd ?ps))
      (sql_tuples (Join (fst ?ps) '',''))) = Some (map (row_of micros now) ts)"
    by (rule Cons.IH) (simp add: Cons.prems save_args_def)
  have "sql_tuples (Join (fst (bulk_parts (int k) (t # ts))) '','') =
      [int k * 4 + 1, int k * 4 + 2, int k * 4 + 3, int k * 4 + 4] # sql_tuples (Join (fst ?ps) '','')"
  proof (cases "fst ?ps")
    case Nil
    then show ?thesis
      using scan_tuple_text [of "int k" "[]"] by (simp add: sql_tuples_def add.commute)
  next
    case (Cons v vs)
    then show ?thesis
      by (simp add: sql_tuples_def add.commute scan_tuple_text)
  qed
  moreover have "bind_tuple micros now (pre @ snd (bulk_parts (int k) (t # ts)))
      [int k * 4 + 1, int k * 4 + 2, int k * 4 + 3, int k * 4 + 4] = Some (row_of micros now t)"
    by (simp add: bind_tuple_at [OF Cons.prems])
  ultimately show ?case
    using IH by (simp del: scan_values.simps) (simp add: add.commute)
qed

subsection \<open>The driver's contract\<close>

text \<open>
  The four condition lists the program can ask for, what a condition says of a row, and the
  order of the result.
\<close>

definition select_shapes :: "string list list" where
  "select_shapes =
     [[], [''user_id = $1''], [''type = $1''], [''user_id = $1'', ''type = $2'']]"

definition cond_holds :: "sql_arg list \<Rightarrow> row \<Rightarrow> string \<Rightarrow> bool" where
  "cond_holds args r s =
     (case Split CHR ''$'' s of
        [col, n] \<Rightarrow>
          (case Option.bind (int_of_string n) (arg_at args) of
             Some (ArgInt u) \<Rightarrow> col = ''user_id = '' \<and> r_user r = u
           | Some (ArgStr ty) \<Rightarrow> col = ''type = '' \<and> r_type r = ty
           | _ \<Rightarrow> False)
      | _ \<Rightarrow> False)"

definition desc_nulls_last :: "row list \<Rightarrow> bool" where
  "desc_nulls_last = sorted_wrt (\<lambda>r r'. case (r_ts r, r_ts r') of
     (Some u, Some v) \<Rightarrow> v \<le> u | (None, Some v) \<Rightarrow> False | _ \<Rightarrow> True)"

definition scanned_of :: "(int \<Rightarrow> gotime) \<Rightarrow> row \<Rightarrow> scanned" where
  "scanned_of of_micros r =
     (r_user r, r_type r, r_amount r, map_option of_micros (r_ts r), r_created r)"

text \<open>The outcome of inserting a batch: all of it, or nothing and an error.\<close>

definition inserted :: "(gotime \<Rightarrow> int) \<Rightarrow> transaction list \<Rightarrow> goerr option \<Rightarrow> row list \<Rightarrow> row list \<Rightarrow> bool" where
  "inserted micros txs e rows rows' \<longleftrightarrow>
     (\<exists>now. list_all (\<lambda>t. IsValid (Type t) = None) txs
            \<and> rows' = insert_rows (map (row_of micros now) txs) rows)
     \<or> e \<noteq> None \<and> rows' = rows"

text \<open>
  What the program relies on. A successful INSERT stored every row and met the CHECK; a failed
  one stored all of its rows or none (the reply may be lost after the commit), never some of
  them. A SELECT changes nothing, and a cursor read to its end without an error gave the
  matching rows in order. Reading the clock changes no table.
\<close>

locale pg_driver =
  fixes drv :: "('d, 'c) sql_driver"
    and tbl :: "'d \<Rightarrow> row list"
    and clock :: "'d \<Rightarrow> gotime"
    and micros :: "gotime \<Rightarrow> int"
    and of_micros :: "int \<Rightarrow> gotime"
  assumes exec_ok:
      "\<lbrakk>bind_rows micros (clock d) args vs = Some rows;
        ExecContext drv d c (insert_head @ vs @ insert_tail) args = (d', None)\<rbrakk>
       \<Longrightarrow> list_all row_ok rows \<and> tbl d' = insert_rows rows (tbl d)"
    and exec_err:
      "\<lbrakk>bind_rows micros (clock d) args vs = Some rows;
        ExecContext drv d c (insert_head @ vs @ insert_tail) args = (d', Some e)\<rbrakk>
       \<Longrightarrow> tbl d' = tbl d \<or> list_all row_ok rows \<and> tbl d' = insert_rows rows (tbl d)"
    and query_ok:
      "\<lbrakk>conds \<in> set select_shapes; QueryContext drv d c (get_query conds) args = (d', Inr rs);
        RowsErr rs = None; scan_rows (Scans rs) = Inr ts\<rbrakk>
       \<Longrightarrow> \<exists>rows. mset rows = filter_mset (\<lambda>r. list_all (cond_holds args r) conds) (mset (tbl d))
             \<and> desc_nulls_last rows \<and> Scans rs = map (Inr \<circ> scanned_of of_micros) rows"
    and query_tbl: "tbl (fst (QueryContext drv d c (get_query conds) args)) = tbl d"
    and now_tbl: "tbl (fst (TimeNow drv d)) = tbl d"
begin

lemma timed_tbl:
  assumes "timed drv r op body d = (d', ms, res)"
  obtains d1 d2 ms1 where "tbl d1 = tbl d" "body d1 = (d2, ms1, res)" "tbl d' = tbl d2"
proof -
  obtain d1 t0 where n: "TimeNow drv d = (d1, t0)" by (metis surj_pair)
  obtain d2 ms1 res1 where b: "body d1 = (d2, ms1, res1)" by (metis prod_cases3)
  from assms n b have "res1 = res" "d' = fst (observeDuration drv r op t0 d2)"
    by (auto simp: timed_def split: prod.splits)
  moreover have "tbl (fst (observeDuration drv r op t0 d2)) = tbl d2"
    using now_tbl [of d2] by (auto simp: observeDuration_def split: prod.splits)
  ultimately show ?thesis
    using that [of d1 d2 ms1] b now_tbl [of d] n by simp
qed

lemma bind_bulk:
  "bind_rows micros now (snd (bulk_parts 0 txs)) (Join (fst (bulk_parts 0 txs)) '','')
   = Some (map (row_of micros now) txs)"
  using bulk_statement [of "[]" 0 micros now txs] by (simp add: bind_rows_def)

lemma exec_bulk:
  assumes "ExecContext drv d c (insert_head @ Join (fst (bulk_parts 0 txs)) '','' @ insert_tail)
             (snd (bulk_parts 0 txs)) = (d', e)"
  shows "inserted micros txs e (tbl d) (tbl d')"
proof (cases e)
  case None
  from exec_ok [OF bind_bulk assms [unfolded None]] show ?thesis
    by (auto simp: inserted_def list_all_iff row_ok_row_of)
next
  case (Some e')
  from exec_err [OF bind_bulk assms [unfolded Some]] Some show ?thesis
    by (auto simp: inserted_def list_all_iff row_ok_row_of)
qed

lemma tuple_text_0: "''($1, $2, $3, $4)'' = tuple_text 0"
  by code_simp

lemma Save_inserted:
  assumes "Save drv (Some p) c t d = (d', ms, e)" "repo_db p"
  shows "inserted micros [t] e (tbl d) (tbl d')"
proof -
  from assms(1)[unfolded Save_def] obtain d1 d2 ms1 where d: "tbl d1 = tbl d" "tbl d' = tbl d2" and
    b: "(if nil_db (Some p) then
       (d1, incQueryCounter (Some p) ''save'' ''error'' ''repo_not_initialized'',
        Some (Sentinel ErrRepoNotInitialized))
     else
       let (d, err) = ExecContext drv d1 c (insert_head @ tuple_text 0 @ insert_tail) (save_args t)
       in case err of
            Some e \<Rightarrow> (d, incQueryCounter (Some p) ''save'' ''error'' ''exec'', Some e)
          | None \<Rightarrow> (d, incQueryCounter (Some p) ''save'' ''success'' [], None)) = (d2, ms1, e)"
    unfolding tuple_text_0 by (rule timed_tbl)
  obtain d3 err where x: "ExecContext drv d1 c (insert_head @ tuple_text 0 @ insert_tail) (save_args t) = (d3, err)"
    by (metis surj_pair)
  with b assms(2) have "d2 = d3" "e = err"
    by (auto simp: nil_db_def split: option.splits)
  with exec_bulk [of d1 c "[t]" d3 err] x d show ?thesis by simp
qed

lemma SaveBulk_inserted:
  assumes "SaveBulk drv (Some p) c txs d = (d', ms, e)" "repo_db p"
  shows "inserted micros txs e (tbl d) (tbl d')"
proof (cases "txs = []")
  case True
  with assms show ?thesis
    by (auto simp: SaveBulk_def nil_db_def inserted_def elim!: timed_tbl)
next
  case False
  from assms(1)[unfolded SaveBulk_def] obtain d1 d2 ms1 where d: "tbl d1 = tbl d" "tbl d' = tbl d2" and
    b: "(let (valueStrings, valueArgs) = bulk_parts 0 txs;
           (d, err) = ExecContext drv d1 c
             (insert_head @ Join valueStrings '','' @ insert_tail) valueArgs
       in case err of
            Some e \<Rightarrow> (d, incQueryCounter (Some p) ''save_bulk'' ''error'' ''exec'', Some e)
          | None \<Rightarrow> (d, incQueryCounter (Some p) ''save_bulk'' ''success'' [], None)) = (d2, ms1, e)"
    using False assms(2) by (auto simp: nil_db_def elim!: timed_tbl)
  obtain d3 err where x: "ExecContext drv d1 c
       (insert_head @ Join (fst (bulk_parts 0 txs)) '','' @ insert_tail) (snd (bulk_parts 0 txs)) = (d3, err)"
    by (metis surj_pair)
  with b have "d2 = d3" "e = err"
    by (auto simp: case_prod_beta split: option.splits)
  with exec_bulk [OF x] d show ?thesis by simp
qed

lemma inserted_keys:
  assumes "inserted micros txs None rows rows'"
  shows "key_of ` set rows' = tx_key micros ` set txs \<union> key_of ` set rows"
proof -
  from assms obtain now where "rows' = insert_rows (map (row_of micros now) txs) rows"
    by (auto simp: inserted_def)
  then show ?thesis by (simp add: insert_rows_keys image_image)
qed

lemma inserted_keys_le:
  assumes "inserted micros txs e rows rows'"
  shows "key_of ` set rows \<subseteq> key_of ` set rows'"
  using assms by (auto simp: inserted_def insert_rows_keys image_image)

lemma inserted_distinct:
  assumes "inserted micros txs e rows rows'" "distinct (map key_of rows)"
  shows "distinct (map key_of rows')"
  using assms insert_rows_distinct by (auto simp: inserted_def)

lemma inserted_again:
  assumes "inserted micros txs e rows rows'" "tx_key micros ` set txs \<subseteq> key_of ` set rows"
  shows "rows' = rows"
  using assms insert_rows_present [of "map (row_of micros now) txs" rows for now]
  by (auto simp: inserted_def image_image)

end

subsection \<open>Queries\<close>

text \<open>What \<open>Get\<close> asks for: user 0 (or less) means all users, a nil type all types.\<close>

definition row_matches :: "int64 \<Rightarrow> TransactionType option \<Rightarrow> row \<Rightarrow> bool" where
  "row_matches userID tType r \<longleftrightarrow>
     (0 <s userID \<longrightarrow> r_user r = userID) \<and> (case tType of None \<Rightarrow> True | Some ty \<Rightarrow> r_type r = ty)"

definition tx_of_row :: "(int \<Rightarrow> gotime) \<Rightarrow> row \<Rightarrow> transaction" where
  "tx_of_row of_micros r = tx_of_scan (scanned_of of_micros r)"

lemma user_cond:
  "cond_holds (ArgInt u # as) r ''user_id = $1'' \<longleftrightarrow> r_user r = u"
  and type_cond_1: "cond_holds (ArgStr ty # as) r ''type = $1'' \<longleftrightarrow> r_type r = ty"
  and type_cond_2: "cond_holds (a # ArgStr ty # as) r ''type = $2'' \<longleftrightarrow> r_type r = ty"
proof -
  have "Split CHR ''$'' ''user_id = $1'' = [''user_id = '', ''1'']"
    "Split CHR ''$'' ''type = $1'' = [''type = '', ''1'']"
    "Split CHR ''$'' ''type = $2'' = [''type = '', ''2'']"
    "int_of_string ''1'' = Some 1" "int_of_string ''2'' = Some 2"
    by code_simp+
  then show "cond_holds (ArgInt u # as) r ''user_id = $1'' \<longleftrightarrow> r_user r = u"
    "cond_holds (ArgStr ty # as) r ''type = $1'' \<longleftrightarrow> r_type r = ty"
    "cond_holds (a # ArgStr ty # as) r ''type = $2'' \<longleftrightarrow> r_type r = ty"
    by (simp_all add: cond_holds_def arg_at_def)
qed

lemma get_conds_eq:
  "get_conds userID tType =
     (if 0 <s userID then
        (case tType of None \<Rightarrow> ([''user_id = $1''], [ArgInt userID])
         | Some ty \<Rightarrow> ([''user_id = $1'', ''type = $2''], [ArgInt userID, ArgStr ty]))
      else (case tType of None \<Rightarrow> ([], []) | Some ty \<Rightarrow> ([''type = $1''], [ArgStr ty])))"
proof -
  have "Itoa 1 = ''1''" "Itoa 2 = ''2''" by code_simp+
  then show ?thesis by (simp add: get_conds_def add_cond_def split: option.split)
qed

lemma get_conds_shape: "fst (get_conds userID tType) \<in> set select_shapes"
  by (simp add: get_conds_eq select_shapes_def split: option.split)

lemma get_conds_holds:
  "list_all (cond_holds (snd (get_conds userID tType)) r) (fst (get_conds userID tType))
   \<longleftrightarrow> row_matches userID tType r"
  by (simp add: get_conds_eq row_matches_def user_cond type_cond_1 type_cond_2 split: option.split)

lemma scan_rows_Inr: "scan_rows (map (Inr \<circ> f) rows) = Inr (map (\<lambda>r. tx_of_scan (f r)) rows)"
  by (induction rows) auto

context pg_driver
begin

lemma Get_rows:
  assumes "Get drv (Some p) c userID tType d = (d', ms, Inr ts)" "repo_db p"
  obtains rows where "tbl d' = tbl d"
    "mset rows = filter_mset (row_matches userID tType) (mset (tbl d))"
    "desc_nulls_last rows" "ts = map (tx_of_row of_micros) rows"
proof (rule timed_tbl [OF assms(1) [unfolded Get_def]], goal_cases)
  case (1 d1 d2 ms1)
  let ?q = "get_query (fst (get_conds userID tType))" and ?args = "snd (get_conds userID tType)"
  from 1(3) assms(2) obtain rs where q: "QueryContext drv d1 c ?q ?args = (d2, Inr rs)"
    "RowsErr rs = None" "scan_rows (Scans rs) = Inr ts"
    by (auto simp: nil_db_def Let_def split: prod.splits sum.splits option.splits)
  have "tbl d2 = tbl d1"
    using query_tbl [of d1 c "fst (get_conds userID tType)" ?args] q(1) by simp
  moreover from query_ok [OF get_conds_shape q]
  obtain rows where "mset rows = filter_mset (row_matches userID tType) (mset (tbl d1))"
    "desc_nulls_last rows" "Scans rs = map (Inr \<circ> scanned_of of_micros) rows"
    unfolding get_conds_holds by blast
  ultimately show ?thesis
    using 1(1) [of rows] 1(2,4) q(3) by (simp add: scan_rows_Inr tx_of_row_def [abs_def])
qed

end

end
