(* ===== verification/Refdb.thy ===== *)
theory Refdb
  imports Table
begin

text \<open>
  A reference database for the contract \<open>pg_driver\<close>: it reads the statement texts and their
  positional parameters, keeps the rows, and takes from a list the faults of its statements
  (before or after the commit). A context is whether it is done, as \<open>database/sql\<close> checks
  before it runs a statement.
\<close>

datatype fault = NoFault | FailBefore goerr | FailAfter goerr

record refdb =
  db_rows :: "row list"
  db_now :: gotime
  db_faults :: "fault list"

definition next_fault :: "refdb \<Rightarrow> refdb \<times> fault" where
  "next_fault d =
     (case db_faults d of [] \<Rightarrow> (d, NoFault) | f # fs \<Rightarrow> (d\<lparr>db_faults := fs\<rparr>, f))"

text \<open>Stored times are whole microseconds, read back in UTC.\<close>

definition pg_micros :: "gotime \<Rightarrow> int" where
  "pg_micros t = (instant_ns t + 500) div 1000"

definition pg_of_micros :: "int \<Rightarrow> gotime" where
  "pg_of_micros u =
     \<lparr>unix_sec = u div 1000000, nanos = u mod 1000000 * 1000, zone_off = 0\<rparr>"

text \<open>The VALUES list of the one INSERT form.\<close>

definition insert_values :: "string \<Rightarrow> string option" where
  "insert_values q =
     (let h = length insert_head; n = length q - h - length insert_tail;
          vs = take n (drop h q)
      in if q = insert_head @ vs @ insert_tail then Some vs else None)"

lemma insert_values_insert [simp]: "insert_values (insert_head @ vs @ insert_tail) = Some vs"
  by (simp add: insert_values_def)

definition ref_exec ::
  "refdb \<Rightarrow> bool \<Rightarrow> string \<Rightarrow> sql_arg list \<Rightarrow> refdb \<times> goerr option" where
  "ref_exec d is_done q args =
     (if is_done then (d, Some (Sentinel CtxCanceled))
      else let (d, f) = next_fault d in
        case f of
          FailBefore e \<Rightarrow> (d, Some e)
        | _ \<Rightarrow>
          (case Option.bind (insert_values q) (bind_rows pg_micros (db_now d) args) of
             None \<Rightarrow> (d, Some (Opaque ''pq: syntax error''))
           | Some rows \<Rightarrow>
               if list_all row_ok rows then
                 (d\<lparr>db_rows := insert_rows rows (db_rows d)\<rparr>,
                  case f of FailAfter e \<Rightarrow> Some e | _ \<Rightarrow> None)
               else (d, Some (Opaque ''pq: violates check constraint''))))"

definition order_rows :: "row list \<Rightarrow> row list" where
  "order_rows rows =
     sort_key (\<lambda>r. - the (r_ts r)) (filter (\<lambda>r. r_ts r \<noteq> None) rows)
     @ filter (\<lambda>r. r_ts r = None) rows"

definition ref_query ::
  "refdb \<Rightarrow> bool \<Rightarrow> string \<Rightarrow> sql_arg list \<Rightarrow> refdb \<times> (goerr + sql_rows)" where
  "ref_query d is_done q args =
     (if is_done then (d, Inl (Sentinel CtxCanceled))
      else let (d, f) = next_fault d in
        case f of
          FailBefore e \<Rightarrow> (d, Inl e)
        | _ \<Rightarrow>
          (case find (\<lambda>conds. get_query conds = q) select_shapes of
             None \<Rightarrow> (d, Inl (Opaque ''pq: syntax error''))
           | Some conds \<Rightarrow>
               (d, Inr \<lparr>Scans = map (Inr \<circ> scanned_of pg_of_micros)
                          (order_rows (filter (\<lambda>r. list_all (cond_holds args r) conds) (db_rows d))),
                        RowsErr = (case f of FailAfter e \<Rightarrow> Some e | _ \<Rightarrow> None),
                        RowsClose = None\<rparr>)))"

definition ref_driver :: "(refdb, bool) sql_driver" where
  "ref_driver =
     \<lparr>ExecContext = ref_exec, QueryContext = ref_query,
      OpenDB = (\<lambda>d url. (d, None)), SetPool = (\<lambda>d m i l. d),
      PingDB = (\<lambda>d. let (d, f) = next_fault d in
                  (d, case f of NoFault \<Rightarrow> None | FailBefore e \<Rightarrow> Some e | FailAfter e \<Rightarrow> Some e)),
      CloseDB = (\<lambda>d. (d, None)), TimeNow = (\<lambda>d. (d, db_now d))\<rparr>"

lemma next_fault_rows: "next_fault d = (d', f) \<Longrightarrow> db_rows d' = db_rows d \<and> db_now d' = db_now d"
  by (auto simp: next_fault_def split: list.splits)

lemma order_rows_mset: "mset (order_rows rows) = mset rows"
  by (simp add: order_rows_def mset_filter flip: multiset_partition)


lemma order_rows_desc: "desc_nulls_last (order_rows rows)"
proof -
  let ?R = "\<lambda>r r'. case (r_ts r, r_ts r') of
     (Some u, Some v) \<Rightarrow> v \<le> u | (None, Some v) \<Rightarrow> False | _ \<Rightarrow> True"
  let ?some = "sort_key (\<lambda>r. - the (r_ts r)) (filter (\<lambda>r. r_ts r \<noteq> None) rows)"
  have "sorted_wrt (\<lambda>r r'. - the (r_ts r) \<le> - the (r_ts r')) ?some"
    using sorted_sort_key [of "\<lambda>r. - the (r_ts r)" "filter (\<lambda>r. r_ts r \<noteq> None) rows"]
    by (simp add: sorted_wrt_map)
  then have "sorted_wrt ?R ?some"
    by (rule sorted_wrt_mono_rel [rotated]) auto
  moreover have "sorted_wrt ?R (filter (\<lambda>r. r_ts r = None) rows)"
    by (induction rows) auto
  ultimately show ?thesis
    by (auto simp: desc_nulls_last_def order_rows_def sorted_wrt_append)
qed

lemma find_shape:
  assumes "conds \<in> set select_shapes"
  shows "find (\<lambda>cs. get_query cs = get_query conds) select_shapes = Some conds"
  using assms by (auto simp: select_shapes_def get_query_def)

interpretation ref: pg_driver ref_driver db_rows db_now pg_micros pg_of_micros
proof
  fix d d' :: refdb and args vs rows c
  assume b: "bind_rows pg_micros (db_now d) args vs = Some rows"
    and x: "ExecContext ref_driver d c (insert_head @ vs @ insert_tail) args = (d', None)"
  from x b show "list_all row_ok rows \<and> db_rows d' = insert_rows rows (db_rows d)"
    by (auto simp: ref_driver_def ref_exec_def split: if_splits prod.splits fault.splits
        dest!: next_fault_rows)
next
  fix d d' :: refdb and args vs rows c e
  assume b: "bind_rows pg_micros (db_now d) args vs = Some rows"
    and x: "ExecContext ref_driver d c (insert_head @ vs @ insert_tail) args = (d', Some e)"
  from x b show "db_rows d' = db_rows d
      \<or> list_all row_ok rows \<and> db_rows d' = insert_rows rows (db_rows d)"
    by (auto simp: ref_driver_def ref_exec_def split: if_splits prod.splits fault.splits
        dest!: next_fault_rows)
next
  fix conds args rs ts c and d d' :: refdb
  assume s: "conds \<in> set select_shapes"
    and q: "QueryContext ref_driver d c (get_query conds) args = (d', Inr rs)"
  let ?rows = "order_rows (filter (\<lambda>r. list_all (cond_holds args r) conds) (db_rows d))"
  from q find_shape [OF s] have "Scans rs = map (Inr \<circ> scanned_of pg_of_micros) ?rows"
    by (auto simp: ref_driver_def ref_query_def split: if_splits prod.splits fault.splits
        dest!: next_fault_rows)
  then show "\<exists>rows. mset rows = filter_mset (\<lambda>r. list_all (cond_holds args r) conds) (mset (db_rows d))
      \<and> desc_nulls_last rows \<and> Scans rs = map (Inr \<circ> scanned_of pg_of_micros) rows"
    by (intro exI [of _ ?rows]) (simp add: order_rows_mset order_rows_desc mset_filter)
next
  fix d :: refdb and c conds args
  show "db_rows (fst (QueryContext ref_driver d c (get_query conds) args)) = db_rows d"
    by (auto simp: ref_driver_def ref_query_def split: prod.splits fault.splits option.splits
        dest!: next_fault_rows)
qed (simp add: ref_driver_def)

subsection \<open>Properties of the adapter\<close>

text \<open>A driver state, a repository and transactions for the concrete instances below.\<close>

definition sample_tx :: "int \<Rightarrow> transaction" where
  "sample_tx u = \<lparr>ID = 0, UserID = word_of_int u, Type = ''bet'', Amount = 500,
     Timestamp = \<lparr>unix_sec = 1700000000, nanos = 0, zone_off = 0\<rparr>, CreatedAt = zero_time\<rparr>"

definition sample_repo :: postgres_repo where
  "sample_repo = \<lparr>repo_db = True, repo_metrics = True\<rparr>"

definition sample_db :: "fault list \<Rightarrow> refdb" where
  "sample_db fs = \<lparr>db_rows = [], db_now = zero_time, db_faults = fs\<rparr>"

text \<open>
  C18: the statement \<open>SaveBulk\<close> builds numbers its placeholders so that, bound to the argument
  list it builds beside it, the VALUES list denotes exactly the rows of the batch, in order, for
  a batch of any length.
\<close>

theorem SaveBulk_statement:
  "bind_rows micros now (snd (bulk_parts 0 txs)) (Join (fst (bulk_parts 0 txs)) '','')
   = Some (map (row_of micros now) txs)"
  using bulk_statement [of "[]" 0 micros now txs] by (simp add: bind_rows_def)

text \<open>
  Saving is idempotent. After a successful \<open>Save\<close> the transaction's key is in the table,
  and any further \<open>Save\<close> of it, in any state that still holds the keys, leaves the table as it
  is, whatever the driver answers.
\<close>

theorem Save_idempotent:
  assumes drv: "pg_driver drv tbl clock micros of_micros" and p: "repo_db p"
    and s1: "Save drv (Some p) c t d = (d1, ms1, None)"
    and le: "key_of ` set (tbl d1) \<subseteq> key_of ` set (tbl d2)"
    and s2: "Save drv (Some p) c' t d2 = (d3, ms2, e)"
  shows "tx_key micros t \<in> key_of ` set (tbl d1) \<and> tbl d3 = tbl d2"
proof -
  have k: "tx_key micros t \<in> key_of ` set (tbl d1)"
    using pg_driver.inserted_keys [OF drv pg_driver.Save_inserted [OF drv s1 p]] by simp
  with le have "tx_key micros ` set [t] \<subseteq> key_of ` set (tbl d2)" by auto
  with k show ?thesis
    using pg_driver.inserted_again [OF drv pg_driver.Save_inserted [OF drv s2 p]] by blast
qed

theorem Save_idempotent_witness:
  "tx_key pg_micros (sample_tx 7)
     \<in> key_of ` set (db_rows (fst (Save ref_driver (Some sample_repo) False (sample_tx 7) (sample_db []))))
   \<and> db_rows (fst (Save ref_driver (Some sample_repo) False (sample_tx 7)
        (fst (Save ref_driver (Some sample_repo) False (sample_tx 7) (sample_db [])))))
     = db_rows (fst (Save ref_driver (Some sample_repo) False (sample_tx 7) (sample_db [])))"
proof -
  let ?s = "Save ref_driver (Some sample_repo) False (sample_tx 7)"
  have "snd (snd (?s (sample_db []))) = None" by code_simp
  from Save_idempotent [OF ref.pg_driver_axioms _ result3 [OF this] subset_refl result3 [OF refl]]
  show ?thesis by (simp add: sample_repo_def)
qed

text \<open>
  C19: a bulk insert is all or nothing. Whatever \<open>SaveBulk\<close> returns, the table afterwards
  holds either the old keys only, and then it returned an error, or the old keys and those of
  every transaction of the batch; no old row is lost.
\<close>

theorem SaveBulk_atomic:
  assumes drv: "pg_driver drv tbl clock micros of_micros" and p: "repo_db p"
    and s: "SaveBulk drv (Some p) c txs d = (d', ms, e)"
  shows "(e \<noteq> None \<and> tbl d' = tbl d
          \<or> key_of ` set (tbl d') = key_of ` set (tbl d) \<union> tx_key micros ` set txs)
         \<and> set (tbl d) \<subseteq> set (tbl d')"
proof -
  from pg_driver.SaveBulk_inserted [OF drv s p] show ?thesis
    unfolding inserted_def
  proof (elim disjE exE conjE)
    fix now
    assume t: "tbl d' = insert_rows (map (row_of micros now) txs) (tbl d)"
    then have "set (tbl d) \<subseteq> set (tbl d')"
      using insert_rows_prefix [of "map (row_of micros now) txs" "tbl d"] by auto
    with t show ?thesis by (auto simp: insert_rows_keys image_image)
  qed simp
qed

theorem SaveBulk_atomic_witness:
  "let d' = fst (SaveBulk ref_driver (Some sample_repo) False [sample_tx 7, sample_tx 8]
       (sample_db [FailAfter (Opaque ''reset'')]))
   in (db_rows d' = [] \<or> key_of ` set (db_rows d') = tx_key pg_micros ` {sample_tx 7, sample_tx 8})"
proof -
  let ?s = "SaveBulk ref_driver (Some sample_repo) False [sample_tx 7, sample_tx 8]
       (sample_db [FailAfter (Opaque ''reset'')])"
  from SaveBulk_atomic [OF ref.pg_driver_axioms _ result3 [OF refl, of ?s]]
  show ?thesis by (auto simp: sample_repo_def sample_db_def Let_def)
qed

text \<open>The transactions of a list saved one by one, until the first error.\<close>

fun save_each ::
  "('d, 'c) sql_driver \<Rightarrow> postgres_repo option \<Rightarrow> 'c \<Rightarrow> transaction list \<Rightarrow> 'd \<Rightarrow> 'd \<times> goerr option" where
  "save_each drv r c [] d = (d, None)"
| "save_each drv r c (t # ts) d =
     (case Save drv r c t d of
        (d, ms, Some e) \<Rightarrow> (d, Some e)
      | (d, ms, None) \<Rightarrow> save_each drv r c ts d)"

lemma insert_rows_map_key:
  "map key_of rows = map key_of rows' \<Longrightarrow>
   map key_of (insert_rows (map (row_of m n) ts) rows) = map key_of (insert_rows (map (row_of m n') ts) rows')"
  by (induction ts arbitrary: rows rows') (simp_all add: insert_row_map_key)

lemma save_each_keys:
  assumes drv: "pg_driver drv tbl clock micros of_micros" and p: "repo_db p"
    and "save_each drv (Some p) c ts d = (d', None)"
  shows "map key_of (tbl d') = map key_of (insert_rows (map (row_of micros now) ts) (tbl d))"
  using assms(3)
proof (induction ts arbitrary: d)
  case (Cons t ts)
  from Cons.prems obtain d1 ms where s: "Save drv (Some p) c t d = (d1, ms, None)"
    and r: "save_each drv (Some p) c ts d1 = (d', None)"
    by (auto split: prod.splits option.splits)
  from pg_driver.Save_inserted [OF drv s p] obtain now' where
    "tbl d1 = insert_rows (map (row_of micros now') [t]) (tbl d)" by (auto simp: inserted_def)
  then have "map key_of (tbl d1) = map key_of (insert_rows (map (row_of micros now) [t]) (tbl d))"
    using insert_rows_map_key [OF refl, of micros now' "[t]" "tbl d" now] by simp
  from insert_rows_map_key [OF this, of micros now ts now] Cons.IH [OF r] show ?case by simp
qed simp

text \<open>
  C20: a batch is stored as its transactions one by one: when \<open>SaveBulk\<close> succeeds, and when
  the successive \<open>Save\<close> calls succeed from the same table, both leave the same keys in the
  same order, duplicates inside the batch included.
\<close>

theorem SaveBulk_as_Saves:
  assumes drv: "pg_driver drv tbl clock micros of_micros" and p: "repo_db p"
    and b: "SaveBulk drv (Some p) c txs d = (d1, ms, None)"
    and s: "save_each drv (Some p) c' txs d' = (d2, None)" and eq: "tbl d = tbl d'"
  shows "map key_of (tbl d1) = map key_of (tbl d2)"
proof -
  from pg_driver.SaveBulk_inserted [OF drv b p] obtain now where
    "tbl d1 = insert_rows (map (row_of micros now) txs) (tbl d)" by (auto simp: inserted_def)
  with save_each_keys [OF drv p s, of now] eq show ?thesis by simp
qed

theorem SaveBulk_as_Saves_witness:
  "map key_of (db_rows (fst (SaveBulk ref_driver (Some sample_repo) False
      [sample_tx 7, sample_tx 8, sample_tx 7] (sample_db []))))
   = map key_of (db_rows (fst (save_each ref_driver (Some sample_repo) False
      [sample_tx 7, sample_tx 8, sample_tx 7] (sample_db []))))"
proof -
  let ?ts = "[sample_tx 7, sample_tx 8, sample_tx 7]"
  let ?b = "SaveBulk ref_driver (Some sample_repo) False ?ts (sample_db [])"
  let ?s = "save_each ref_driver (Some sample_repo) False ?ts (sample_db [])"
  have "snd (snd ?b) = None" "snd ?s = None" by code_simp+
  then have "?b = (fst ?b, fst (snd ?b), None)" "?s = (fst ?s, None)"
    by (auto intro: result3 prod_eqI)
  from SaveBulk_as_Saves [OF ref.pg_driver_axioms _ this] show ?thesis
    by (simp add: sample_repo_def)
qed

text \<open>
  C21: \<open>Get\<close> returns exactly the rows its filters ask for (user 0 or less: every user; nil type:
  every type), each once, newest first with unknown times last, and changes nothing.
\<close>

theorem Get_filters:
  assumes drv: "pg_driver drv tbl clock micros of_micros" and p: "repo_db p"
    and g: "Get drv (Some p) c userID tType d = (d', ms, Inr ts)"
  shows "tbl d' = tbl d
    \<and> (\<exists>rows. ts = map (tx_of_row of_micros) rows \<and> desc_nulls_last rows
        \<and> mset rows = filter_mset (row_matches userID tType) (mset (tbl d)))"
  using pg_driver.Get_rows [OF drv g p] by metis

theorem Get_filters_witness:
  "\<exists>rows. (\<exists>ts. snd (snd (Get ref_driver (Some sample_repo) False 8 (Some ''bet'')
        (fst (SaveBulk ref_driver (Some sample_repo) False [sample_tx 7, sample_tx 8] (sample_db [])))))
      = Inr ts \<and> ts = map (tx_of_row pg_of_micros) rows)
    \<and> desc_nulls_last rows"
proof -
  let ?g = "Get ref_driver (Some sample_repo) False 8 (Some ''bet'')
        (fst (SaveBulk ref_driver (Some sample_repo) False [sample_tx 7, sample_tx 8] (sample_db [])))"
  have "\<not> isl (snd (snd ?g))" by code_simp
  then obtain ts where "snd (snd ?g) = Inr ts" by (cases "snd (snd ?g)") auto
  from Get_filters [OF ref.pg_driver_axioms _ result3 [OF this]] this show ?thesis
    by (auto simp: sample_repo_def)
qed

text \<open>
  C22: what was saved is read back. After a successful \<open>Save\<close> of a transaction of a positive
  user, every successful \<open>Get\<close> for that user (and its type, or all types) contains one with the
  same user, type and amount and the same time at the database's precision, where a zero time
  comes back as the zero time.
\<close>

theorem Save_Get_roundtrip:
  assumes drv: "pg_driver drv tbl clock micros of_micros" and p: "repo_db p"
    and s: "Save drv (Some p) c t d = (d1, ms1, None)" and "0 <s UserID t"
    and "ty = None \<or> ty = Some (Type t)"
    and g: "Get drv (Some p) c' (UserID t) ty d1 = (d2, ms2, Inr ts)"
  shows "\<exists>t' \<in> set ts. UserID t' = UserID t \<and> Type t' = Type t \<and> Amount t' = Amount t
    \<and> Timestamp t' = (if IsZero (Timestamp t) then zero_time
                      else of_micros (micros (Timestamp t)))"
proof -
  from pg_driver.inserted_keys [OF drv pg_driver.Save_inserted [OF drv s p]]
  have "tx_key micros t \<in> key_of ` set (tbl d1)" by simp
  then obtain r where r: "r \<in> set (tbl d1)" "key_of r = tx_key micros t" by (metis imageE)
  from pg_driver.Get_rows [OF drv g p] obtain rows where
    m: "mset rows = filter_mset (row_matches (UserID t) ty) (mset (tbl d1))"
    and ts: "ts = map (tx_of_row of_micros) rows" by metis
  from r assms(4,5) have "row_matches (UserID t) ty r"
    by (auto simp: row_matches_def key_of_def tx_key_def)
  with r(1) have "r \<in># mset rows" by (simp add: m)
  with r(2) show ?thesis unfolding ts
    by (auto intro!: bexI [of _ r] simp: tx_of_row_def tx_of_scan_def scanned_of_def key_of_def
        tx_key_def null_time_def)
qed

theorem Save_Get_roundtrip_witness:
  "\<exists>ts. snd (snd (Get ref_driver (Some sample_repo) False 7 None
      (fst (Save ref_driver (Some sample_repo) False (sample_tx 7) (sample_db []))))) = Inr ts
    \<and> (\<exists>t' \<in> set ts. UserID t' = 7 \<and> Amount t' = 500)"
proof -
  let ?s = "Save ref_driver (Some sample_repo) False (sample_tx 7) (sample_db [])"
  let ?g = "Get ref_driver (Some sample_repo) False 7 None (fst ?s)"
  have u: "UserID (sample_tx 7) = 7" "Amount (sample_tx 7) = 500" by (simp_all add: sample_tx_def)
  have "snd (snd ?s) = None" "\<not> isl (snd (snd ?g))" by code_simp+
  then obtain ts where g: "snd (snd ?g) = Inr ts" by (cases "snd (snd ?g)") auto
  from Save_Get_roundtrip [OF ref.pg_driver_axioms _ result3 [OF \<open>snd (snd ?s) = None\<close>] _ _
      result3 [OF g, folded u(1)]]
  show ?thesis using g by (auto simp: sample_repo_def u word_sless_alt)
qed

text \<open>
  A nil repository, or one without a database handle, answers every method with
  \<open>ErrRepoNotInitialized\<close>, which both boundaries treat as retryable and as status 503, and runs
  no statement.
\<close>

theorem nil_repo_methods:
  assumes "nil_db r"
  shows "snd (snd (Save drv r c t d)) = Some (Sentinel ErrRepoNotInitialized)
    \<and> snd (snd (SaveBulk drv r c txs d)) = Some (Sentinel ErrRepoNotInitialized)
    \<and> snd (snd (Get drv r c userID tType d)) = Inl (Sentinel ErrRepoNotInitialized)
    \<and> Save (drv\<lparr>ExecContext := x, QueryContext := q\<rparr>) r c t d = Save drv r c t d
    \<and> SaveBulk (drv\<lparr>ExecContext := x, QueryContext := q\<rparr>) r c txs d = SaveBulk drv r c txs d
    \<and> Get (drv\<lparr>ExecContext := x, QueryContext := q\<rparr>) r c userID tType d = Get drv r c userID tType d
    \<and> HTTPStatus (Classify (Sentinel ErrRepoNotInitialized)) = 503
    \<and> Retryable (Classify (Sentinel ErrRepoNotInitialized))"
  using assms
  by (simp add: Save_def SaveBulk_def Get_def timed_def observeDuration_def Classify_def
      split: prod.split)

theorem nil_repo_methods_witness:
  "snd (snd (Save ref_driver None False (sample_tx 7) (sample_db [])))
   = Some (Sentinel ErrRepoNotInitialized)"
proof -
  have "nil_db None" by (simp add: nil_db_def)
  from nil_repo_methods [OF this, where drv = ref_driver and c = False and t = "sample_tx 7"
      and d = "sample_db []"]
  show ?thesis by blast
qed

lemma normalize_pool_pos:
  "0 < MaxOpenConns (normalize_pool p)" "0 < MaxIdleConns (normalize_pool p)"
  "0 < ConnMaxLifetime (normalize_pool p)"
  by (simp_all add: normalize_pool_def DefaultPoolConfig_def)

lemma db_unavailable_class:
  "Classify (WrappedBy (Sentinel ErrDBUnavailable) e)
   = \<lparr>Code = ''db_unavailable'', HTTPStatus = 503, LogLevel = LevelError,
      Reject = False, Retryable = True\<rparr>"
  by (simp add: Classify_def)

text \<open>
  The constructor either returns a ready repository whose pool limits are all positive
  (the caller's where positive, the defaults otherwise), or an error that is classified as the
  retryable \<open>db_unavailable\<close>, status 503.
\<close>

theorem NewPostgresRepo_result:
  "case snd (snd (NewPostgresRepoWithPoolAndMetrics drv url cfg d)) of
     Inl e \<Rightarrow> Code (Classify e) = ''db_unavailable'' \<and> HTTPStatus (Classify e) = 503
        \<and> Retryable (Classify e)
   | Inr p \<Rightarrow> repo_db p \<and> repo_metrics p
        \<and> 0 < MaxOpenConns (normalize_pool cfg) \<and> 0 < MaxIdleConns (normalize_pool cfg)
        \<and> 0 < ConnMaxLifetime (normalize_pool cfg)"
  by (simp add: NewPostgresRepoWithPoolAndMetrics_def Let_def normalize_pool_pos db_unavailable_class
      split: prod.split option.split)

end
