(* ===== verification/Service.thy ===== *)
theory Service
  imports Refdb
begin

text \<open>
  The persistence port of \<open>internal/domain/repository.go\<close> and the use cases of
  \<open>internal/service\<close>. The port is a record of the three methods; what a client relies on is the
  locale \<open>tx_store\<close>, which the PostgreSQL adapter gives for every driver that meets
  \<open>pg_driver\<close>.
\<close>

subsection \<open>The port\<close>

record ('d, 'c) TransactionRepository =
  port_Save :: "'c \<Rightarrow> transaction \<Rightarrow> 'd \<Rightarrow> 'd \<times> metric_call list \<times> goerr option"
  port_SaveBulk :: "'c \<Rightarrow> transaction list \<Rightarrow> 'd \<Rightarrow> 'd \<times> metric_call list \<times> goerr option"
  port_Get :: "'c \<Rightarrow> int64 \<Rightarrow> TransactionType option \<Rightarrow> 'd
    \<Rightarrow> 'd \<times> metric_call list \<times> (goerr + transaction list)"

definition postgres_port ::
  "('d, 'c) sql_driver \<Rightarrow> postgres_repo option \<Rightarrow> ('d, 'c) TransactionRepository" where
  "postgres_port drv r = \<lparr>port_Save = Save drv r, port_SaveBulk = SaveBulk drv r, port_Get = Get drv r\<rparr>"

text \<open>
  What a store promises: a successful write makes the transactions' keys present, and no write,
  successful or not, loses a key.
\<close>

locale tx_store =
  fixes repo :: "('d, 'c) TransactionRepository"
    and key :: "transaction \<Rightarrow> 'k"
    and keys :: "'d \<Rightarrow> 'k set"
  assumes save_ok: "port_Save repo c t d = (d', ms, None) \<Longrightarrow> key t \<in> keys d'"
    and save_mono: "port_Save repo c t d = (d', ms, e) \<Longrightarrow> keys d \<subseteq> keys d'"
    and bulk_ok: "port_SaveBulk repo c ts d = (d', ms, None) \<Longrightarrow> key ` set ts \<subseteq> keys d'"
    and bulk_mono: "port_SaveBulk repo c ts d = (d', ms, e) \<Longrightarrow> keys d \<subseteq> keys d'"

locale pg_repo = pg_driver drv tbl clock micros of_micros
  for drv :: "('d, 'c) sql_driver" and tbl clock micros of_micros +
  fixes p :: postgres_repo
  assumes ready: "repo_db p"

sublocale pg_repo \<subseteq> tx_store "postgres_port drv (Some p)" "tx_key micros"
  "\<lambda>d. key_of ` set (tbl d)"
proof
  fix c t d d' ms e ts
  {
    assume "port_Save (postgres_port drv (Some p)) c t d = (d', ms, None)"
    from inserted_keys [OF Save_inserted [OF this [unfolded postgres_port_def, simplified] ready]]
    show "tx_key micros t \<in> key_of ` set (tbl d')" by simp
  next
    assume "port_Save (postgres_port drv (Some p)) c t d = (d', ms, e)"
    from Save_inserted [OF this [unfolded postgres_port_def, simplified] ready]
    show "key_of ` set (tbl d) \<subseteq> key_of ` set (tbl d')" by (rule inserted_keys_le)
  next
    assume "port_SaveBulk (postgres_port drv (Some p)) c ts d = (d', ms, None)"
    from inserted_keys [OF SaveBulk_inserted [OF this [unfolded postgres_port_def, simplified] ready]]
    show "tx_key micros ` set ts \<subseteq> key_of ` set (tbl d')" by simp
  next
    assume "port_SaveBulk (postgres_port drv (Some p)) c ts d = (d', ms, e)"
    from SaveBulk_inserted [OF this [unfolded postgres_port_def, simplified] ready]
    show "key_of ` set (tbl d) \<subseteq> key_of ` set (tbl d')" by (rule inserted_keys_le)
  }
qed

interpretation ref_repo: pg_repo ref_driver db_rows db_now pg_micros pg_of_micros sample_repo
  by unfold_locales (simp add: sample_repo_def)

subsection \<open>The service\<close>

record ('d, 'c) transactionService =
  svc_repo :: "('d, 'c) TransactionRepository"

definition NewTransactionService ::
  "('d, 'c) TransactionRepository \<Rightarrow> ('d, 'c) transactionService" where
  "NewTransactionService repo = \<lparr>svc_repo = repo\<rparr>"

definition RegisterTransaction ::
  "('d, 'c) transactionService \<Rightarrow> 'c \<Rightarrow> transaction \<Rightarrow> 'd \<Rightarrow> 'd \<times> metric_call list \<times> goerr option" where
  "RegisterTransaction s ctx t = port_Save (svc_repo s) ctx t"

definition RegisterTransactions ::
  "('d, 'c) transactionService \<Rightarrow> 'c \<Rightarrow> transaction list \<Rightarrow> 'd
    \<Rightarrow> 'd \<times> metric_call list \<times> goerr option" where
  "RegisterTransactions s ctx txs = port_SaveBulk (svc_repo s) ctx txs"

definition GetTransactions ::
  "('d, 'c) transactionService \<Rightarrow> 'c \<Rightarrow> int64 \<Rightarrow> TransactionType option \<Rightarrow> 'd
    \<Rightarrow> 'd \<times> metric_call list \<times> (goerr + transaction list)" where
  "GetTransactions s ctx userID tType = port_Get (svc_repo s) ctx userID tType"

lemmas service_defs = NewTransactionService_def RegisterTransaction_def RegisterTransactions_def
  GetTransactions_def

end
