(* ===== verification/World.thy ===== *)
theory World
  imports Worker Service
begin

text \<open>
  A concrete outside for the consumer: the service over the PostgreSQL adapter over any driver,
  and a broker that keeps the dead letters and the commit requests. What the environment
  decides is in lists of the state: the faults of writes and commits, at which calls the
  stop signal arrives, and what the reader will fetch. It gives the contract \<open>consumer_env\<close>
  whenever the driver gives \<open>pg_driver\<close>.
\<close>

record 'd world =
  w_db :: 'd
  w_dlq :: "dlq_record list"
  w_commits :: "kmsg list"
  w_cancelled :: bool
  w_signals :: "bool list"
  w_write_faults :: "fault list"
  w_commit_faults :: "fault list"
  w_clock :: gotime
  w_metrics :: "metric_call list"
  w_fetches :: "(goerr + kmsg) list"

text \<open>A call during which the stop signal may arrive.\<close>

definition tick :: "'d world \<Rightarrow> 'd world" where
  [world_defs]: "tick w =
     (case w_signals w of
        [] \<Rightarrow> w
      | b # bs \<Rightarrow> w\<lparr>w_signals := bs, w_cancelled := w_cancelled w \<or> b\<rparr>)"

definition world_service :: "('d, bool) sql_driver \<Rightarrow> postgres_repo \<Rightarrow> ('d, bool) transactionService" where
  [world_defs]: "world_service drv p = NewTransactionService (postgres_port drv (Some p))"

definition world_register ::
  "('d, bool) sql_driver \<Rightarrow> postgres_repo \<Rightarrow> int64 \<Rightarrow> transaction \<Rightarrow> 'd world \<Rightarrow> 'd world \<times> goerr option" where
  [world_defs]: "world_register drv p timeout t w =
     (let (d, ms, e) = RegisterTransaction (world_service drv p) (w_cancelled w) t (w_db w)
      in (tick (w\<lparr>w_db := d, w_metrics := w_metrics w @ ms\<rparr>), e))"

definition world_registers ::
  "('d, bool) sql_driver \<Rightarrow> postgres_repo \<Rightarrow> int64 \<Rightarrow> transaction list \<Rightarrow> 'd world \<Rightarrow> 'd world \<times> goerr option" where
  [world_defs]: "world_registers drv p timeout ts w =
     (let (d, ms, e) = RegisterTransactions (world_service drv p) (w_cancelled w) ts (w_db w)
      in (tick (w\<lparr>w_db := d, w_metrics := w_metrics w @ ms\<rparr>), e))"

fun fault_error :: "fault \<Rightarrow> goerr option" where
  "fault_error NoFault = None"
| "fault_error (FailBefore e) = Some e"
| "fault_error (FailAfter e) = Some e"

fun takes_effect :: "fault \<Rightarrow> bool" where
  "takes_effect (FailBefore e) = False"
| "takes_effect _ = True"

definition pop_fault :: "fault list \<Rightarrow> fault \<times> fault list" where
  [world_defs]: "pop_fault fs = (case fs of [] \<Rightarrow> (NoFault, []) | f # fs \<Rightarrow> (f, fs))"

definition world_commit :: "kmsg list \<Rightarrow> 'd world \<Rightarrow> 'd world \<times> goerr option" where
  [world_defs]: "world_commit ms w =
     (let (f, fs) = pop_fault (w_commit_faults w) in
      (tick (w\<lparr>w_commit_faults := fs,
               w_commits := w_commits w @ (if takes_effect f then ms else [])\<rparr>), fault_error f))"

definition world_write :: "dlq_record \<Rightarrow> 'd world \<Rightarrow> 'd world \<times> goerr option" where
  [world_defs]: "world_write r w =
     (let (f, fs) = pop_fault (w_write_faults w) in
      (tick (w\<lparr>w_write_faults := fs,
               w_dlq := w_dlq w @ (if takes_effect f then [r] else [])\<rparr>), fault_error f))"

definition world_out ::
  "('d, bool) sql_driver \<Rightarrow> postgres_repo \<Rightarrow> bool \<Rightarrow> (string \<Rightarrow> string) \<Rightarrow> 'd world outside" where
  "world_out drv p has_writer sha =
     \<lparr>CtxErr = (\<lambda>w. if w_cancelled w then Some (Sentinel CtxCanceled) else None),
      Cancel = (\<lambda>w. w\<lparr>w_cancelled := True\<rparr>),
      Register = world_register drv p, Registers = world_registers drv p,
      CommitMessages = world_commit,
      WriteMessages = (if has_writer then Some world_write else None),
      Now = (\<lambda>w. (w, w_clock w)), Int63n = (\<lambda>n w. (w, 0)), Sleep = (\<lambda>d w. tick w),
      Sha256Hex = sha, FloatRange = word_of_int int64_min\<rparr>"

definition world_stored :: "('d \<Rightarrow> row list) \<Rightarrow> (gotime \<Rightarrow> int) \<Rightarrow> 'd world \<Rightarrow> transaction set" where
  "world_stored tbl micros w = {t. tx_key micros t \<in> key_of ` set (tbl (w_db w))}"

lemma tick_simps [simp]:
  "w_db (tick w) = w_db w" "w_dlq (tick w) = w_dlq w" "w_commits (tick w) = w_commits w"
  "w_cancelled w \<Longrightarrow> w_cancelled (tick w)" "w_clock (tick w) = w_clock w"
  by (simp_all add: tick_def split: list.split)

text \<open>The composition: a driver that also refuses to run a statement under a context that is done.\<close>

locale pg_world = pg_repo drv tbl clock micros of_micros p
  for drv :: "('d, bool) sql_driver" and tbl clock micros of_micros p +
  fixes has_writer :: bool and sha :: "string \<Rightarrow> string" and k :: Kafka
  assumes exec_done: "snd (ExecContext drv d True q args) \<noteq> None"
begin

text \<open>The unique key of the table.\<close>

definition world_inv :: "'d world \<Rightarrow> bool" where
  "world_inv w \<longleftrightarrow> distinct (map key_of (tbl (w_db w)))"

lemma Save_done: "snd (snd (Save drv (Some p) True t d)) \<noteq> None"
  using exec_done ready
  by (auto simp: Save_def timed_def nil_db_def Let_def split: prod.splits option.splits)
    (metis exec_done snd_conv)+

lemma SaveBulk_done: "ts \<noteq> [] \<Longrightarrow> snd (snd (SaveBulk drv (Some p) True ts d)) \<noteq> None"
  using exec_done ready
  by (auto simp: SaveBulk_def timed_def nil_db_def Let_def split: prod.splits option.splits)
    (metis exec_done snd_conv)+

text \<open>The step of an operation, from what it does to the five parts.\<close>

lemma world_stepI:
  assumes "key_of ` set (tbl (w_db w)) \<subseteq> key_of ` set (tbl (w_db w'))" "set (w_dlq w) \<subseteq> set (w_dlq w')"
    "set (w_commits w) \<subseteq> set (w_commits w')" "set (w_commits w') \<subseteq> set (w_commits w) \<union> C"
    "w_cancelled w \<Longrightarrow> w_cancelled w'" "world_inv w \<Longrightarrow> world_inv w'"
  shows "outside_step (world_out drv p has_writer sha) (world_stored tbl micros)
    (\<lambda>w. set (w_dlq w)) (\<lambda>w. set (w_commits w)) world_inv C w w'"
  using assms by (auto simp: outside_step_def world_stored_def world_out_def)

lemma register_world:
  assumes "world_register drv p d t w = (w', e)"
  shows "key_of ` set (tbl (w_db w)) \<subseteq> key_of ` set (tbl (w_db w'))" "w_dlq w' = w_dlq w"
    "w_commits w' = w_commits w" "w_cancelled w \<Longrightarrow> w_cancelled w'"
    "e = None \<Longrightarrow> t \<in> world_stored tbl micros w'" "w_cancelled w \<Longrightarrow> e \<noteq> None"
    "world_inv w \<Longrightarrow> world_inv w'"
proof -
  obtain d' ms e' where r: "Save drv (Some p) (w_cancelled w) t (w_db w) = (d', ms, e')"
    by (metis prod_cases3)
  with assms have w: "w' = tick (w\<lparr>w_db := d', w_metrics := w_metrics w @ ms\<rparr>)" "e = e'"
    by (auto simp: world_register_def world_service_def service_defs postgres_port_def)
  from r have r': "port_Save (postgres_port drv (Some p)) (w_cancelled w) t (w_db w) = (d', ms, e')"
    by (simp add: postgres_port_def)
  show "key_of ` set (tbl (w_db w)) \<subseteq> key_of ` set (tbl (w_db w'))" using save_mono [OF r'] w by simp
  show "w_dlq w' = w_dlq w" "w_commits w' = w_commits w" "w_cancelled w \<Longrightarrow> w_cancelled w'"
    using w by simp_all
  show "e = None \<Longrightarrow> t \<in> world_stored tbl micros w'"
    using save_ok r' w by (auto simp: world_stored_def)
  show "w_cancelled w \<Longrightarrow> e \<noteq> None" using Save_done [of t "w_db w"] r w by auto
  show "world_inv w \<Longrightarrow> world_inv w'"
    using inserted_distinct [OF Save_inserted [OF r ready]] w by (simp add: world_inv_def)
qed

lemma registers_world:
  assumes "world_registers drv p d ts w = (w', e)"
  shows "key_of ` set (tbl (w_db w)) \<subseteq> key_of ` set (tbl (w_db w'))" "w_dlq w' = w_dlq w"
    "w_commits w' = w_commits w" "w_cancelled w \<Longrightarrow> w_cancelled w'"
    "e = None \<Longrightarrow> set ts \<subseteq> world_stored tbl micros w'" "\<lbrakk>w_cancelled w; ts \<noteq> []\<rbrakk> \<Longrightarrow> e \<noteq> None"
    "world_inv w \<Longrightarrow> world_inv w'"
proof -
  obtain d' ms e' where r: "SaveBulk drv (Some p) (w_cancelled w) ts (w_db w) = (d', ms, e')"
    by (metis prod_cases3)
  with assms have w: "w' = tick (w\<lparr>w_db := d', w_metrics := w_metrics w @ ms\<rparr>)" "e = e'"
    by (auto simp: world_registers_def world_service_def service_defs postgres_port_def)
  from r have r': "port_SaveBulk (postgres_port drv (Some p)) (w_cancelled w) ts (w_db w) = (d', ms, e')"
    by (simp add: postgres_port_def)
  show "key_of ` set (tbl (w_db w)) \<subseteq> key_of ` set (tbl (w_db w'))" using bulk_mono [OF r'] w by simp
  show "w_dlq w' = w_dlq w" "w_commits w' = w_commits w" "w_cancelled w \<Longrightarrow> w_cancelled w'"
    using w by simp_all
  show "e = None \<Longrightarrow> set ts \<subseteq> world_stored tbl micros w'"
    using bulk_ok [of "w_cancelled w" ts "w_db w" d' ms] r' w by (auto simp: world_stored_def)
  show "\<lbrakk>w_cancelled w; ts \<noteq> []\<rbrakk> \<Longrightarrow> e \<noteq> None" using SaveBulk_done [of ts "w_db w"] r w by auto
  show "world_inv w \<Longrightarrow> world_inv w'"
    using inserted_distinct [OF SaveBulk_inserted [OF r ready]] w by (simp add: world_inv_def)
qed

lemma fault_ok: "fault_error f = None \<Longrightarrow> takes_effect f"
  by (cases f) simp_all

lemma commit_world:
  "outside_step (world_out drv p has_writer sha) (world_stored tbl micros)
     (\<lambda>w. set (w_dlq w)) (\<lambda>w. set (w_commits w)) world_inv (set ms) w (fst (world_commit ms w))"
  "world_commit ms w = (w', None) \<Longrightarrow> set ms \<subseteq> set (w_commits w')"
  by (rule world_stepI; simp add: world_commit_def case_prod_beta world_inv_def)
    (auto simp: world_commit_def case_prod_beta fault_ok)

lemma write_world:
  "outside_step (world_out drv p has_writer sha) (world_stored tbl micros)
     (\<lambda>w. set (w_dlq w)) (\<lambda>w. set (w_commits w)) world_inv {} w (fst (world_write r w))"
  "world_write r w = (w', None) \<Longrightarrow> r \<in> set (w_dlq w')"
  by (rule world_stepI; simp add: world_write_def case_prod_beta world_inv_def; fail)
    (auto simp: world_write_def case_prod_beta fault_ok)

lemma tick_world:
  "outside_step (world_out drv p has_writer sha) (world_stored tbl micros)
     (\<lambda>w. set (w_dlq w)) (\<lambda>w. set (w_commits w)) world_inv {} w (tick w)"
  by (rule world_stepI) (simp_all add: world_inv_def)

lemma idle_world:
  "outside_step (world_out drv p has_writer sha) (world_stored tbl micros)
     (\<lambda>w. set (w_dlq w)) (\<lambda>w. set (w_commits w)) world_inv {} w w"
  by (rule world_stepI) simp_all

end

sublocale pg_world \<subseteq> env: consumer_env "world_out drv p has_writer sha" "world_stored tbl micros"
  "\<lambda>w. set (w_dlq w)" "\<lambda>w. set (w_commits w)" world_inv
proof
  let ?out = "world_out drv p has_writer sha"
  let ?step = "outside_step ?out (world_stored tbl micros) (\<lambda>w. set (w_dlq w)) (\<lambda>w. set (w_commits w)) world_inv"
  fix w w' :: "'d world" and d t ts ms put r n e
  show "CtxErr ?out w = Some e \<Longrightarrow> errors_Is e CtxCanceled \<or> errors_Is e CtxDeadlineExceeded"
    by (auto simp: world_out_def split: if_splits)
  show "?step {} w (Cancel ?out w)" "CtxErr ?out (Cancel ?out w) \<noteq> None"
    by (intro world_stepI; simp add: world_out_def world_inv_def) (simp add: world_out_def)
  show "?step {} w (fst (Register ?out d t w))"
    using register_world(1-4,7) [of d t w "fst (Register ?out d t w)" "snd (Register ?out d t w)"]
    by (intro world_stepI) (simp_all add: world_out_def)
  show "Register ?out d t w = (w', None) \<Longrightarrow> t \<in> world_stored tbl micros w'"
    using register_world(5) by (simp add: world_out_def)
  show "CtxErr ?out w \<noteq> None \<Longrightarrow> snd (Register ?out d t w) \<noteq> None"
    using register_world(6) [of d t w "fst (Register ?out d t w)" "snd (Register ?out d t w)"]
    by (simp add: world_out_def split: if_splits)
  show "?step {} w (fst (Registers ?out d ts w))"
    using registers_world(1-4,7) [of d ts w "fst (Registers ?out d ts w)" "snd (Registers ?out d ts w)"]
    by (intro world_stepI) (simp_all add: world_out_def)
  show "Registers ?out d ts w = (w', None) \<Longrightarrow> set ts \<subseteq> world_stored tbl micros w'"
    using registers_world(5) by (simp add: world_out_def)
  show "\<lbrakk>CtxErr ?out w \<noteq> None; ts \<noteq> []\<rbrakk> \<Longrightarrow> snd (Registers ?out d ts w) \<noteq> None"
    using registers_world(6) [of d ts w "fst (Registers ?out d ts w)" "snd (Registers ?out d ts w)"]
    by (simp add: world_out_def split: if_splits)
  show "?step (set ms) w (fst (CommitMessages ?out ms w))"
    using commit_world(1) by (simp add: world_out_def)
  show "CommitMessages ?out ms w = (w', None) \<Longrightarrow> set ms \<subseteq> set (w_commits w')"
    using commit_world(2) by (simp add: world_out_def)
  show "WriteMessages ?out = Some put \<Longrightarrow> ?step {} w (fst (put r w))"
    using write_world(1) by (auto simp: world_out_def split: if_splits)
  show "\<lbrakk>WriteMessages ?out = Some put; put r w = (w', None)\<rbrakk> \<Longrightarrow> r \<in> set (w_dlq w')"
    using write_world(2) by (auto simp: world_out_def split: if_splits)
  show "?step {} w (fst (Now ?out w))" "?step {} w (fst (Int63n ?out n w))"
    using idle_world by (simp_all add: world_out_def)
  show "?step {} w (Sleep ?out d w)" using tick_world by (simp add: world_out_def)
qed

text \<open>The consumer that \<open>NewConsumerWithMetrics\<close> builds over it.\<close>

lemma normalize_retries: "0 \<le> MaxProcessRetries (normalizeKafkaConfig k)"
  by (simp add: normalizeKafkaConfig_def Let_def)

sublocale pg_world \<subseteq> con: kafka_consumer "NewConsumerWithMetrics (world_out drv p has_writer sha) k"
  "world_stored tbl micros" "\<lambda>w. set (w_dlq w)" "\<lambda>w. set (w_commits w)" world_inv
proof (rule kafka_consumer.intro)
  show "consumer_env (c_out (NewConsumerWithMetrics (world_out drv p has_writer sha) k))
    (world_stored tbl micros) (\<lambda>w. set (w_dlq w)) (\<lambda>w. set (w_commits w)) world_inv"
    using env.consumer_env_axioms by (simp add: NewConsumerWithMetrics_def)
qed (simp add: kafka_consumer_axioms_def NewConsumerWithMetrics_def normalize_retries)

context pg_world
begin

lemma consumer_axioms:
  "kafka_consumer (NewConsumerWithMetrics (world_out drv p has_writer sha) k)
     (world_stored tbl micros) (\<lambda>w. set (w_dlq w)) (\<lambda>w. set (w_commits w)) world_inv"
  by (rule con.kafka_consumer_axioms)

end

text \<open>Over the reference database.\<close>

interpretation ref_world: pg_world ref_driver db_rows db_now pg_micros pg_of_micros sample_repo
  has_writer sha k for has_writer sha k
  by unfold_locales (simp add: ref_driver_def ref_exec_def)

definition sample_consumer :: "bool \<Rightarrow> refdb world Consumer" where
  "sample_consumer has_writer =
     NewConsumerWithMetrics (world_out ref_driver sample_repo has_writer (\<lambda>_. ''digest''))
       (cfg_Kafka empty_config)"

definition sample_world :: "fault list \<Rightarrow> bool list \<Rightarrow> refdb world" where
  "sample_world faults signals =
     \<lparr>w_db = sample_db faults, w_dlq = [], w_commits = [], w_cancelled = False,
      w_signals = signals, w_write_faults = [], w_commit_faults = [],
      w_clock = zero_time, w_metrics = [], w_fetches = []\<rparr>"

definition start_state :: "'w \<Rightarrow> 'w cstate" where
  "start_state w = \<lparr>wld = w, inflight = 0, mcalls = [], fatal = None\<rparr>"

text \<open>Two messages: a transaction, and a value that is not JSON.\<close>

definition message :: "int \<Rightarrow> string \<Rightarrow> kmsg" where
  "message off val =
     \<lparr>k_topic = ''transactions'', k_partition = 0, k_offset = off, k_key = [], k_value = val,
      k_headers = [], k_time = zero_time\<rparr>"

definition good_msg :: "int \<Rightarrow> kmsg" where
  "good_msg off = message off (render_dto sample_dto)"

definition bad_msg :: "int \<Rightarrow> kmsg" where
  "bad_msg off = message off ''no json''"

definition good_tx :: transaction where
  "good_tx = \<lparr>ID = 0, UserID = 11, Type = ''bet'', Amount = 1250,
     Timestamp = \<lparr>unix_sec = 1774605600, nanos = 0, zone_off = 0\<rparr>, CreatedAt = zero_time\<rparr>"

definition bad_err :: goerr where
  "bad_err = (case parseAndValidateMsg (bad_msg 0) of Inl e \<Rightarrow> e | Inr _ \<Rightarrow> Opaque [])"

lemma parse_offset: "parseAndValidateMsg (message off val) = parseAndValidateMsg (message 0 val)"
  by (simp add: parseAndValidateMsg_def message_def)

lemma parse_good [simp]: "parseAndValidateMsg (good_msg off) = Inr good_tx"
  unfolding good_msg_def by (subst parse_offset) code_simp

lemma parse_bad [simp]: "parseAndValidateMsg (bad_msg off) = Inl bad_err" "\<not> errors_Is bad_err e"
proof -
  have "isl (Unmarshal ''no json'')" by code_simp
  then show "parseAndValidateMsg (bad_msg off) = Inl bad_err" "\<not> errors_Is bad_err e"
    by (auto simp: parseAndValidateMsg_def bad_err_def bad_msg_def message_def isl_def)
qed

lemma valid_good [simp]: "valid_msg (good_msg off)" and valid_bad [simp]: "\<not> valid_msg (bad_msg off)"
  by (simp_all add: valid_msg_def)

lemma sample_cfg [simp]:
  "ProcessTimeoutMs (c_cfg (sample_consumer b)) = 5000"
  "MaxProcessRetries (c_cfg (sample_consumer b)) = 0"
  "RetryJitterMs (c_cfg (sample_consumer b)) = 300"
  "RetryBaseDelayMs (c_cfg (sample_consumer b)) = 100"
  "BatchSize (c_cfg (sample_consumer b)) = 100"
  "c_out (sample_consumer b) = world_out ref_driver sample_repo b (\<lambda>_. ''digest'')"
  by (simp_all add: sample_consumer_def NewConsumerWithMetrics_def normalizeKafkaConfig_def
      empty_config_def Let_def)

lemma sample_fields [simp]:
  "k_time (good_msg off) = zero_time" "k_time (bad_msg off) = zero_time"
  "k_offset (good_msg off) = off" "k_offset (bad_msg off) = off"
  "bad_msg off \<noteq> good_msg off'" "good_msg off' \<noteq> bad_msg off"
proof -
  show "k_time (good_msg off) = zero_time" "k_time (bad_msg off) = zero_time"
    "k_offset (good_msg off) = off" "k_offset (bad_msg off) = off"
    by (simp_all add: good_msg_def bad_msg_def message_def)
  show "bad_msg off \<noteq> good_msg off'" "good_msg off' \<noteq> bad_msg off"
    by (metis valid_good valid_bad)+
qed

lemma bind_good [simp]:
  "bind_rows pg_micros now (save_args good_tx) (tuple_text 0) = Some [row_of pg_micros now good_tx]"
  "row_ok (row_of pg_micros now good_tx)"
  using bulk_statement [of "[]" 0 pg_micros now "[good_tx]"]
  by (simp_all add: bind_rows_def row_ok_row_of) (simp_all add: good_tx_def)

text \<open>The definitions that evaluate a run of the sample consumer by rewriting.\<close>

lemmas run_defs =
  world_out_def start_state_def sample_world_def sample_db_def sample_repo_def
  service_defs postgres_port_def SaveBulk_def Save_def [unfolded ref.tuple_text_0] timed_def nil_db_def nil_metrics_def
  observeDuration_def ref_driver_def ref_exec_def next_fault_def
  partitionWorker_def worker_recv_def new_worker_def flush_def flushBatch_def flush_body_def
  handleMessage_def processMessageWithRetries_def observeLag_def routeToDLQ_def commit_def c_now_def
  dlq_payload_def payloadFingerprint_def Let_def eval_nat_numeral

end
