(* ===== verification/Handling.thy ===== *)
theory Handling
  imports World
begin

text \<open>
  What the consumer guarantees without any assumption on its outside: the defaults of its
  settings, the verdict on a message, the number of retries, the delays between them, and the
  in-flight counter.
\<close>

subsection \<open>Settings\<close>

text \<open>A guarded assignment is the assignment of the guarded value.\<close>

lemma guarded_update:
  "(if ProcessTimeoutMs k \<le> 0 then k\<lparr>ProcessTimeoutMs := d\<rparr> else k) = k\<lparr>ProcessTimeoutMs := at_least_one (ProcessTimeoutMs k) d\<rparr>"
  "(if RetryBaseDelayMs k \<le> 0 then k\<lparr>RetryBaseDelayMs := d\<rparr> else k) = k\<lparr>RetryBaseDelayMs := at_least_one (RetryBaseDelayMs k) d\<rparr>"
  "(if RetryJitterMs k \<le> 0 then k\<lparr>RetryJitterMs := d\<rparr> else k) = k\<lparr>RetryJitterMs := at_least_one (RetryJitterMs k) d\<rparr>"
  "(if MetricsFlushSec k \<le> 0 then k\<lparr>MetricsFlushSec := d\<rparr> else k) = k\<lparr>MetricsFlushSec := at_least_one (MetricsFlushSec k) d\<rparr>"
  "(if ShutdownDrainTimeoutSec k \<le> 0 then k\<lparr>ShutdownDrainTimeoutSec := d\<rparr> else k) = k\<lparr>ShutdownDrainTimeoutSec := at_least_one (ShutdownDrainTimeoutSec k) d\<rparr>"
  "(if BatchSize k \<le> 0 then k\<lparr>BatchSize := d\<rparr> else k) = k\<lparr>BatchSize := at_least_one (BatchSize k) d\<rparr>"
  "(if BatchFlushIntervalSec k \<le> 0 then k\<lparr>BatchFlushIntervalSec := d\<rparr> else k) = k\<lparr>BatchFlushIntervalSec := at_least_one (BatchFlushIntervalSec k) d\<rparr>"
  "(if MaxProcessRetries k < 0 then k\<lparr>MaxProcessRetries := d\<rparr> else k)
   = k\<lparr>MaxProcessRetries := (if MaxProcessRetries k < 0 then d else MaxProcessRetries k)\<rparr>"
  "(if DLQTopic k = [] \<and> Topic k \<noteq> [] then k\<lparr>DLQTopic := t\<rparr> else k)
   = k\<lparr>DLQTopic := (if DLQTopic k = [] \<and> Topic k \<noteq> [] then t else DLQTopic k)\<rparr>"
  by (simp_all add: at_least_one_def)

lemma normalize_default: "normalizeKafkaConfig k = default_kafka k"
  unfolding normalizeKafkaConfig_def guarded_update Let_def by (simp add: default_kafka_def)

text \<open>
  The two places that fill in missing consumer settings agree: \<open>normalizeKafkaConfig\<close> of the
  consumer computes exactly what \<open>loadConfig\<close> applied before, so it changes nothing of a loaded
  configuration, and applying it twice is applying it once.
\<close>

theorem normalize_agrees:
  "normalizeKafkaConfig k = default_kafka k
   \<and> normalizeKafkaConfig (cfg_Kafka (apply_defaults cfg)) = cfg_Kafka (apply_defaults cfg)
   \<and> normalizeKafkaConfig (normalizeKafkaConfig k) = normalizeKafkaConfig k"
  by (simp add: normalize_default apply_defaults_def default_kafka_id default_kafka_valid)

subsection \<open>The verdict on a message\<close>

text \<open>
  C12: a message passes exactly when its value is a JSON payload whose amount parses and whose
  transaction keeps the business rules; every rejection is final: it is never retried and never
  mistaken for a shutdown.
\<close>

theorem parse_verdict:
  "case parseAndValidateMsg m of
     Inr t \<Rightarrow> valid_tx t \<and> (\<exists>dto. Unmarshal (k_value m) = Inr dto \<and> ToDomain dto = Inr t)
   | Inl e \<Rightarrow> errors_As_nonRetryable e \<and> \<not> Retryable (Classify e) \<and> \<not> ctx_error e
       \<and> \<not> (\<exists>dto t. Unmarshal (k_value m) = Inr dto \<and> ToDomain dto = Inr t \<and> valid_tx t)"
  by (auto simp: parseAndValidateMsg_def Classify_def Validate_None split: sum.split option.split)
    (simp_all flip: Validate_None)

subsection \<open>Partial results\<close>

text \<open>\<open>P\<close> holds of the result, if the call returns.\<close>

definition oall :: "('a \<Rightarrow> bool) \<Rightarrow> 'a option \<Rightarrow> bool" where
  "oall P x \<longleftrightarrow> (\<forall>a. x = Some a \<longrightarrow> P a)"

lemma oall_simps [simp]: "oall P None" "oall P (Some a) \<longleftrightarrow> P a"
  by (simp_all add: oall_def)

lemma oall_bind: "\<lbrakk>oall P m; \<And>a. P a \<Longrightarrow> oall Q (k a)\<rbrakk> \<Longrightarrow> oall Q (Option.bind m k)"
  by (cases m) auto

lemma oall_mono: "\<lbrakk>oall P m; \<And>a. P a \<Longrightarrow> Q a\<rbrakk> \<Longrightarrow> oall Q m"
  by (cases m) auto

lemma oallD: "\<lbrakk>oall P m; m = Some a\<rbrakk> \<Longrightarrow> P a"
  by simp

subsection \<open>The in-flight counter\<close>

lemma inflight_simps [simp]:
  "inflight (emit m s) = inflight s" "inflight (show_inflight s) = inflight s"
  "inflight (add_inflight n s) = inflight s + n" "inflight (triggerFatal c e s) = inflight s"
  "inflight (fst (c_now c s)) = inflight s"
  by (simp_all add: consumer_defs case_prod_beta)

lemma inflight_observe [simp]:
  "inflight (observe_processing c ls t s) = inflight s" "inflight (set_last_success c s) = inflight s"
  "inflight (observeLag c msg s) = inflight s"
  using inflight_simps(5) [of c s]
  by (simp_all add: observe_processing_def set_last_success_def observeLag_def Let_def case_prod_beta)

lemma inflight_sleep: "oall (\<lambda>s'. inflight s' = inflight s) (sleepBackoff c n s)"
  "oall (\<lambda>s'. inflight s' = inflight s) (pauseWithJitter c s)"
  by (simp_all add: pauseWithJitter_def sleepBackoff_def Let_def case_prod_beta)

lemma inflight_route: "inflight (fst (routeToDLQ c msg e s)) = inflight s"
  using inflight_simps(5) [of c s]
  by (auto simp: routeToDLQ_def Let_def case_prod_beta split: option.split)

lemma inflight_commit: "inflight (fst (commit c msg s)) = inflight s"
  by (simp add: commit_def Let_def case_prod_beta split: option.split)

lemma inflight_attempts: "oall (\<lambda>(s', r). inflight s' = inflight s) (process_attempts c t n a s)"
proof (induction n arbitrary: a s)
  case (Suc n)
  then show ?case
    by (auto simp: Let_def case_prod_beta split: option.split
        intro!: oall_bind [OF inflight_sleep(1)] oall_mono [OF Suc.IH])
qed simp

lemma inflight_process: "oall (\<lambda>(s', r). inflight s' = inflight s) (processMessageWithRetries c msg s)"
  by (simp add: processMessageWithRetries_def inflight_attempts split: sum.split)

lemma inflight_dlq_loop: "oall (\<lambda>(s', b). inflight s' = inflight s) (dlq_loop f c msg e s)"
proof (induction f arbitrary: s)
  case (Suc f)
  with inflight_route [of c msg e s] show ?case
    by (auto simp: Let_def case_prod_beta split: option.split
        intro!: oall_bind [OF inflight_sleep(2)] oall_mono [OF Suc.IH])
qed simp

lemma inflight_commit_loop: "oall (\<lambda>s'. inflight s' = inflight s) (commit_loop f c msg s)"
proof (induction f arbitrary: s)
  case (Suc f)
  with inflight_commit [of c msg s] show ?case
    by (auto simp: Let_def case_prod_beta
        intro!: oall_bind [OF inflight_sleep(2)] oall_mono [OF Suc.IH])
qed simp

lemma inflight_bulk_commit: "oall (\<lambda>s'. inflight s' = inflight s) (bulk_commit_loop f c msgs s)"
proof (induction f arbitrary: s)
  case (Suc f)
  then show ?case
    by (auto simp: Let_def case_prod_beta
        intro!: oall_bind [OF inflight_sleep(2)] oall_mono [OF Suc.IH])
qed simp

lemma inflight_handle: "oall (\<lambda>s'. inflight s' = inflight s) (handleMessage f c msg s)"
proof -
  obtain s1 t0 where n: "c_now c (observeLag c msg s) = (s1, t0)" by (metis surj_pair)
  have "inflight s1 = inflight s" using inflight_simps(5) [of c "observeLag c msg s"] n by simp
  then show ?thesis
    by (auto simp: handleMessage_def n Let_def split: option.split
        intro!: oall_bind [OF inflight_process] oall_bind [OF inflight_dlq_loop]
          oall_mono [OF inflight_commit_loop])
qed

lemma inflight_each: "oall (\<lambda>s'. inflight s' = inflight s) (handle_each f c msgs s)"
proof (induction msgs arbitrary: s)
  case (Cons m msgs)
  then show ?case
    by (auto intro!: oall_bind [OF inflight_handle] oall_mono [OF Cons.IH])
qed simp

lemma inflight_bulk_attempts:
  "oall (\<lambda>(s', r). inflight s' = inflight s) (bulk_attempts c ts n a e s)"
proof (induction n arbitrary: a e s)
  case (Suc n)
  then show ?case
    by (auto simp: Let_def case_prod_beta split: option.split
        intro!: oall_bind [OF inflight_sleep(1)] oall_mono [OF Suc.IH])
qed simp

lemma inflight_flush_body: "oall (\<lambda>s'. inflight s' = inflight s) (flush_body f c msgs ts s)"
proof -
  obtain s1 t0 where n: "c_now c s = (s1, t0)" by (metis surj_pair)
  have "inflight s1 = inflight s" using inflight_simps(5) [of c s] n by simp
  then show ?thesis
    by (auto simp: flush_body_def n Let_def split: bulk_result.split option.split
        intro!: oall_bind [OF inflight_bulk_attempts] oall_bind [OF inflight_each]
          oall_mono [OF inflight_bulk_commit])
qed

lemma inflight_flush: "oall (\<lambda>(wk', s'). inflight s' = inflight s) (flush f c wk s)"
  by (auto simp: flush_def flushBatch_def Let_def intro!: oall_bind [OF inflight_flush_body]
      oall_bind [where P = "\<lambda>s'. inflight s' = inflight s"])

lemma inflight_worker: "oall (\<lambda>(wk', s'). inflight s' = inflight s) (partitionWorker f c ev wk s)"
  by (auto simp: partitionWorker_def worker_recv_def Let_def split: worker_event.split sum.split
      intro!: inflight_flush oall_bind [OF inflight_flush] oall_bind [OF inflight_handle])

text \<open>
  C27: the in-flight counter is balanced. Whatever happens inside a run of the worker, including
  the fallback from the bulk insert and every abort, the counter ends where it began (in 64-bit
  arithmetic).
\<close>

theorem inflight_balanced:
  assumes "worker_run f c evs wk s = Some (wk', s')"
  shows "inflight s' = inflight s"
proof -
  have "oall (\<lambda>(wk', s'). inflight s' = inflight s) (worker_run f c evs wk s)" for wk s
  proof (induction evs arbitrary: wk s)
    case (Cons ev evs)
    show ?case unfolding worker_run.simps
      by (rule oall_bind [OF inflight_worker]) (auto intro!: oall_mono [OF Cons.IH])
  qed simp
  from oallD [OF this assms] show ?thesis by simp
qed

theorem inflight_balanced_witness:
  "\<exists>s' :: refdb world cstate. inflight s' = 0 \<and> w_commits (wld s') = [bad_msg 2]"
proof -
  obtain s' where r: "worker_run 5 (sample_consumer True) [Recv (good_msg 1), Recv (bad_msg 2)] new_worker
      (start_state (sample_world [FailBefore (Sentinel CtxCanceled)] [True])) = Some (new_worker, s')"
    "w_commits (wld s') = [bad_msg 2]"
    by (simp add: run_defs consumer_defs world_defs)
  from inflight_balanced [OF r(1)] r(2) show ?thesis by (auto simp: start_state_def)
qed

subsection \<open>Retries\<close>

text \<open>
  C28: a message is offered to the service at most \<open>MaxProcessRetries + 1\<close> times by one
  handling: for every count of the outside that a call of the service raises by at most one and
  that waiting does not change.
\<close>

theorem attempts_bounded:
  assumes "\<And>d t w. calls (fst (Register (c_out c) d t w)) \<le> calls w + (1 :: nat)"
    and "\<And>n w. calls (fst (Int63n (c_out c) n w)) = calls w"
    and "\<And>d w. calls (Sleep (c_out c) d w) = calls w"
    and "processMessageWithRetries c msg s = Some (s', r)"
  shows "calls (wld s') \<le> calls (wld s) + nat (MaxProcessRetries (c_cfg c) + 1)"
proof -
  have sl: "oall (\<lambda>s'. calls (wld s') = calls (wld s)) (sleepBackoff c n s)" for n s
    using assms(2,3) by (simp add: sleepBackoff_def Let_def case_prod_beta)
  have "oall (\<lambda>(s', r). calls (wld s') \<le> calls (wld s) + n) (process_attempts c t n a s)" for n a t s
  proof (induction n arbitrary: a s)
    case (Suc n)
    obtain w err where r: "Register (c_out c) (millis (ProcessTimeoutMs (c_cfg c))) t (wld s) = (w, err)"
      by (metis surj_pair)
    then have "calls w \<le> calls (wld s) + 1" using assms(1) by (metis fst_conv)
    with r show ?case
      by (auto simp: Let_def emit_def split: option.split
          intro!: oall_bind [OF sl] oall_mono [OF Suc.IH])
  qed simp
  with assms(4) show ?thesis
    by (auto simp: processMessageWithRetries_def split: sum.splits dest: oallD)
      (use oallD in fastforce)
qed

definition statements :: "'d world \<Rightarrow> nat" where
  "statements w = length (filter (\<lambda>m. case m of IncCounter _ _ _ \<Rightarrow> True | _ \<Rightarrow> False) (w_metrics w))"

theorem attempts_bounded_witness:
  "\<exists>r. processMessageWithRetries (sample_consumer True) (good_msg 1) (start_state (sample_world [] []))
      = Some r \<and> statements (wld (fst r)) \<le> 1"
proof -
  let ?c = "sample_consumer True"
  have tick: "statements (tick w) = statements w" for w :: "refdb world"
    by (simp add: statements_def tick_def split: list.split)
  have a: "statements (fst (Register (c_out ?c) d t w)) \<le> statements w + 1" for d t and w :: "refdb world"
    by (simp add: world_out_def world_register_def case_prod_beta tick)
      (simp add: statements_def world_service_def service_defs postgres_port_def Save_def timed_def
        observeDuration_def incQueryCounter_def nil_db_def nil_metrics_def sample_repo_def Let_def
        split: prod.split option.split)
  have b: "statements (fst (Int63n (c_out ?c) n w)) = statements w"
    "statements (Sleep (c_out ?c) d w) = statements w" for n d and w :: "refdb world"
    by (simp_all add: world_out_def tick)
  obtain s' r where r: "processMessageWithRetries ?c (good_msg 1) (start_state (sample_world [] []))
      = Some (s', r)"
    by (simp add: run_defs consumer_defs world_defs)
  from attempts_bounded [OF a b(1) b(2) r] show ?thesis
    by (simp add: r) (simp add: start_state_def sample_world_def statements_def)
qed

subsection \<open>Backoff\<close>

lemma sint_MaxRetryDelay [simp]: "sint MaxRetryDelay = 5000000000"
  by (simp add: MaxRetryDelay_def)

lemma backoff_capped: "sint (backoff_delay c attempt jitter) \<le> 5000000000"
  by (auto simp: backoff_delay_def Let_def word_sless_alt)

lemma backoff_fits:
  assumes "0 < RetryBaseDelayMs (c_cfg c)" "RetryBaseDelayMs (c_cfg c) < 2 ^ 53" "0 \<le> sint jitter"
    and "RetryBaseDelayMs (c_cfg c) * 2 ^ nat attempt * 1000000 + sint jitter \<le> int64_max"
  shows "sint (backoff_delay c attempt jitter)
    = min 5000000000 (RetryBaseDelayMs (c_cfg c) * 2 ^ nat attempt * 1000000 + sint jitter)"
proof -
  let ?b = "RetryBaseDelayMs (c_cfg c)"
  obtain D where D: "?b * 2 ^ nat attempt = D" by simp
  from assms have d: "0 < D" "D * 1000000 + sint jitter \<le> int64_max" by (auto simp flip: D)
  have "fl (of_int ?b) * 2 ^ nat attempt = of_int D" using assms(1,2) fl_int [of ?b] by (simp flip: D)
  then have f: "float_to_int64 c (fl (of_int ?b) * 2 ^ nat attempt) = word_of_int D"
    using d assms(3) by (simp add: float_to_int64_def in_int64_def Let_def)
  have m: "sint (word_of_int D * 1000000 :: int64) = D * 1000000"
    using d assms(3) by (simp add: sint64_times sint_word_of_int64_id in_int64_def)
  have "sint (word_of_int D * 1000000 + jitter) = D * 1000000 + sint jitter"
    using assms(3) d by (simp add: sint64_plus m in_int64_def)
  then show ?thesis
    unfolding D by (auto simp: backoff_delay_def Let_def f word_sless_alt)
qed

text \<open>
  C29: the delay before a retry. It never exceeds five seconds, whatever the configuration; and as
  long as the sum fits 64 bits it is the base delay doubled once per attempt plus the jitter,
  cut at five seconds.
\<close>

theorem backoff_exact:
  "sint (backoff_delay c attempt jitter) \<le> 5000000000
   \<and> (0 < RetryBaseDelayMs (c_cfg c) \<and> RetryBaseDelayMs (c_cfg c) < 2 ^ 53 \<and> 0 \<le> sint jitter
      \<and> RetryBaseDelayMs (c_cfg c) * 2 ^ nat attempt * 1000000 + sint jitter \<le> int64_max
      \<longrightarrow> sint (backoff_delay c attempt jitter)
        = min 5000000000 (RetryBaseDelayMs (c_cfg c) * 2 ^ nat attempt * 1000000 + sint jitter))"
  using backoff_capped backoff_fits by blast

theorem backoff_exact_witness: "sint (backoff_delay (sample_consumer True) 3 250) = 800000250"
  using backoff_exact [of "sample_consumer True" 3 250] by simp

text \<open>
  C30: beyond that the product of the delay wraps. With the default base of 100 ms and the default
  jitter of less than 300 ms, whatever number is drawn, the consumer waits five seconds after
  attempt 36, but after attempt 37 it gives its timer a negative delay, which is no wait.
\<close>

theorem backoff_overflow:
  assumes cfg: "RetryBaseDelayMs (c_cfg c) = 100" "RetryJitterMs (c_cfg c) = 300"
    and rand: "\<And>n w. 0 < sint n \<Longrightarrow> 0 \<le> sint (snd (Int63n (c_out c) n w)) \<and> sint (snd (Int63n (c_out c) n w)) < sint n"
  shows "\<exists>w delay. sleepBackoff c 36 s = Some (s\<lparr>wld := Sleep (c_out c) 5000000000 w\<rparr>)
    \<and> sleepBackoff c 37 s = Some (s\<lparr>wld := Sleep (c_out c) delay w\<rparr>) \<and> sint delay < 0"
proof -
  have f: "fl 100 = 100" using fl_int [of 100] by simp
  obtain w j where r: "Int63n (c_out c) 300000000 (wld s) = (w, j)" by fastforce
  with rand [of 300000000 "wld s"] have j: "0 \<le> sint j" "sint j < 300000000" by simp_all
  have b36: "float_to_int64 c (fl (of_int (RetryBaseDelayMs (c_cfg c))) * 2 ^ nat 36) * 1000000 = 6871947673600000000"
    and b37: "float_to_int64 c (fl (of_int (RetryBaseDelayMs (c_cfg c))) * 2 ^ nat 37) * 1000000 = - 4702848726509551616"
    by (simp_all add: cfg f float_to_int64_def in_int64_def Let_def)
  have s36: "sint (6871947673600000000 + j) = 6871947673600000000 + sint j"
    and s37: "sint (- 4702848726509551616 + j) = - 4702848726509551616 + sint j"
    using j by (simp_all add: sint64_plus sint64_minus in_int64_def)
  have d: "backoff_delay c 36 j = 5000000000" "sint (backoff_delay c 37 j) < 0"
    unfolding backoff_delay_def b36 b37 Let_def word_sless_alt sint_MaxRetryDelay s36 s37 using j s37
    by (simp_all add: MaxRetryDelay_def)
  have "sleepBackoff c n s = Some (s\<lparr>wld := Sleep (c_out c) (backoff_delay c n j) w\<rparr>)" for n
    using r by (simp add: sleepBackoff_def millis_def cfg Let_def word_sle_eq)
  with d show ?thesis by metis
qed

theorem backoff_overflow_witness:
  "\<exists>w delay. sleepBackoff (sample_consumer True) 37 (start_state (sample_world [] []))
     = Some ((start_state (sample_world [] []))\<lparr>wld := Sleep (c_out (sample_consumer True)) delay w\<rparr>) \<and> sint delay < 0"
proof -
  have c: "RetryBaseDelayMs (c_cfg (sample_consumer True)) = 100" "RetryJitterMs (c_cfg (sample_consumer True)) = 300"
    by simp_all
  have "0 \<le> sint (snd (Int63n (c_out (sample_consumer True)) n w))
      \<and> sint (snd (Int63n (c_out (sample_consumer True)) n w)) < sint n" if "0 < sint n" for n w
    using that by (simp add: world_out_def)
  from backoff_overflow [OF c this, of "start_state (sample_world [] [])"] show ?thesis by blast
qed

end
