(* ===== verification/Liveness.thy ===== *)
theory Liveness
  imports Worker
begin

text \<open>
  The calls of the consumer return. The endless loops wait for a broker that does not fail for
  ever: \<open>patience w\<close> bounds how many more writes and commits can fail. Fuel above it is enough
  for a whole run, and more fuel changes nothing. The interpretation on the concrete outside is
  in theory Guarantees.
\<close>

subsection \<open>More fuel changes nothing\<close>

text \<open>The flat order of results: a call that returns keeps its result.\<close>

definition ole :: "'a option \<Rightarrow> 'a option \<Rightarrow> bool" where
  "ole x y \<longleftrightarrow> (\<forall>r. x = Some r \<longrightarrow> y = Some r)"

named_theorems ole_intros \<open>the flat order through the constructs of the model\<close>

lemma ole_refl [ole_intros]: "ole x x"
  and ole_None [ole_intros]: "ole None y"
  by (simp_all add: ole_def)

lemma ole_bind [ole_intros]:
  "\<lbrakk>ole m m'; \<And>x. ole (k x) (k' x)\<rbrakk> \<Longrightarrow> ole (Option.bind m k) (Option.bind m' k')"
  unfolding ole_def by (cases m) auto

lemma ole_if [ole_intros]: "\<lbrakk>ole a a'; ole b b'\<rbrakk> \<Longrightarrow> ole (if p then a else b) (if p then a' else b')"
  by simp

lemma ole_Let [ole_intros]: "(\<And>x. ole (f x) (g x)) \<Longrightarrow> ole (Let t f) (Let t g)"
  by (simp add: Let_def)

lemma ole_case_prod [ole_intros]:
  "(\<And>a b. ole (f a b) (g a b)) \<Longrightarrow> ole (case_prod f p) (case_prod g p)"
  by (cases p) simp

lemma ole_case_option [ole_intros]:
  "\<lbrakk>ole a a'; \<And>x. ole (f x) (f' x)\<rbrakk> \<Longrightarrow> ole (case_option a f o') (case_option a' f' o')"
  by (cases o') simp_all

lemma ole_case_sum [ole_intros]:
  "\<lbrakk>\<And>x. ole (f x) (f' x); \<And>x. ole (g x) (g' x)\<rbrakk> \<Longrightarrow> ole (case_sum f g s) (case_sum f' g' s)"
  by (cases s) simp_all

lemma ole_case_bulk [ole_intros]:
  "\<lbrakk>ole a a'; \<And>x. ole (f x) (f' x)\<rbrakk> \<Longrightarrow> ole (case_bulk_result a f r) (case_bulk_result a' f' r)"
  by (cases r) simp_all

lemma ole_case_event [ole_intros]:
  "\<lbrakk>\<And>x. ole (f x) (f' x); ole a a'; ole b b'\<rbrakk>
   \<Longrightarrow> ole (case_worker_event f a b ev) (case_worker_event f' a' b' ev)"
  by (cases ev) simp_all

lemma dlq_loop_mono: "f \<le> g \<Longrightarrow> ole (dlq_loop f c msg err s) (dlq_loop g c msg err s)"
proof (induction f arbitrary: g s)
  case (Suc f)
  then obtain g' where "g = Suc g'" "f \<le> g'" by (cases g) auto
  with Suc.IH show ?case by (simp only: dlq_loop.simps) (intro ole_intros; simp)
qed (simp add: ole_def)

lemma commit_loop_mono: "f \<le> g \<Longrightarrow> ole (commit_loop f c msg s) (commit_loop g c msg s)"
proof (induction f arbitrary: g s)
  case (Suc f)
  then obtain g' where "g = Suc g'" "f \<le> g'" by (cases g) auto
  with Suc.IH show ?case by (simp only: commit_loop.simps) (intro ole_intros; simp)
qed (simp add: ole_def)

lemma bulk_commit_loop_mono: "f \<le> g \<Longrightarrow> ole (bulk_commit_loop f c msgs s) (bulk_commit_loop g c msgs s)"
proof (induction f arbitrary: g s)
  case (Suc f)
  then obtain g' where "g = Suc g'" "f \<le> g'" by (cases g) auto
  with Suc.IH show ?case by (simp only: bulk_commit_loop.simps) (intro ole_intros; simp)
qed (simp add: ole_def)

lemma handleMessage_mono: "f \<le> g \<Longrightarrow> ole (handleMessage f c msg s) (handleMessage g c msg s)"
  unfolding handleMessage_def by (intro ole_intros dlq_loop_mono commit_loop_mono)

lemma handle_each_mono: "f \<le> g \<Longrightarrow> ole (handle_each f c msgs s) (handle_each g c msgs s)"
proof (induction msgs arbitrary: s)
  case (Cons msg msgs)
  then show ?case by (simp only: handle_each.simps) (intro ole_intros handleMessage_mono; simp)
qed (simp add: ole_refl)

lemma flushBatch_mono: "f \<le> g \<Longrightarrow> ole (flushBatch f c msgs ts s) (flushBatch g c msgs ts s)"
  unfolding flushBatch_def flush_body_def
  by (intro ole_intros handle_each_mono bulk_commit_loop_mono)

lemma partitionWorker_mono: "f \<le> g \<Longrightarrow> ole (partitionWorker f c ev wk s) (partitionWorker g c ev wk s)"
  unfolding partitionWorker_def worker_recv_def flush_def
  by (intro ole_intros flushBatch_mono handleMessage_mono)

lemma worker_run_mono: "f \<le> g \<Longrightarrow> ole (worker_run f c evs wk s) (worker_run g c evs wk s)"
proof (induction evs arbitrary: wk s)
  case (Cons ev evs)
  then show ?case by (simp only: worker_run.simps) (intro ole_intros partitionWorker_mono; simp)
qed (simp add: ole_refl)

subsection \<open>Enough fuel\<close>

text \<open>A call that returns, with a result of which \<open>P\<close> holds.\<close>

definition total :: "('a \<Rightarrow> bool) \<Rightarrow> 'a option \<Rightarrow> bool" where
  "total P x \<longleftrightarrow> (\<exists>a. x = Some a \<and> P a)"

lemma total_Some [simp]: "total P (Some a) \<longleftrightarrow> P a"
  by (simp add: total_def)

lemma total_bind: "\<lbrakk>total P m; \<And>a. P a \<Longrightarrow> total Q (k a)\<rbrakk> \<Longrightarrow> total Q (Option.bind m k)"
  by (auto simp: total_def)

lemma total_mono: "\<lbrakk>total P m; \<And>a. P a \<Longrightarrow> Q a\<rbrakk> \<Longrightarrow> total Q m"
  by (auto simp: total_def)

text \<open>
  The jitter is positive and its duration fits 64 bits, so \<open>Int63n\<close> does not panic; a failed
  write or commit uses patience up, and nothing gives patience back.
\<close>

locale patient_consumer =
  fixes c :: "'w Consumer" and patience :: "'w \<Rightarrow> nat"
  assumes jitter: "0 < RetryJitterMs (c_cfg c)" "RetryJitterMs (c_cfg c) \<le> 9223372036854"
    and cancel_p: "patience (Cancel (c_out c) w) \<le> patience w"
    and register_p: "patience (fst (Register (c_out c) d t w)) \<le> patience w"
    and registers_p: "patience (fst (Registers (c_out c) d ts w)) \<le> patience w"
    and now_p: "patience (fst (Now (c_out c) w)) \<le> patience w"
    and rand_p: "patience (fst (Int63n (c_out c) n w)) \<le> patience w"
    and sleep_p: "patience (Sleep (c_out c) d w) \<le> patience w"
    and commit_p: "CommitMessages (c_out c) ms w = (w', e) \<Longrightarrow>
          (if e = None then patience w' \<le> patience w else patience w' < patience w)"
    and write_p: "\<lbrakk>WriteMessages (c_out c) = Some put; put r w = (w', e)\<rbrakk> \<Longrightarrow>
          (if e = None then patience w' \<le> patience w else patience w' < patience w)"
begin

abbreviation pt :: "'w cstate \<Rightarrow> nat" where "pt s \<equiv> patience (wld s)"

lemma pt_emit [simp]: "pt (emit m s) = pt s" "pt (add_inflight n s) = pt s" "pt (show_inflight s) = pt s"
  by (simp_all add: consumer_defs)

lemma pt_now: "pt (fst (c_now c s)) \<le> pt s"
  using now_p by (simp add: c_now_def case_prod_beta)

lemma pt_now_emit: "pt (case c_now c s of (s', t) \<Rightarrow> emit (m t) s') \<le> pt s"
  using pt_now [of s] by (simp add: case_prod_beta)

lemma pt_observe: "pt (observe_processing c ls t0 s) \<le> pt s" "pt (set_last_success c s) \<le> pt s"
  "pt (observeLag c msg s) \<le> pt s"
  by (simp_all add: observe_processing_def set_last_success_def observeLag_def Let_def pt_now_emit)

lemma millis_pos: "\<not> millis (RetryJitterMs (c_cfg c)) \<le>s 0"
proof -
  have "sint (millis (RetryJitterMs (c_cfg c))) = RetryJitterMs (c_cfg c) * 1000000"
    using jitter by (simp add: millis_def sint64_times sint_word_of_int64_id in_int64_def)
  with jitter show ?thesis by (simp add: word_sle_eq)
qed

lemma sleep_total: "total (\<lambda>s'. pt s' \<le> pt s) (sleepBackoff c n s)"
  using millis_pos le_trans [OF sleep_p rand_p]
  by (simp add: sleepBackoff_def Let_def case_prod_beta)

lemma pause_total: "total (\<lambda>s'. pt s' \<le> pt s) (pauseWithJitter c s)"
  by (simp add: pauseWithJitter_def sleep_total)

lemma attempts_total: "total (\<lambda>(s', r). pt s' \<le> pt s) (process_attempts c t n a s)"
proof (induction n arbitrary: a s)
  case (Suc n)
  obtain w err where r: "Register (c_out c) (millis (ProcessTimeoutMs (c_cfg c))) t (wld s) = (w, err)"
    by (metis surj_pair)
  then have "patience w \<le> pt s" using register_p by (metis fst_conv)
  with r show ?case
    by (auto simp: Let_def split: option.split
        intro!: total_bind [OF sleep_total] total_mono [OF Suc.IH])
qed simp

lemma process_total: "total (\<lambda>(s', r). pt s' \<le> pt s) (processMessageWithRetries c msg s)"
  by (simp add: processMessageWithRetries_def attempts_total split: sum.split)

lemma route_pt:
  assumes "routeToDLQ c msg err s = (s', e)"
  shows "pt s' \<le> pt s" and "\<lbrakk>e = Some e'; \<not> errors_As_nonRetryable e'\<rbrakk> \<Longrightarrow> pt s' < pt s"
proof -
  have "pt s' \<le> pt s \<and> (e = None \<or> errors_As_nonRetryable (the e) \<or> pt s' < pt s)"
  proof (cases "WriteMessages (c_out c)")
    case None
    with assms show ?thesis by (auto simp: routeToDLQ_def)
  next
    case (Some put)
    obtain s1 t where n: "c_now c s = (s1, t)" by (metis surj_pair)
    obtain w e1 where p: "put (dlq_payload c msg err t) (wld s1) = (w, e1)" by (metis surj_pair)
    from pt_now [of s] n have "pt s1 \<le> pt s" by simp
    with assms Some n p write_p [OF Some p] show ?thesis
      by (auto simp: routeToDLQ_def Let_def split: option.splits)
  qed
  then show "pt s' \<le> pt s" "\<lbrakk>e = Some e'; \<not> errors_As_nonRetryable e'\<rbrakk> \<Longrightarrow> pt s' < pt s"
    by auto
qed

lemma fatal_pt: "pt (triggerFatal c e s) \<le> pt s"
  using cancel_p by (simp add: triggerFatal_def)

lemma dlq_loop_total: "pt s < f \<Longrightarrow> total (\<lambda>(s', b). pt s' \<le> pt s) (dlq_loop f c msg err s)"
proof (induction f arbitrary: s)
  case (Suc f)
  obtain s1 e where r: "routeToDLQ c msg err s = (s1, e)" by (metis surj_pair)
  note le = route_pt [OF r]
  have "total (\<lambda>(s', b). pt s' \<le> pt s) (do { s \<leftarrow> pauseWithJitter c (emit m s1); dlq_loop f c msg err s })"
    if "pt s1 < pt s" for m
    by (rule total_bind [OF pause_total], rule total_mono [OF Suc.IH]) (use that Suc.prems in auto)
  moreover have "pt (triggerFatal c e (emit m s1)) \<le> pt s" for m e
    using fatal_pt [of e "emit m s1"] le(1) by simp
  ultimately show ?case
    using r le by (auto simp: Let_def split: option.split)
qed simp

lemma commit_loop_total: "pt s < f \<Longrightarrow> total (\<lambda>s'. pt s' \<le> pt s) (commit_loop f c msg s)"
proof (induction f arbitrary: s)
  case (Suc f)
  obtain s1 e where r: "commit c msg s = (s1, e)" by (metis surj_pair)
  then have le: "if e = None then pt s1 \<le> pt s else pt s1 < pt s"
    using commit_p [of "[msg]" "wld s"]
    by (auto simp: commit_def Let_def split: prod.splits option.splits)
  have "total (\<lambda>s'. pt s' \<le> pt s) (do { s \<leftarrow> pauseWithJitter c s1; commit_loop f c msg s })"
    if "pt s1 < pt s"
    by (rule total_bind [OF pause_total], rule total_mono [OF Suc.IH]) (use that Suc.prems in auto)
  with r le show ?case by auto
qed simp

lemma bulk_commit_loop_total: "pt s < f \<Longrightarrow> total (\<lambda>s'. pt s' \<le> pt s) (bulk_commit_loop f c msgs s)"
proof (induction f arbitrary: s)
  case (Suc f)
  obtain w e where r: "CommitMessages (c_out c) msgs (wld s) = (w, e)" by (metis surj_pair)
  let ?s1 = "s\<lparr>wld := w\<rparr>"
  have le: "if e = None then pt ?s1 \<le> pt s else pt ?s1 < pt s" using commit_p [OF r] by simp
  have "total (\<lambda>s'. pt s' \<le> pt s) (do { s \<leftarrow> pauseWithJitter c ?s1; bulk_commit_loop f c msgs s })"
    if "pt ?s1 < pt s"
    by (rule total_bind [OF pause_total], rule total_mono [OF Suc.IH]) (use that Suc.prems in auto)
  with r le show ?case by (auto simp: Let_def)
qed simp

lemma handleMessage_total:
  assumes "pt s < f"
  shows "total (\<lambda>s'. pt s' \<le> pt s) (handleMessage f c msg s)"
proof -
  have commit: "total (\<lambda>s'. pt s' \<le> pt s) (commit_loop f c msg s1)" if "pt s1 \<le> pt s" for s1
    by (rule total_mono [OF commit_loop_total]) (use that assms in auto)
  have dlq: "total (\<lambda>s'. pt s' \<le> pt s) (do {
      (s, routed) \<leftarrow> dlq_loop f c msg e s1;
      if routed then commit_loop f c msg (emit m s) else Some s })" if "pt s1 \<le> pt s" for s1 e m
    by (rule total_bind [OF dlq_loop_total]) (use that assms commit in auto)
  obtain s1 t0 where n: "c_now c (observeLag c msg s) = (s1, t0)" by (metis surj_pair)
  have le: "pt s1 \<le> pt s" using pt_now [of "observeLag c msg s"] pt_observe(3) [of msg s] n by simp
  show ?thesis unfolding handleMessage_def Let_def n prod.case
  proof (rule total_bind [OF process_total], clarsimp split: option.splits, intro conjI impI allI)
    fix s2 assume "pt s2 \<le> pt s1"
    with le have le2: "pt s2 \<le> pt s" by simp
    have obs: "pt (emit m (observe_processing c ls t s3)) \<le> pt s" if "pt s3 \<le> pt s" for m ls t s3
      using pt_observe(1) [of ls t s3] that by simp
    show "total (\<lambda>s'. pt s' \<le> pt s) (commit_loop f c msg
        (emit (messages_total (part_labels msg ''processed''))
          (observe_processing c [(''result'', ''processed'')] t0 (set_last_success c s2))))"
      by (rule commit [OF obs]) (use pt_observe(2) [of s2] le2 in simp)
    show "pt s2 \<le> pt s" by (rule le2)
    show "total (\<lambda>s'. pt s' \<le> pt s) (dlq_loop f c msg e
        (emit (messages_total (part_labels msg ''failed''))
          (observe_processing c [(''result'', ''failed'')] t0 s2)) \<bind>
        (\<lambda>(s, routed). if routed
           then commit_loop f c msg (emit (messages_total (part_labels msg ''dlq'')) s) else Some s))" for e
      by (rule dlq [OF obs [OF le2]])
  qed (use le in auto)
qed

lemma handle_each_total: "pt s < f \<Longrightarrow> total (\<lambda>s'. pt s' \<le> pt s) (handle_each f c msgs s)"
proof (induction msgs arbitrary: s)
  case (Cons msg msgs)
  then show ?case
    by (auto intro!: total_bind [OF handleMessage_total] total_mono [OF Cons.IH])
qed simp

lemma bulk_attempts_total:
  "total (\<lambda>(s', r). pt s' \<le> pt s) (bulk_attempts c ts n a e s)"
proof (induction n arbitrary: a e s)
  case (Suc n)
  obtain w err where r: "Registers (c_out c) (millis (ProcessTimeoutMs (c_cfg c))) ts (wld s) = (w, err)"
    by (metis surj_pair)
  then have "patience w \<le> pt s" using registers_p by (metis fst_conv)
  with r show ?case
    by (auto simp: Let_def split: option.split
        intro!: total_bind [OF sleep_total] total_mono [OF Suc.IH])
qed simp

lemma flush_body_total:
  assumes "pt s < f"
  shows "total (\<lambda>s'. pt s' \<le> pt s) (flush_body f c msgs ts s)"
proof -
  obtain s1 t0 where n: "c_now c s = (s1, t0)" by (metis surj_pair)
  have le: "pt s1 \<le> pt s" using pt_now [of s] n by simp
  have commit: "total (\<lambda>s'. pt s' \<le> pt s) (bulk_commit_loop f c msgs
      (set_last_success c (observe_processing c ls t0 s2)))" if "pt s2 \<le> pt s" for s2 ls
  proof -
    have "pt (set_last_success c (observe_processing c ls t0 s2)) \<le> pt s"
      using pt_observe(2) [of "observe_processing c ls t0 s2"] pt_observe(1) [of ls t0 s2] that by simp
    with assms show ?thesis by (intro total_mono [OF bulk_commit_loop_total]) auto
  qed
  have each: "total (\<lambda>s'. pt s' \<le> pt s) (do {
      s \<leftarrow> handle_each f c msgs (add_inflight i s2); Some (add_inflight j s) })"
    if "pt s2 \<le> pt s" for s2 i j
    by (rule total_bind [OF handle_each_total]) (use that assms in auto)
  show ?thesis unfolding flush_body_def Let_def n prod.case
    by (rule total_bind [OF bulk_attempts_total])
      (use le in \<open>auto split: bulk_result.split option.split intro!: commit each\<close>)
qed

lemma flushBatch_total:
  assumes "pt s < f"
  shows "total (\<lambda>s'. pt s' \<le> pt s) (flushBatch f c msgs ts s)"
  using assms
  by (auto simp: flushBatch_def Let_def intro!: total_bind [OF flush_body_total])

lemma flush_total:
  assumes "pt s < f"
  shows "total (\<lambda>(wk', s'). pt s' \<le> pt s) (flush f c wk s)"
  using assms by (auto simp: flush_def intro!: total_bind [OF flushBatch_total])

lemma handle_total:
  assumes "pt s1 < f" "pt s1 \<le> pt s"
  shows "total (\<lambda>(wk', s'). pt s' \<le> pt s) (do {
      s \<leftarrow> handleMessage f c msg (show_inflight (add_inflight 1 s1));
      Some (wk, show_inflight (add_inflight (- 1) s)) })"
  by (rule total_bind [OF handleMessage_total]) (use assms in auto)

lemma partitionWorker_total:
  assumes "pt s < f"
  shows "total (\<lambda>(wk', s'). pt s' \<le> pt s) (partitionWorker f c ev wk s)"
proof -
  have "total (\<lambda>(wk', s'). pt s' \<le> pt s) (worker_recv f c msg wk s)" for msg
  proof (cases "parseAndValidateMsg msg")
    case (Inl e)
    have "total (\<lambda>(wk', s'). pt s' \<le> pt s) (do {
        (wk, s) \<leftarrow> flush f c wk s;
        s \<leftarrow> handleMessage f c msg (show_inflight (add_inflight 1 s));
        Some (wk, show_inflight (add_inflight (- 1) s)) })"
      by (rule total_bind [OF flush_total [OF assms]]) (use assms in \<open>auto intro!: handle_total\<close>)
    with Inl show ?thesis by (simp add: worker_recv_def)
  next
    case (Inr t)
    with assms show ?thesis by (auto simp: worker_recv_def Let_def intro!: flush_total)
  qed
  with assms show ?thesis
    by (auto simp: partitionWorker_def intro!: flush_total split: worker_event.split)
qed

lemma worker_run_total:
  "pt s < f \<Longrightarrow> total (\<lambda>(wk', s'). pt s' \<le> pt s) (worker_run f c evs wk s)"
proof (induction evs arbitrary: wk s)
  case (Cons ev evs)
  show ?case unfolding worker_run.simps
    by (rule total_bind [OF partitionWorker_total [OF Cons.prems]])
      (use Cons.prems in \<open>auto intro!: total_mono [OF Cons.IH]\<close>)
qed simp

end

end
