(* ===== verification/Guarantees.thy ===== *)
theory Guarantees
  imports Handling Liveness
begin

text \<open>
  The delivery guarantees of the consumer, over every outside that keeps the contract
  \<open>consumer_env\<close>, over the whole program on any PostgreSQL driver, and the run in which the
  shutdown breaks the order.
\<close>

lemma sample_kafka_consumer:
  "kafka_consumer (sample_consumer b) (world_stored db_rows pg_micros) (\<lambda>w. set (w_dlq w))
     (\<lambda>w. set (w_commits w)) (pg_world.world_inv db_rows)"
  unfolding sample_consumer_def by (rule ref_world.con.kafka_consumer_axioms)

text \<open>A run over a good, a bad and a good message without failures.\<close>

definition sample_events :: "worker_event list" where
  "sample_events = [Recv (good_msg 1), Recv (bad_msg 2), Recv (good_msg 3)]"

lemma sample_run:
  "\<exists>s'. worker_run 5 (sample_consumer True) sample_events new_worker (start_state (sample_world [] []))
      = Some (\<lparr>batchMsgs = [good_msg 3], batchDomains = [good_tx], w_stopped = False\<rparr>, s')
     \<and> w_commits (wld s') = [good_msg 1, bad_msg 2] \<and> \<not> w_cancelled (wld s')"
  by (simp add: sample_events_def run_defs consumer_defs world_defs)

text \<open>
  At-least-once per message. In every run of a partition worker, over any sequence of
  messages and ticks, with any failures of the service, the broker and the writer, and with the
  application stopping at any moment, a message that was newly committed is handled: its
  transaction is stored, or a record of it is in the dead-letter topic.
\<close>

theorem commit_only_handled:
  assumes "kafka_consumer c stored dlq committed good"
    and "worker_run f c evs new_worker s = Some (wk, s')" and "fatal s = None"
    and "m \<in> committed (wld s')" and "m \<notin> committed (wld s)"
  shows "handled (stored (wld s')) (dlq (wld s')) m"
  using kafka_consumer.run_committed [OF assms] .

theorem commit_only_handled_witness:
  "\<exists>s' :: refdb world. handled (world_stored db_rows pg_micros s') (set (w_dlq s')) (bad_msg 2)"
proof -
  obtain wk s' where r: "worker_run 5 (sample_consumer True) sample_events new_worker
      (start_state (sample_world [] [])) = Some (wk, s')" "w_commits (wld s') = [good_msg 1, bad_msg 2]"
    using sample_run by blast
  from commit_only_handled [OF sample_kafka_consumer r(1), of "bad_msg 2"] r(2)
  have "handled (world_stored db_rows pg_micros (wld s')) (set (w_dlq (wld s'))) (bad_msg 2)"
    by (simp add: start_state_def sample_world_def)
  then show ?thesis by blast
qed

text \<open>
  In order and without gaps. If all the messages a worker received are valid, or the
  application is still running at the end, then what it newly committed lies in a first part of
  the messages received, every message of which is handled; and while application and worker
  run, the rest is exactly the batch in memory and the whole first part is committed.
\<close>

theorem worker_in_order:
  assumes "kafka_consumer c stored dlq committed good"
    and "worker_run f c evs new_worker s = Some (wk, s')" and "fatal s = None"
    and "(\<forall>m \<in> set (received evs). valid_msg m) \<or> CtxErr (c_out c) (wld s') = None"
  shows "\<exists>hist pend. received evs = hist @ pend
    \<and> (\<forall>m \<in> set hist. handled (stored (wld s')) (dlq (wld s')) m)
    \<and> committed (wld s') \<subseteq> committed (wld s) \<union> set hist
    \<and> (CtxErr (c_out c) (wld s') = None \<and> \<not> w_stopped wk
         \<longrightarrow> pend = batchMsgs wk \<and> set hist \<subseteq> committed (wld s'))"
  using kafka_consumer.run_history [OF assms] .

theorem worker_in_order_witness:
  "\<exists>hist pend. [good_msg 1, bad_msg 2, good_msg 3] = hist @ pend \<and> pend = [good_msg 3]"
proof -
  obtain s' where r: "worker_run 5 (sample_consumer True) sample_events new_worker
      (start_state (sample_world [] []))
      = Some (\<lparr>batchMsgs = [good_msg 3], batchDomains = [good_tx], w_stopped = False\<rparr>, s')"
    "\<not> w_cancelled (wld s')"
    using sample_run by blast
  from worker_in_order [OF sample_kafka_consumer r(1)] r(2) show ?thesis
    by (auto simp: start_state_def world_out_def sample_events_def)
qed

text \<open>
  No message is lost by its offset. A broker that restarts a partition after the highest
  committed offset skips nothing unhandled: under the same condition, when the offsets received
  increase, every message received at or below the offset of a newly committed one is handled.
\<close>

theorem no_message_skipped:
  assumes env: "kafka_consumer c stored dlq committed good"
    and run: "worker_run f c evs new_worker s = Some (wk, s')" and f: "fatal s = None"
    and ok: "(\<forall>m \<in> set (received evs). valid_msg m) \<or> CtxErr (c_out c) (wld s') = None"
    and off: "sorted_wrt (\<lambda>a b. k_offset a < k_offset b) (received evs)"
    and m: "m \<in> committed (wld s')" "m \<notin> committed (wld s)"
    and m': "m' \<in> set (received evs)" "k_offset m' \<le> k_offset m"
  shows "handled (stored (wld s')) (dlq (wld s')) m'"
proof -
  from kafka_consumer.run_history [OF env run f ok] obtain hist pend where
    h: "received evs = hist @ pend" "\<forall>m \<in> set hist. handled (stored (wld s')) (dlq (wld s')) m"
    "committed (wld s') \<subseteq> committed (wld s) \<union> set hist" by blast
  from h(3) m have "m \<in> set hist" by blast
  with off h(1) have "\<forall>x \<in> set pend. k_offset m < k_offset x" by (auto simp: sorted_wrt_append)
  with m' have "m' \<notin> set pend" by force
  with m'(1) h(1,2) show ?thesis by auto
qed

theorem no_message_skipped_witness:
  "\<exists>s' :: refdb world. handled (world_stored db_rows pg_micros s') (set (w_dlq s')) (good_msg 1)"
proof -
  obtain wk s' where r: "worker_run 5 (sample_consumer True) sample_events new_worker
      (start_state (sample_world [] [])) = Some (wk, s')"
    "w_commits (wld s') = [good_msg 1, bad_msg 2]" "\<not> w_cancelled (wld s')"
    using sample_run by blast
  have "sorted_wrt (\<lambda>a b. k_offset a < k_offset b) (received sample_events)"
    by (simp add: sample_events_def)
  from no_message_skipped [OF sample_kafka_consumer r(1) _ _ this, of "bad_msg 2" "good_msg 1"] r(2,3)
  have "handled (world_stored db_rows pg_micros (wld s')) (set (w_dlq (wld s'))) (good_msg 1)"
    by (simp add: start_state_def sample_world_def world_out_def sample_events_def)
  then show ?thesis by blast
qed

text \<open>
  C13: the condition is needed. A worker whose bulk insert is cut short by the shutdown goes on
  to dead-letter and commit the malformed message that made it flush: the committed offset 2
  passes the valid message 1, which is neither stored nor dead-lettered and is lost.
\<close>

theorem shutdown_skips_batch:
  "\<exists>s'. worker_run 5 (sample_consumer True) [Recv (good_msg 1), Recv (bad_msg 2)] new_worker
          (start_state (sample_world [FailBefore (Sentinel CtxCanceled)] [True])) = Some (new_worker, s')
     \<and> w_commits (wld s') = [bad_msg 2]
     \<and> \<not> handled (world_stored db_rows pg_micros (wld s')) (set (w_dlq (wld s'))) (good_msg 1)"
  by (simp add: run_defs consumer_defs world_defs)
    (simp add: handled_def dead_def world_stored_def good_msg_def bad_msg_def message_def)

text \<open>
  The whole program. For every driver that keeps \<open>pg_driver\<close>, a message the consumer newly
  committed either has its row in the table, reached through the service and the repository,
  or a dead letter naming its topic, partition and offset; and no transaction is ever in the
  table twice, however often it was delivered.
\<close>

theorem program_delivery:
  assumes w: "pg_world drv tbl clock micros of_micros p"
    and run: "worker_run f (NewConsumerWithMetrics (world_out drv p has_writer sha) k) evs new_worker s
      = Some (wk, s')" and f: "fatal s = None"
    and u: "distinct (map key_of (tbl (w_db (wld s))))"
  shows "(\<forall>m \<in> set (w_commits (wld s')) - set (w_commits (wld s)).
      (\<exists>t. parseAndValidateMsg m = Inr t \<and> tx_key micros t \<in> key_of ` set (tbl (w_db (wld s'))))
      \<or> (\<exists>r \<in> set (w_dlq (wld s')). d_topic r = k_topic m \<and> d_partition r = k_partition m
            \<and> d_offset r = k_offset m))
    \<and> distinct (map key_of (tbl (w_db (wld s'))))"
proof (intro conjI ballI)
  note env = pg_world.consumer_axioms [OF w]
  show "distinct (map key_of (tbl (w_db (wld s'))))"
    using kafka_consumer.run_good [OF env run f] u by (simp add: pg_world.world_inv_def [OF w])
  fix m assume "m \<in> set (w_commits (wld s')) - set (w_commits (wld s))"
  with kafka_consumer.run_committed [OF env run f, of m]
  have "handled (world_stored tbl micros (wld s')) (set (w_dlq (wld s'))) m" by simp
  then show "(\<exists>t. parseAndValidateMsg m = Inr t \<and> tx_key micros t \<in> key_of ` set (tbl (w_db (wld s'))))
      \<or> (\<exists>r \<in> set (w_dlq (wld s')). d_topic r = k_topic m \<and> d_partition r = k_partition m
            \<and> d_offset r = k_offset m)"
    by (auto simp: handled_def dead_def world_stored_def)
qed

theorem program_delivery_witness:
  "\<exists>s' :: refdb world. distinct (map key_of (db_rows (w_db s'))) \<and> w_commits s' = [good_msg 1, bad_msg 2]"
proof -
  obtain wk s' where r: "worker_run 5 (sample_consumer True) sample_events new_worker
      (start_state (sample_world [] [])) = Some (wk, s')" "w_commits (wld s') = [good_msg 1, bad_msg 2]"
    using sample_run by blast
  from program_delivery [OF ref_world.pg_world_axioms r(1) [unfolded sample_consumer_def]] r(2)
  show ?thesis by (auto simp: start_state_def sample_world_def sample_db_def)
qed

subsection \<open>Progress\<close>

text \<open>The concrete broker's patience: the failures it still has in store.\<close>

definition world_patience :: "'d world \<Rightarrow> nat" where
  "world_patience w = length (w_commit_faults w) + length (w_write_faults w)"

lemma patience_tick [simp]: "world_patience (tick w) = world_patience w"
  by (simp add: world_patience_def tick_def split: list.split)

lemma normalized_jitter:
  "0 < RetryJitterMs (normalizeKafkaConfig k)"
  "RetryJitterMs k \<le> 9223372036854 \<Longrightarrow> RetryJitterMs (normalizeKafkaConfig k) \<le> 9223372036854"
  by (simp_all add: normalize_default default_kafka_def at_least_one_def)

locale pg_world_live = pg_world drv tbl clock micros of_micros p has_writer sha k
  for drv :: "('d, bool) sql_driver" and tbl clock micros of_micros p has_writer sha k +
  assumes short_jitter: "RetryJitterMs k \<le> 9223372036854"

sublocale pg_world_live \<subseteq> live: patient_consumer
  "NewConsumerWithMetrics (world_out drv p has_writer sha) k" world_patience
proof
  let ?c = "NewConsumerWithMetrics (world_out drv p has_writer sha) k"
  fix w w' :: "'d world" and d t ts ms put r n e
  show "0 < RetryJitterMs (c_cfg ?c)" "RetryJitterMs (c_cfg ?c) \<le> 9223372036854"
    using normalized_jitter short_jitter by (simp_all add: NewConsumerWithMetrics_def)
  show "world_patience (Cancel (c_out ?c) w) \<le> world_patience w"
    "world_patience (fst (Register (c_out ?c) d t w)) \<le> world_patience w"
    "world_patience (fst (Registers (c_out ?c) d ts w)) \<le> world_patience w"
    "world_patience (fst (Now (c_out ?c) w)) \<le> world_patience w"
    "world_patience (fst (Int63n (c_out ?c) n w)) \<le> world_patience w"
    "world_patience (Sleep (c_out ?c) d w) \<le> world_patience w"
    by (simp_all add: NewConsumerWithMetrics_def world_out_def world_register_def world_registers_def
        case_prod_beta) (simp_all add: world_patience_def)
  show "CommitMessages (c_out ?c) ms w = (w', e) \<Longrightarrow>
      (if e = None then world_patience w' \<le> world_patience w else world_patience w' < world_patience w)"
    by (cases "w_commit_faults w")
      (auto simp: NewConsumerWithMetrics_def world_out_def world_commit_def pop_fault_def,
        auto simp: world_patience_def)
  show "\<lbrakk>WriteMessages (c_out ?c) = Some put; put r w = (w', e)\<rbrakk> \<Longrightarrow>
      (if e = None then world_patience w' \<le> world_patience w else world_patience w' < world_patience w)"
    by (cases "w_write_faults w")
      (auto simp: NewConsumerWithMetrics_def world_out_def world_write_def pop_fault_def split: if_splits,
        auto simp: world_patience_def)
qed

interpretation ref_live: pg_world_live ref_driver db_rows db_now pg_micros pg_of_micros sample_repo
  has_writer sha "cfg_Kafka empty_config" for has_writer sha
  by unfold_locales (simp add: empty_config_def)

lemma sample_patient: "patient_consumer (sample_consumer b) world_patience"
  unfolding sample_consumer_def by (rule ref_live.live.patient_consumer_axioms)

text \<open>
  C8: every run returns. The dead-letter and commit loops have no limit of their own, but when
  the broker can fail only so many more times, a run of the worker over any events returns, and
  more iterations allowed to the loops would not change what it returns.
\<close>

theorem worker_returns:
  assumes "patient_consumer c patience" and "patience (wld s) < f"
  shows "\<exists>r. \<forall>g \<ge> f. worker_run g c evs wk s = Some r"
proof -
  from patient_consumer.worker_run_total [OF assms, of evs wk] obtain r where "worker_run f c evs wk s = Some r"
    by (auto simp: total_def)
  then have "\<forall>g \<ge> f. worker_run g c evs wk s = Some r"
    using worker_run_mono [of f _ c evs wk s] by (simp add: ole_def)
  then show ?thesis by (rule exI)
qed

theorem worker_returns_witness:
  "\<exists>r. \<forall>g \<ge> 1. worker_run g (sample_consumer True) sample_events new_worker
     (start_state (sample_world [] [])) = Some r"
  by (rule worker_returns [OF sample_patient])
    (simp add: world_patience_def start_state_def sample_world_def)

text \<open>
  Everything gets through. With a broker that fails only so many times, a run over any
  messages followed by a tick returns, and if the application is still running then, every
  message received was committed, and is stored or dead-lettered.
\<close>

theorem all_messages_handled:
  assumes env: "kafka_consumer c stored dlq committed good"
    and live: "patient_consumer c patience" "patience (wld s) < f"
    and f: "fatal s = None" and ch: "ChanClosed \<notin> set evs"
  shows "\<exists>wk s'. worker_run f c (evs @ [Tick]) new_worker s = Some (wk, s')
    \<and> (CtxErr (c_out c) (wld s') = None \<longrightarrow>
        (\<forall>m \<in> set (received evs). m \<in> committed (wld s')
           \<and> handled (stored (wld s')) (dlq (wld s')) m))"
proof -
  from patient_consumer.worker_run_total [OF live, of "evs @ [Tick]" new_worker] obtain wk s' where
    r: "worker_run f c (evs @ [Tick]) new_worker s = Some (wk, s')" by (auto simp: total_def)
  note all = kafka_consumer.run_tick_all [OF env r f ch]
  show ?thesis by (intro exI conjI impI, rule r, erule all)
qed

theorem all_messages_handled_witness:
  "\<exists>wk s'. worker_run 1 (sample_consumer True) (sample_events @ [Tick]) new_worker
     (start_state (sample_world [] [])) = Some (wk, s')
    \<and> (\<not> w_cancelled (wld s') \<longrightarrow> good_msg 3 \<in> set (w_commits (wld s')))"
proof -
  have "world_patience (wld (start_state (sample_world [] []))) < 1"
    by (simp add: world_patience_def start_state_def sample_world_def)
  from all_messages_handled [OF sample_kafka_consumer sample_patient this, of sample_events True]
  show ?thesis by (auto simp: start_state_def sample_events_def world_out_def)
qed

end
