(* ===== verification/Dispatch.thy ===== *)
theory Dispatch
  imports Consumer
begin

text \<open>
  \<open>Start\<close> of \<open>internal/transport/kafka/consumer.go\<close>: the fetch loop, the partition workers it
  starts, the goroutine that flushes the metrics and the orderly shutdown, as a step relation.
  One step is one action of one goroutine; a worker's action is one turn of its loop. What
  other goroutines do to the outside in the middle of a turn is the business of the outside,
  whose operations may do more than they are asked for.
\<close>

subsection \<open>State\<close>

text \<open>The entry of \<open>workers\<close> for a partition: its channel, and the worker that reads it.\<close>

record channel =
  ch_queue :: "kmsg list"
  ch_closed :: bool
  ch_worker :: worker

definition PartitionWorkerQueueSize :: nat where
  "PartitionWorkerQueueSize = 128"

definition make_channel :: channel where
  "make_channel = \<lparr>ch_queue = [], ch_closed = False, ch_worker = new_worker\<rparr>"

text \<open>Where the goroutine of \<open>Start\<close> is.\<close>

datatype phase = Fetching | Sending kmsg | Draining | Returned

text \<open>
  \<open>result\<close> is the error that \<open>Start\<close> returns, fixed where it leaves the loop; \<open>flushes\<close> has the
  number of metric calls made at each \<open>Flush\<close> so far.
\<close>

record 'w sys =
  shared :: "'w cstate"
  workers :: "int \<Rightarrow> channel option"
  phase :: phase
  result :: "goerr option"
  flushes :: "nat list"
  flusher_done :: bool

definition init_sys :: "'w cstate \<Rightarrow> 'w sys" where
  "init_sys s = \<lparr>shared = s, workers = Map.empty, phase = Fetching, result = None,
     flushes = [], flusher_done = False\<rparr>"

text \<open>The part of the outside that only \<open>Start\<close> uses.\<close>

record 'w endpoints =
  FetchMessage :: "'w \<Rightarrow> 'w \<times> (goerr + kmsg)"
  CloseWriter :: "'w \<Rightarrow> 'w"
  CloseReader :: "'w \<Rightarrow> 'w"

definition set_world :: "'w \<Rightarrow> 'w sys \<Rightarrow> 'w sys" where
  [consumer_defs]: "set_world w s = s\<lparr>shared := (shared s)\<lparr>wld := w\<rparr>\<rparr>"

subsection \<open>The fetch loop\<close>

definition LoadOrStore :: "int \<Rightarrow> (int \<Rightarrow> channel option) \<Rightarrow> int \<Rightarrow> channel option" where
  "LoadOrStore p ws = (if ws p = None then ws(p \<mapsto> make_channel) else ws)"

definition close_channels :: "(int \<Rightarrow> channel option) \<Rightarrow> int \<Rightarrow> channel option" where
  "close_channels ws p = map_option (\<lambda>ch. ch\<lparr>ch_closed := True\<rparr>) (ws p)"

text \<open>\<open>return fatalErr\<close>: the result is fixed, then the deferred shutdown closes the channels.\<close>

definition leave_loop :: "'w sys \<Rightarrow> 'w sys" where
  "leave_loop s = s\<lparr>phase := Draining, result := fatal (shared s), workers := close_channels (workers s)\<rparr>"

definition dispatch_message :: "kmsg \<Rightarrow> 'w sys \<Rightarrow> 'w sys" where
  "dispatch_message m s = s\<lparr>workers := LoadOrStore (k_partition m) (workers s), phase := Sending m\<rparr>"

definition fetch_error :: "'w Consumer \<Rightarrow> goerr \<Rightarrow> 'w sys \<Rightarrow> 'w sys option" where
  "fetch_error c err s =
     (if errors_Is err CtxCanceled then Some (leave_loop s)
      else do {
        sh \<leftarrow> pauseWithJitter c
          (emit (IncCounter MetricMessagesTotal
            [(''result'', ''failed''), (''reason'', ''fetch'')] 1) (shared s));
        Some (s\<lparr>shared := sh\<rparr>)
      })"

text \<open>\<open>ch <- msg\<close>: possible when the buffer has room.\<close>

definition enqueue :: "kmsg \<Rightarrow> 'w sys \<Rightarrow> 'w sys option" where
  "enqueue m s =
     (case workers s (k_partition m) of
        Some ch \<Rightarrow>
          if length (ch_queue ch) < PartitionWorkerQueueSize
          then Some (s\<lparr>phase := Fetching,
            workers := (workers s)(k_partition m \<mapsto> ch\<lparr>ch_queue := ch_queue ch @ [m]\<rparr>)\<rparr>)
          else None
      | None \<Rightarrow> None)"

subsection \<open>The workers\<close>

text \<open>
  What the select of a worker can see next: the head of the buffer, the end of a closed and
  empty channel, or a tick at any time.
\<close>

fun receive :: "worker_event \<Rightarrow> channel \<Rightarrow> channel option" where
  "receive Tick ch = Some ch"
| "receive ChanClosed ch = (if ch_closed ch \<and> ch_queue ch = [] then Some ch else None)"
| "receive (Recv m) ch =
     (case ch_queue ch of
        [] \<Rightarrow> None
      | m' # q \<Rightarrow> if m' = m then Some (ch\<lparr>ch_queue := q\<rparr>) else None)"

definition worker_turn :: "nat \<Rightarrow> 'w Consumer \<Rightarrow> int \<Rightarrow> worker_event \<Rightarrow> 'w sys \<Rightarrow> 'w sys option" where
  "worker_turn f c p ev s = do {
     ch \<leftarrow> workers s p;
     ch' \<leftarrow> (if w_stopped (ch_worker ch) then None else receive ev ch);
     (wk, sh) \<leftarrow> partitionWorker f c ev (ch_worker ch) (shared s);
     Some (s\<lparr>shared := sh, workers := (workers s)(p \<mapsto> ch'\<lparr>ch_worker := wk\<rparr>)\<rparr>)
   }"

subsection \<open>Metrics flusher and shutdown\<close>

definition flush_metrics :: "'w sys \<Rightarrow> 'w sys" where
  "flush_metrics s = s\<lparr>flushes := flushes s @ [length (mcalls (shared s))]\<rparr>"

text \<open>\<open>workersWG.Wait()\<close> returns when every worker has returned.\<close>

definition all_stopped :: "'w sys \<Rightarrow> bool" where
  "all_stopped s \<longleftrightarrow> (\<forall>ch \<in> ran (workers s). w_stopped (ch_worker ch))"

definition closeWriter :: "'w Consumer \<Rightarrow> 'w endpoints \<Rightarrow> 'w \<Rightarrow> 'w" where
  [simp]: "closeWriter c b w = (if WriteMessages (c_out c) = None then w else CloseWriter b w)"

text \<open>Close the writer if there is one, close the reader, and at last the deferred \<open>cancel()\<close>.\<close>

definition close_all :: "'w Consumer \<Rightarrow> 'w endpoints \<Rightarrow> 'w sys \<Rightarrow> 'w sys" where
  "close_all c b s =
     (let w = wld (shared s);
          w = closeWriter c b w;
          w = CloseReader b w
      in set_world (Cancel (c_out c) w) (s\<lparr>phase := Returned\<rparr>))"

subsection \<open>Steps\<close>

datatype action =
    Fetched kmsg | FetchFailed goerr | Sent | Abandoned kmsg
  | Turn int worker_event
  | Signal
  | FlushTick | FlushLast
  | Drained | DrainTimeout

inductive start_step ::
  "nat \<Rightarrow> 'w Consumer \<Rightarrow> 'w endpoints \<Rightarrow> action \<Rightarrow> 'w sys \<Rightarrow> 'w sys \<Rightarrow> bool"
  for f :: nat and c :: "'w Consumer" and b :: "'w endpoints" where
  fetch_message:
    "\<lbrakk>phase s = Fetching; FetchMessage b (wld (shared s)) = (w, Inr m)\<rbrakk>
     \<Longrightarrow> start_step f c b (Fetched m) s (dispatch_message m (set_world w s))"
| fetch_failed:
    "\<lbrakk>phase s = Fetching; FetchMessage b (wld (shared s)) = (w, Inl e);
      fetch_error c e (set_world w s) = Some s'\<rbrakk>
     \<Longrightarrow> start_step f c b (FetchFailed e) s s'"
| send:
    "\<lbrakk>phase s = Sending m; enqueue m s = Some s'\<rbrakk> \<Longrightarrow> start_step f c b Sent s s'"
| abandon:
    "\<lbrakk>phase s = Sending m; cancelled c (shared s)\<rbrakk>
     \<Longrightarrow> start_step f c b (Abandoned m) s (leave_loop s)"
| turn:
    "worker_turn f c p ev s = Some s' \<Longrightarrow> start_step f c b (Turn p ev) s s'"
| signal:
    "start_step f c b Signal s (set_world (Cancel (c_out c) (wld (shared s))) s)"
| flush_tick:
    "\<not> flusher_done s \<Longrightarrow> start_step f c b FlushTick s (flush_metrics s)"
| flush_last:
    "\<lbrakk>\<not> flusher_done s; cancelled c (shared s)\<rbrakk>
     \<Longrightarrow> start_step f c b FlushLast s ((flush_metrics s)\<lparr>flusher_done := True\<rparr>)"
| drained:
    "\<lbrakk>phase s = Draining; all_stopped s\<rbrakk> \<Longrightarrow> start_step f c b Drained s (close_all c b s)"
| drain_timeout:
    "phase s = Draining \<Longrightarrow> start_step f c b DrainTimeout s (close_all c b s)"

text \<open>A run of \<open>Start\<close> from a state, with the actions in order.\<close>

inductive start_run ::
  "nat \<Rightarrow> 'w Consumer \<Rightarrow> 'w endpoints \<Rightarrow> 'w sys \<Rightarrow> action list \<Rightarrow> 'w sys \<Rightarrow> bool"
  for f :: nat and c :: "'w Consumer" and b :: "'w endpoints" and s0 :: "'w sys" where
  run_nil: "start_run f c b s0 [] s0"
| run_snoc: "\<lbrakk>start_run f c b s0 acts s; start_step f c b a s s'\<rbrakk> \<Longrightarrow> start_run f c b s0 (acts @ [a]) s'"

inductive_cases start_stepE [elim]:
  "start_step f c b (Fetched m) s s'" "start_step f c b (FetchFailed e) s s'" "start_step f c b Sent s s'"
  "start_step f c b (Abandoned m) s s'" "start_step f c b (Turn p ev) s s'" "start_step f c b Signal s s'"
  "start_step f c b FlushTick s s'" "start_step f c b FlushLast s s'" "start_step f c b Drained s s'"
  "start_step f c b DrainTimeout s s'"

inductive_simps start_run_simps [simp]:
  "start_run f c b s0 [] s"

text \<open>The steps as a function of state and action, and the runs it computes.\<close>

fun perform :: "nat \<Rightarrow> 'w Consumer \<Rightarrow> 'w endpoints \<Rightarrow> action \<Rightarrow> 'w sys \<Rightarrow> 'w sys option" where
  "perform f c b (Fetched m) s =
     (let (w, r) = FetchMessage b (wld (shared s)) in
      if phase s = Fetching \<and> r = Inr m then Some (dispatch_message m (set_world w s)) else None)"
| "perform f c b (FetchFailed e) s =
     (let (w, r) = FetchMessage b (wld (shared s)) in
      if phase s = Fetching \<and> r = Inl e then fetch_error c e (set_world w s) else None)"
| "perform f c b Sent s = (case phase s of Sending m \<Rightarrow> enqueue m s | _ \<Rightarrow> None)"
| "perform f c b (Abandoned m) s =
     (if phase s = Sending m \<and> cancelled c (shared s) then Some (leave_loop s) else None)"
| "perform f c b (Turn p ev) s = worker_turn f c p ev s"
| "perform f c b Signal s = Some (set_world (Cancel (c_out c) (wld (shared s))) s)"
| "perform f c b FlushTick s = (if flusher_done s then None else Some (flush_metrics s))"
| "perform f c b FlushLast s =
     (if \<not> flusher_done s \<and> cancelled c (shared s)
      then Some ((flush_metrics s)\<lparr>flusher_done := True\<rparr>) else None)"
| "perform f c b Drained s =
     (if phase s = Draining \<and> all_stopped s then Some (close_all c b s) else None)"
| "perform f c b DrainTimeout s = (if phase s = Draining then Some (close_all c b s) else None)"

lemma perform_step: "perform f c b a s = Some s' \<longleftrightarrow> start_step f c b a s s'"
proof
  show "perform f c b a s = Some s' \<Longrightarrow> start_step f c b a s s'"
    by (cases a) (auto simp: case_prod_beta prod_eq_iff intro!: start_step.intros
        split: if_splits phase.splits)
  show "start_step f c b a s s' \<Longrightarrow> perform f c b a s = Some s'"
    by (erule start_step.cases) auto
qed

fun performs :: "nat \<Rightarrow> 'w Consumer \<Rightarrow> 'w endpoints \<Rightarrow> action list \<Rightarrow> 'w sys \<Rightarrow> 'w sys option" where
  "performs f c b [] s = Some s"
| "performs f c b (a # as) s = do { s \<leftarrow> perform f c b a s; performs f c b as s }"

lemma performs_snoc:
  "performs f c b (as @ [a]) s = do { s \<leftarrow> performs f c b as s; perform f c b a s }"
  by (induction as arbitrary: s) (auto split: bind_split)

lemma performs_run: "performs f c b acts s0 = Some s \<longleftrightarrow> start_run f c b s0 acts s"
proof
  show "performs f c b acts s0 = Some s \<Longrightarrow> start_run f c b s0 acts s"
    by (induction acts arbitrary: s rule: rev_induct)
      (auto simp: performs_snoc bind_eq_Some_conv perform_step intro: start_run.intros)
  show "start_run f c b s0 acts s \<Longrightarrow> performs f c b acts s0 = Some s"
    by (induction rule: start_run.induct) (auto simp: performs_snoc perform_step)
qed

text \<open>\<open>Start\<close> on a fresh consumer: the configuration is normalised once more.\<close>

definition normalized :: "'w Consumer \<Rightarrow> 'w Consumer" where
  "normalized c = c\<lparr>c_cfg := normalizeKafkaConfig (c_cfg c)\<rparr>"

definition Start ::
  "nat \<Rightarrow> 'w Consumer \<Rightarrow> 'w endpoints \<Rightarrow> action list \<Rightarrow> 'w cstate \<Rightarrow> 'w sys \<Rightarrow> bool" where
  "Start f c b acts s s' \<longleftrightarrow> start_run f (normalized c) b (init_sys s) acts s'"

text \<open>The messages of partition \<open>p\<close> that were fetched, abandoned, and received by its worker.\<close>

fun fetched :: "int \<Rightarrow> action list \<Rightarrow> kmsg list" where
  "fetched p [] = []"
| "fetched p (Fetched m # as) = (if k_partition m = p then m # fetched p as else fetched p as)"
| "fetched p (_ # as) = fetched p as"

fun abandoned :: "int \<Rightarrow> action list \<Rightarrow> kmsg list" where
  "abandoned p [] = []"
| "abandoned p (Abandoned m # as) = (if k_partition m = p then m # abandoned p as else abandoned p as)"
| "abandoned p (_ # as) = abandoned p as"

fun taken :: "int \<Rightarrow> action list \<Rightarrow> kmsg list" where
  "taken p [] = []"
| "taken p (Turn q (Recv m) # as) = (if q = p then m # taken p as else taken p as)"
| "taken p (_ # as) = taken p as"

lemma history_append [simp]:
  "fetched p (as @ bs) = fetched p as @ fetched p bs"
  "abandoned p (as @ bs) = abandoned p as @ abandoned p bs"
  "taken p (as @ bs) = taken p as @ taken p bs"
proof -
  show "fetched p (as @ bs) = fetched p as @ fetched p bs"
    by (induction p as rule: fetched.induct) simp_all
  show "abandoned p (as @ bs) = abandoned p as @ abandoned p bs"
    by (induction p as rule: abandoned.induct) simp_all
  show "taken p (as @ bs) = taken p as @ taken p bs"
    by (induction p as rule: taken.induct) simp_all
qed

end
