(* ===== verification/Partitions.thy ===== *)
theory Partitions
  imports Dispatch Worker
begin

text \<open>
  What \<open>Start\<close> guarantees while its workers run side by side: the queues keep the order of the
  fetches, and every partition sees the guarantees of a single worker, whatever the other
  workers do.
\<close>

subsection \<open>Views of a state\<close>

definition worker_of :: "'w sys \<Rightarrow> int \<Rightarrow> worker" where
  "worker_of s p = (case workers s p of None \<Rightarrow> new_worker | Some ch \<Rightarrow> ch_worker ch)"

definition queue_of :: "'w sys \<Rightarrow> int \<Rightarrow> kmsg list" where
  "queue_of s p = (case workers s p of None \<Rightarrow> [] | Some ch \<Rightarrow> ch_queue ch)"

definition sending :: "'w sys \<Rightarrow> int \<Rightarrow> kmsg list" where
  "sending s p = (case phase s of Sending m \<Rightarrow> if k_partition m = p then [m] else [] | _ \<Rightarrow> [])"

lemmas views = worker_of_def queue_of_def sending_def

lemma init_views [simp]:
  "worker_of (init_sys s) p = new_worker" "queue_of (init_sys s) p = []" "sending (init_sys s) p = []"
  "shared (init_sys s) = s" "phase (init_sys s) = Fetching"
  by (simp_all add: views init_sys_def)

lemma leave_loop_views [simp]:
  "worker_of (leave_loop s) p = worker_of s p" "queue_of (leave_loop s) p = queue_of s p"
  "sending (leave_loop s) p = []" "shared (leave_loop s) = shared s" "phase (leave_loop s) = Draining"
  by (simp_all add: views leave_loop_def close_channels_def split: option.split)

lemma set_world_views [simp]:
  "worker_of (set_world w s) p = worker_of s p" "queue_of (set_world w s) p = queue_of s p"
  "sending (set_world w s) p = sending s p" "phase (set_world w s) = phase s"
  "workers (set_world w s) = workers s" "shared (set_world w s) = (shared s)\<lparr>wld := w\<rparr>"
  by (simp_all add: views set_world_def)

lemma dispatch_views [simp]:
  "worker_of (dispatch_message m s) p = worker_of s p" "queue_of (dispatch_message m s) p = queue_of s p"
  "sending (dispatch_message m s) p = (if k_partition m = p then [m] else [])"
  "shared (dispatch_message m s) = shared s" "phase (dispatch_message m s) = Sending m"
  by (auto simp: views dispatch_message_def LoadOrStore_def make_channel_def split: option.split)

lemma flush_views [simp]:
  "worker_of (flush_metrics s) p = worker_of s p" "queue_of (flush_metrics s) p = queue_of s p"
  "sending (flush_metrics s) p = sending s p" "shared (flush_metrics s) = shared s"
  "phase (flush_metrics s) = phase s"
  "worker_of (s\<lparr>flusher_done := d\<rparr>) p = worker_of s p" "queue_of (s\<lparr>flusher_done := d\<rparr>) p = queue_of s p"
  "sending (s\<lparr>flusher_done := d\<rparr>) p = sending s p"
  by (simp_all add: views flush_metrics_def)

lemma close_views [simp]:
  "worker_of (close_all c b s) p = worker_of s p" "queue_of (close_all c b s) p = queue_of s p"
  "sending (close_all c b s) p = []" "phase (close_all c b s) = Returned"
  by (simp_all add: close_all_def Let_def views set_world_def)

lemma enqueue_views:
  assumes "enqueue m s = Some s'"
  shows "worker_of s' p = worker_of s p" "shared s' = shared s" "phase s' = Fetching"
    "queue_of s' p = queue_of s p @ (if k_partition m = p then [m] else [])" "sending s' p = []"
    "length (queue_of s (k_partition m)) < PartitionWorkerQueueSize"
  using assms by (auto simp: enqueue_def views split: option.splits if_splits)

lemma fetch_error_views:
  assumes "fetch_error c e s = Some s'" "phase s = Fetching"
  shows "worker_of s' p = worker_of s p" "queue_of s' p = queue_of s p" "sending s' p = []"
    "phase s' = Fetching \<or> phase s' = Draining"
  using assms by (auto simp: fetch_error_def bind_eq_Some_conv views leave_loop_def close_channels_def
      split: if_splits option.split)

lemma receive_queue: "receive ev ch = Some ch' \<Longrightarrow> ch_queue ch = received [ev] @ ch_queue ch' \<and> ch_worker ch' = ch_worker ch"
  by (cases ev) (auto split: list.splits if_splits)

lemma worker_turn_views:
  assumes "worker_turn f c p ev s = Some s'"
  shows "partitionWorker f c ev (worker_of s p) (shared s) = Some (worker_of s' p, shared s')"
    "queue_of s p = received [ev] @ queue_of s' p"
    "q \<noteq> p \<Longrightarrow> worker_of s' q = worker_of s q" "q \<noteq> p \<Longrightarrow> queue_of s' q = queue_of s q"
    "phase s' = phase s" "sending s' q = sending s q"
  using assms by (auto simp: worker_turn_def bind_eq_Some_conv views split: if_splits
      dest!: receive_queue)

subsection \<open>The queues\<close>

lemma taken_received [simp]: "taken p [Turn q ev] = (if q = p then received [ev] else [])"
  by (cases ev) simp_all

text \<open>Fetched in order: received, then buffered, then about to be sent; or given up at the end.\<close>

definition queue_inv :: "action list \<Rightarrow> 'w sys \<Rightarrow> bool" where
  "queue_inv acts s \<longleftrightarrow>
     (\<forall>p. fetched p acts = taken p acts @ queue_of s p @ sending s p @ abandoned p acts
        \<and> length (queue_of s p) \<le> PartitionWorkerQueueSize)
     \<and> (phase s = Fetching \<or> (\<exists>m. phase s = Sending m) \<longrightarrow> (\<forall>p. abandoned p acts = []))"

lemma fetched_partition: "m \<in> set (fetched p acts) \<Longrightarrow> k_partition m = p"
  by (induction p acts rule: fetched.induct) (auto split: if_splits)

lemma queue_inv_init: "queue_inv [] (init_sys s)"
  by (simp add: queue_inv_def)

lemma sending_phase:
  "phase s = Fetching \<Longrightarrow> sending s p = []" "phase s = Draining \<Longrightarrow> sending s p = []"
  "phase s = Sending m \<Longrightarrow> sending s p = (if k_partition m = p then [m] else [])"
  by (simp_all add: sending_def)

lemma queue_inv_step:
  assumes "start_step f c b a s s'" "queue_inv acts s"
  shows "queue_inv (acts @ [a]) s'"
  using assms
proof (cases rule: start_step.cases)
  case (send m)
  note v = enqueue_views [OF send(3)]
  have "length (queue_of s' p) \<le> PartitionWorkerQueueSize" for p
    using v(4,6) assms(2) by (auto simp: queue_inv_def)
  with assms(2) send(1,2) v show ?thesis by (simp add: queue_inv_def sending_phase)
next
  case (fetch_failed w e)
  note v = fetch_error_views [OF fetch_failed(4), simplified, OF fetch_failed(2)]
  from assms(2) fetch_failed(1,2) v(1-3) show ?thesis by (simp add: queue_inv_def sending_phase)
next
  case (turn p ev)
  note v = worker_turn_views [OF turn(2)]
  have "length (queue_of s' q) \<le> PartitionWorkerQueueSize" for q
  proof -
    have "length (queue_of s' q) \<le> length (queue_of s q)"
      using v(2) v(4) [of q] by (cases "q = p") simp_all
    with assms(2) show ?thesis unfolding queue_inv_def by (meson order_trans)
  qed
  moreover have "fetched q (acts @ [a])
      = taken q (acts @ [a]) @ queue_of s' q @ sending s' q @ abandoned q (acts @ [a])" for q
    using v(2) v(4) [of q] v(6) [of q] assms(2) turn(1) by (cases "q = p") (simp_all add: queue_inv_def)
  ultimately show ?thesis using assms(2) turn(1) v(5) by (simp add: queue_inv_def)
next
  case (fetch_message w m)
  with assms(2) show ?thesis by (simp add: queue_inv_def sending_phase)
next
  case (abandon m)
  with assms(2) show ?thesis by (simp add: queue_inv_def sending_phase)
next
  case drained
  with assms(2) show ?thesis by (simp add: queue_inv_def sending_phase)
next
  case drain_timeout
  with assms(2) show ?thesis by (simp add: queue_inv_def sending_phase)
qed (use assms(2) in \<open>simp_all add: queue_inv_def\<close>)

lemma queue_inv_run: "start_run f c b s0 acts s \<Longrightarrow> queue_inv [] s0 \<Longrightarrow> queue_inv acts s"
  by (induction rule: start_run.induct) (auto dest: queue_inv_step)

subsection \<open>The batches\<close>

lemma flush_batch_length:
  "flush f c wk s = Some (wk', s') \<Longrightarrow> batchMsgs wk' = []"
  by (auto simp: flush_def bind_eq_Some_conv split: if_splits)

lemma turn_batch_length:
  assumes "partitionWorker f c ev wk s = Some (wk', s')" "int (length (batchMsgs wk)) < BatchSize (c_cfg c)"
  shows "int (length (batchMsgs wk')) < BatchSize (c_cfg c)"
  using assms
  by (auto simp: partitionWorker_def worker_recv_def Let_def bind_eq_Some_conv
      split: if_splits worker_event.splits sum.splits dest!: flush_batch_length)

definition batch_inv :: "'w Consumer \<Rightarrow> 'w sys \<Rightarrow> bool" where
  "batch_inv c s \<longleftrightarrow> (\<forall>p. int (length (batchMsgs (worker_of s p))) < BatchSize (c_cfg c))"

lemma worker_of_step:
  assumes "start_step f c b a s s'" "\<And>p ev. a \<noteq> Turn p ev"
  shows "worker_of s' p = worker_of s p"
  using assms by (cases rule: start_step.cases) (auto dest: enqueue_views(1) fetch_error_views(1))

lemma batch_inv_step:
  assumes "start_step f c b a s s'" "batch_inv c s"
  shows "batch_inv c s'"
proof (cases "\<exists>p ev. a = Turn p ev")
  case True
  then obtain p ev where a: "a = Turn p ev" by blast
  with assms(1) have "worker_turn f c p ev s = Some s'" by auto
  note v = worker_turn_views [OF this]
  from assms(2) turn_batch_length [OF v(1)] v(3) show ?thesis
    unfolding batch_inv_def by metis
next
  case False
  with worker_of_step [OF assms(1)] assms(2) show ?thesis by (simp add: batch_inv_def)
qed

lemma batch_inv_run: "start_run f c b s0 acts s \<Longrightarrow> batch_inv c s0 \<Longrightarrow> batch_inv c s"
  by (induction rule: start_run.induct) (auto dest: batch_inv_step)

subsection \<open>One partition among others\<close>

text \<open>
  The contract of the endpoints. Seen from partition \<open>p\<close>, a consumer over an outside that keeps
  the contract is a consumer over an outside whose commits are those of \<open>p\<close>: what the other
  partitions commit is none of its business.
\<close>

definition committed_in :: "('w \<Rightarrow> kmsg set) \<Rightarrow> int \<Rightarrow> 'w \<Rightarrow> kmsg set" where
  "committed_in committed p w = {m. k_partition m = p \<longrightarrow> m \<in> committed w}"

lemma outside_step_in:
  assumes "outside_step out stored dlq committed good C w w'" "{m \<in> C. k_partition m = p} \<subseteq> D"
  shows "outside_step out stored dlq (committed_in committed p) good D w w'"
  using assms unfolding outside_step_def committed_in_def by blast

locale kafka_dispatch = kafka_consumer c stored dlq committed good
  for c :: "'w Consumer" and stored dlq committed good +
  fixes b :: "'w endpoints"
  assumes fetch_step: "outside_step (c_out c) stored dlq committed good {} w (fst (FetchMessage b w))"
    and close_writer_step: "outside_step (c_out c) stored dlq committed good {} w (CloseWriter b w)"
    and close_reader_step: "outside_step (c_out c) stored dlq committed good {} w (CloseReader b w)"

sublocale kafka_dispatch \<subseteq> part: kafka_consumer c stored dlq "committed_in committed p" good for p
proof unfold_locales
  fix w w' e d t ts ms put r n
  note I = outside_step_in [where p = p and committed = committed]
  let ?step = "outside_step (c_out c) stored dlq (committed_in committed p) good"
  show "CtxErr (c_out c) w = Some e \<Longrightarrow> errors_Is e CtxCanceled \<or> errors_Is e CtxDeadlineExceeded"
    by (rule ctx_err)
  show "CtxErr (c_out c) (Cancel (c_out c) w) \<noteq> None" by (rule cancel_done)
  show "?step {} w (Cancel (c_out c) w)" by (rule I [OF cancel_step]) simp
  show "?step {} w (fst (Register (c_out c) d t w))" by (rule I [OF register_step]) simp
  show "Register (c_out c) d t w = (w', None) \<Longrightarrow> t \<in> stored w'" by (rule register_ok)
  show "CtxErr (c_out c) w \<noteq> None \<Longrightarrow> snd (Register (c_out c) d t w) \<noteq> None" by (rule register_done)
  show "?step {} w (fst (Registers (c_out c) d ts w))" by (rule I [OF registers_step]) simp
  show "Registers (c_out c) d ts w = (w', None) \<Longrightarrow> set ts \<subseteq> stored w'" by (rule registers_ok)
  show "\<lbrakk>CtxErr (c_out c) w \<noteq> None; ts \<noteq> []\<rbrakk> \<Longrightarrow> snd (Registers (c_out c) d ts w) \<noteq> None"
    by (rule registers_done)
  show "?step (set ms) w (fst (CommitMessages (c_out c) ms w))" by (rule I [OF commit_step]) auto
  show "CommitMessages (c_out c) ms w = (w', None) \<Longrightarrow> set ms \<subseteq> committed_in committed p w'"
    using commit_ok by (auto simp: committed_in_def)
  show "WriteMessages (c_out c) = Some put \<Longrightarrow> ?step {} w (fst (put r w))"
    by (rule I [OF write_step]) auto
  show "\<lbrakk>WriteMessages (c_out c) = Some put; put r w = (w', None)\<rbrakk> \<Longrightarrow> r \<in> dlq w'" by (rule write_ok)
  show "?step {} w (fst (Now (c_out c) w))" by (rule I [OF now_step]) simp
  show "?step {} w (fst (Int63n (c_out c) n w))" by (rule I [OF rand_step]) simp
  show "?step {} w (Sleep (c_out c) d w)" by (rule I [OF sleep_step]) simp
  show "0 \<le> MaxProcessRetries (c_cfg c)" by (rule retries)
qed

context kafka_dispatch
begin

lemma adv_in: "\<lbrakk>adv C s s'; {m \<in> C. k_partition m = p} \<subseteq> D\<rbrakk> \<Longrightarrow> part.adv p D s s'"
  unfolding adv_def part.adv_def by (elim conjE, intro conjI, rule outside_step_in)

text \<open>Every worker's batch and queue hold messages of its partition; a fatal error cancels.\<close>

definition sys_ok :: "'w sys \<Rightarrow> bool" where
  "sys_ok s \<longleftrightarrow> sane (shared s) \<and> (\<forall>p. batch_ok (worker_of s p)
     \<and> (\<forall>m \<in> set (batchMsgs (worker_of s p)) \<union> set (queue_of s p) \<union> set (sending s p). k_partition m = p))"

lemma sys_ok_init: "fatal s = None \<Longrightarrow> sys_ok (init_sys s)"
  by (simp add: sys_ok_def sane_def) (simp add: new_worker_def)

text \<open>What is not a turn of a worker commits nothing.\<close>

lemma adv_set_world: "outside_step (c_out c) stored dlq committed good {} (wld s) w \<Longrightarrow> adv {} s (s\<lparr>wld := w\<rparr>)"
  by (simp add: adv_wld)

lemma close_adv: "adv {} (shared s) (shared (close_all c b s))"
proof -
  let ?w = "wld (shared s)"
  let ?w1 = "if WriteMessages (c_out c) = None then ?w else CloseWriter b ?w"
  have "outside_step (c_out c) stored dlq committed good {} ?w ?w1"
    using step_refl close_writer_step by simp
  then have "outside_step (c_out c) stored dlq committed good {} ?w (Cancel (c_out c) (CloseReader b ?w1))"
    using step_trans close_reader_step cancel_step by blast
  then show ?thesis by (simp add: close_all_def Let_def adv_set_world)
qed

lemma idle_adv:
  assumes "start_step f c b a s s'" "\<And>p ev. a \<noteq> Turn p ev"
  shows "adv {} (shared s) (shared s')"
  using assms(1)
proof (cases rule: start_step.cases)
  case (fetch_message w m)
  with fetch_step [of "wld (shared s)"] show ?thesis by (simp add: adv_set_world)
next
  case (fetch_failed w e)
  with fetch_step [of "wld (shared s)"] have "adv {} (shared s) (shared (set_world w s))"
    by (simp add: adv_set_world)
  moreover have "adv {} (shared (set_world w s)) (shared s')"
    using fetch_failed(4) adv_trans [OF adv_emit(1) adv_pause]
    by (auto simp: fetch_error_def bind_eq_Some_conv split: if_splits)
  ultimately show ?thesis by (rule adv_trans)
next
  case (send m)
  with enqueue_views(2) show ?thesis by fastforce
next
  case signal
  then show ?thesis using cancel_step by (simp add: adv_set_world)
next
  case drained
  then show ?thesis using close_adv by simp
next
  case drain_timeout
  then show ?thesis using close_adv by simp
qed (use assms(2) in auto)

lemma turn_facts:
  assumes "worker_turn f c p ev s = Some s'" "sys_ok s"
  shows "adv (set (batchMsgs (worker_of s p) @ received [ev])) (shared s) (shared s')"
    and "accounted (shared s) (shared s')"
    and "\<forall>m \<in> set (batchMsgs (worker_of s p) @ received [ev]). k_partition m = p"
    and "sys_ok s'"
proof -
  note v = worker_turn_views [OF assms(1)]
  from assms(2) have ok: "sane (shared s)" "\<And>q. batch_ok (worker_of s q)"
    "\<And>q m. m \<in> set (batchMsgs (worker_of s q)) \<union> set (queue_of s q) \<union> set (sending s q) \<Longrightarrow> k_partition m = q"
    unfolding sys_ok_def by blast+
  note t = turn_adv [OF v(1) ok(2,1)] step_accounted [OF v(1) ok(2,1)]
  show "adv (set (batchMsgs (worker_of s p) @ received [ev])) (shared s) (shared s')" by (rule t(1))
  show "accounted (shared s) (shared s')" using t(3) by blast
  show part: "\<forall>m \<in> set (batchMsgs (worker_of s p) @ received [ev]). k_partition m = p"
    using ok(3) [of _ p] v(2) by auto
  have "batch_ok (worker_of s' q)
      \<and> (\<forall>m \<in> set (batchMsgs (worker_of s' q)) \<union> set (queue_of s' q) \<union> set (sending s' q). k_partition m = q)" for q
  proof (cases "q = p")
    case True
    with part t(2,3) ok(3) [of _ p] v(2) v(6) [of p] show ?thesis by auto
  next
    case False
    with v(3,4,6) [of q] ok(2,3) show ?thesis by simp
  qed
  with adv_sane [OF t(1) ok(1)] show "sys_ok s'" by (simp add: sys_ok_def)
qed

lemma idle_ok:
  assumes "start_step f c b a s s'" "\<And>p ev. a \<noteq> Turn p ev" "sys_ok s"
  shows "sys_ok s'"
proof -
  have sane: "sane (shared s')" using idle_adv [OF assms(1,2)] adv_sane assms(3) by (auto simp: sys_ok_def)
  have "set (queue_of s' p) \<union> set (sending s' p) \<subseteq> {m. k_partition m = p}" for p
  proof -
    have q: "set (queue_of s p) \<union> set (sending s p) \<subseteq> {m. k_partition m = p}"
      using assms(3) by (auto simp: sys_ok_def)
    show ?thesis using assms(1)
    proof (cases rule: start_step.cases)
      case (fetch_failed w e)
      note v = fetch_error_views [OF fetch_failed(4), simplified, OF fetch_failed(2)]
      with q show ?thesis by simp
    next
      case (send m)
      with q enqueue_views(4,5) [OF send(3), of p] show ?thesis by auto
    qed (use q assms(2) in auto)
  qed
  with sane worker_of_step [OF assms(1,2)] assms(3) show ?thesis by (auto simp: sys_ok_def)
qed

lemma start_step_ok:
  assumes "start_step f c b a s s'" "sys_ok s"
  shows "sys_ok s' \<and> accounted (shared s) (shared s')"
proof (cases "\<exists>p ev. a = Turn p ev")
  case True
  with assms(1) obtain p ev where "worker_turn f c p ev s = Some s'" by auto
  from turn_facts(2,4) [OF this assms(2)] show ?thesis by blast
next
  case False
  with idle_adv [OF assms(1)] idle_ok [OF assms(1) _ assms(2)] adv_accounted show ?thesis by blast
qed

lemma start_run_ok:
  assumes "start_run f c b s0 acts s" "sys_ok s0"
  shows "sys_ok s \<and> accounted (shared s0) (shared s)"
  using assms by (induction rule: start_run.induct) (auto dest: start_step_ok intro: accounted_trans)

text \<open>The invariant of the worker of partition \<open>p\<close> is kept by everything that happens.\<close>

lemma part_ok: "sys_ok s \<Longrightarrow> sane (shared s) \<and> batch_ok (worker_of s p)"
  by (simp add: sys_ok_def)

lemma part_step:
  assumes "start_step f c b a s s'" "sys_ok s"
    and inv: "part.worker_inv p s0 (taken p acts) (worker_of s p) (shared s)"
    and ok: "(\<forall>m \<in> set (taken p [a]). valid_msg m) \<or> \<not> cancelled c (shared s')"
  shows "part.worker_inv p s0 (taken p (acts @ [a])) (worker_of s' p) (shared s')"
proof (cases "\<exists>q ev. a = Turn q ev")
  case True
  then obtain q ev where a: "a = Turn q ev" by blast
  with assms(1) have t: "worker_turn f c q ev s = Some s'" by auto
  note v = worker_turn_views [OF t]
  show ?thesis
  proof (cases "q = p")
    case True
    with part.step_inv [OF v(1) [unfolded True] _ _ inv] part_ok [OF assms(2)] ok a show ?thesis by simp
  next
    case False
    note tf = turn_facts [OF t assms(2)]
    from tf(3) False have "{m \<in> set (batchMsgs (worker_of s q) @ received [ev]). k_partition m = p} \<subseteq> {}"
      by auto
    from part.worker_inv_env [OF inv adv_in [OF tf(1) this]] v(3) [of p] False a show ?thesis by simp
  qed
next
  case False
  then have n: "a \<noteq> Turn q ev" for q ev by blast
  have "taken p [a] = []" using n by (cases a) auto
  with part.worker_inv_env [OF inv adv_in [OF idle_adv [OF assms(1) n]]] worker_of_step [OF assms(1) n]
  show ?thesis by simp
qed

lemma part_run:
  assumes "start_run f c b (init_sys s0) acts s" "fatal s0 = None"
    and "(\<forall>m \<in> set (taken p acts). valid_msg m) \<or> \<not> cancelled c (shared s)"
  shows "part.worker_inv p s0 (taken p acts) (worker_of s p) (shared s)"
  using assms
proof (induction acts s rule: start_run.induct)
  case run_nil
  then show ?case using part.worker_inv_start by simp
next
  case (run_snoc acts s a s')
  have ok: "sys_ok s" using start_run_ok [OF run_snoc.hyps(1) sys_ok_init] run_snoc.prems(1) by blast
  have "cancelled c (shared s) \<Longrightarrow> cancelled c (shared s')"
    using start_step_ok [OF run_snoc.hyps(2) ok] accounted_cancelled by blast
  with run_snoc.prems(2) have c: "(\<forall>m \<in> set (taken p acts). valid_msg m) \<or> \<not> cancelled c (shared s)"
    "(\<forall>m \<in> set (taken p [a]). valid_msg m) \<or> \<not> cancelled c (shared s')" by auto
  from part_step [OF run_snoc.hyps(2) ok run_snoc.IH [OF run_snoc.prems(1) c(1)] c(2)] show ?case .
qed


end

end
