(* ===== verification/Fleet.thy ===== *)
theory Fleet
  imports Guarantees Partitions
begin

text \<open>
  The guarantees of \<open>Start\<close> with all its workers, for every outside that keeps the contract
  \<open>kafka_dispatch\<close>, and for the whole program on any PostgreSQL driver.
\<close>

subsection \<open>The program\<close>

text \<open>
  The reader of the concrete world delivers its script and then blocks until the stop signal
  arrives. Closing changes nothing that the guarantees speak of.
\<close>

definition world_fetch :: "'d world \<Rightarrow> 'd world \<times> (goerr + kmsg)" where
  [world_defs]: "world_fetch w =
     (if w_cancelled w then (w, Inl (Sentinel CtxCanceled))
      else case w_fetches w of
        [] \<Rightarrow> (w\<lparr>w_cancelled := True\<rparr>, Inl (Sentinel CtxCanceled))
      | r # rs \<Rightarrow> (tick (w\<lparr>w_fetches := rs\<rparr>), r))"

definition world_endpoints :: "'d world endpoints" where
  [world_defs]: "world_endpoints = \<lparr>FetchMessage = world_fetch, CloseWriter = (\<lambda>w. w), CloseReader = (\<lambda>w. w)\<rparr>"

lemma normalized_new [simp]: "normalized (NewConsumerWithMetrics out k) = NewConsumerWithMetrics out k"
  by (simp add: normalized_def NewConsumerWithMetrics_def normalize_default default_kafka_id default_kafka_valid)

sublocale pg_world \<subseteq> dis: kafka_dispatch "NewConsumerWithMetrics (world_out drv p has_writer sha) k"
  "world_stored tbl micros" "\<lambda>w. set (w_dlq w)" "\<lambda>w. set (w_commits w)" world_inv world_endpoints
proof (unfold_locales)
  fix w :: "'d world"
  let ?c = "NewConsumerWithMetrics (world_out drv p has_writer sha) k"
  show "outside_step (c_out ?c) (world_stored tbl micros) (\<lambda>w. set (w_dlq w)) (\<lambda>w. set (w_commits w))
      world_inv {} w (fst (FetchMessage world_endpoints w))"
    unfolding NewConsumerWithMetrics_def
    by simp (rule world_stepI; simp add: world_endpoints_def world_fetch_def world_inv_def split: list.split)
qed (use idle_world in \<open>simp_all add: NewConsumerWithMetrics_def world_endpoints_def\<close>)

context pg_world
begin

lemma dispatch_axioms:
  "kafka_dispatch (NewConsumerWithMetrics (world_out drv p has_writer sha) k)
     (world_stored tbl micros) (\<lambda>w. set (w_dlq w)) (\<lambda>w. set (w_commits w)) world_inv world_endpoints"
  by (rule dis.kafka_dispatch_axioms)

end

subsection \<open>Delivery\<close>

lemma Start_run: "Start f c b acts s0 s \<longleftrightarrow> start_run f (normalized c) b (init_sys s0) acts s"
  by (simp add: Start_def)

context kafka_dispatch
begin

lemma run_handled:
  assumes "start_run f c b (init_sys s0) acts s" "fatal s0 = None"
    and "m \<in> committed (wld (shared s))" "m \<notin> committed (wld s0)"
  shows "handled (stored (wld (shared s))) (dlq (wld (shared s))) m"
proof -
  from start_run_ok [OF assms(1) sys_ok_init [OF assms(2)]]
  obtain C where "adv C s0 (shared s)" "\<forall>m \<in> C. done_with (shared s) m" by (auto simp: accounted_def)
  with assms(3,4) adv_committed_le show ?thesis unfolding done_with_def by blast
qed

lemma run_keeps_good:
  assumes "start_run f c b (init_sys s0) acts s" "fatal s0 = None" "good (wld s0)"
  shows "good (wld (shared s))"
proof -
  from start_run_ok [OF assms(1) sys_ok_init [OF assms(2)]] obtain C where "adv C s0 (shared s)"
    by (auto simp: accounted_def)
  then show ?thesis using assms(3) by (rule adv_good)
qed

lemma run_fetched: "start_run f c b (init_sys s0) acts s \<Longrightarrow> queue_inv acts s"
  using queue_inv_run queue_inv_init by blast

lemma run_partition:
  assumes "start_run f c b (init_sys s0) acts s" "fatal s0 = None"
    and ok: "(\<forall>m \<in> set (taken p acts). valid_msg m) \<or> CtxErr (c_out c) (wld (shared s)) = None"
  shows "\<exists>hist pend. fetched p acts = hist @ pend
    \<and> (\<forall>m \<in> set hist. handled (stored (wld (shared s))) (dlq (wld (shared s))) m)
    \<and> {m \<in> committed (wld (shared s)). k_partition m = p} \<subseteq> committed (wld s0) \<union> set hist
    \<and> (CtxErr (c_out c) (wld (shared s)) = None \<and> \<not> w_stopped (worker_of s p)
         \<longrightarrow> set hist \<subseteq> committed (wld (shared s))
           \<and> pend = batchMsgs (worker_of s p) @ queue_of s p @ sending s p @ abandoned p acts)"
proof -
  let ?s = "shared s"
  from ok have "(\<forall>m \<in> set (taken p acts). valid_msg m) \<or> \<not> cancelled c ?s" by (simp add: cancelled_def)
  from part_run [OF assms(1,2) this] obtain hist pend where h: "taken p acts = hist @ pend"
    "part.delivered p hist s0 ?s"
    "\<not> cancelled c ?s \<and> \<not> w_stopped (worker_of s p) \<longrightarrow> pend = batchMsgs (worker_of s p)"
    unfolding part.worker_inv_def by blast
  from h(2) obtain ds where d: "prefix ds hist" "part.adv p (set ds) s0 ?s" "\<forall>m \<in> set ds. done_with ?s m"
    "\<not> cancelled c ?s \<longrightarrow> ds = hist \<and> set hist \<subseteq> committed_in committed p (wld ?s)"
    unfolding part.delivered_def part.done_with_def done_with_def by blast
  from d(1) obtain zs where z: "hist = ds @ zs" by (rule prefixE)
  let ?rest = "queue_of s p @ sending s p @ abandoned p acts"
  have fetched: "fetched p acts = (ds @ zs @ pend) @ ?rest"
    using run_fetched [OF assms(1)] h(1) z by (simp add: queue_inv_def)
  have p: "k_partition m = p" if "m \<in> set (taken p acts)" for m
    by (rule fetched_partition [of m p acts]) (use that fetched h(1) z in auto)
  show ?thesis
  proof (intro exI conjI)
    show "fetched p acts = ds @ ((zs @ pend) @ ?rest)" using fetched by simp
    show "\<forall>m \<in> set ds. handled (stored (wld ?s)) (dlq (wld ?s)) m" using d(3) by (simp add: done_with_def)
    show "{m \<in> committed (wld ?s). k_partition m = p} \<subseteq> committed (wld s0) \<union> set ds"
      using part.adv_committed_le [OF d(2)] by (auto simp: committed_in_def)
    show "CtxErr (c_out c) (wld ?s) = None \<and> \<not> w_stopped (worker_of s p)
        \<longrightarrow> set ds \<subseteq> committed (wld ?s) \<and> (zs @ pend) @ ?rest = batchMsgs (worker_of s p) @ ?rest"
      using h(1,3) d(4) z p by (auto simp: cancelled_def committed_in_def)
  qed
qed

end

subsection \<open>A run\<close>

text \<open>
  A good and a malformed message are fetched, sent to the worker of partition 0 and handled; the
  worker of the first waits in its batch until the second arrives.
\<close>

definition sample_start :: "refdb world cstate" where
  "sample_start = start_state ((sample_world [] [])\<lparr>w_fetches := [Inr (good_msg 1), Inr (bad_msg 2)]\<rparr>)"

definition sample_actions :: "action list" where
  "sample_actions = [Fetched (good_msg 1), Sent, Fetched (bad_msg 2), Sent,
     Turn 0 (Recv (good_msg 1)), Turn 0 (Recv (bad_msg 2))]"

lemma sample_normalized [simp]: "normalized (sample_consumer b) = sample_consumer b"
  by (simp add: sample_consumer_def)

lemmas dispatch_defs =
  set_world_def dispatch_message_def LoadOrStore_def make_channel_def enqueue_def
  PartitionWorkerQueueSize_def worker_turn_def init_sys_def leave_loop_def close_all_def flush_metrics_def

lemma message_partition [simp]: "k_partition (good_msg n) = 0" "k_partition (bad_msg n) = 0"
  by (simp_all add: good_msg_def bad_msg_def message_def)

lemma sample_Start:
  "\<exists>s. Start 5 (sample_consumer True) world_endpoints sample_actions sample_start s
     \<and> w_commits (wld (shared s)) = [good_msg 1, bad_msg 2] \<and> \<not> w_cancelled (wld (shared s))"
  unfolding Start_run sample_normalized performs_run [symmetric]
  by (simp add: sample_actions_def sample_start_def dispatch_defs run_defs consumer_defs world_defs)

lemma sample_dispatch:
  "kafka_dispatch (normalized (sample_consumer b)) (world_stored db_rows pg_micros) (\<lambda>w. set (w_dlq w))
     (\<lambda>w. set (w_commits w)) (pg_world.world_inv db_rows) world_endpoints"
  unfolding sample_consumer_def normalized_new by (rule ref_world.dispatch_axioms)

subsection \<open>Guarantees\<close>

text \<open>
  At-least-once delivery of the whole consumer. In every run of \<open>Start\<close>, with any number of
  partitions and any interleaving of the fetch loop, the workers, the metrics flusher and the
  shutdown, after any failures, a message whose offset was newly committed is handled: its
  transaction is stored, or a record of it is in the dead-letter topic.
\<close>

theorem start_commits_handled:
  assumes "kafka_dispatch (normalized c) stored dlq committed good b"
    and "Start f c b acts s0 s" and "fatal s0 = None"
    and "m \<in> committed (wld (shared s))" and "m \<notin> committed (wld s0)"
  shows "handled (stored (wld (shared s))) (dlq (wld (shared s))) m"
  using kafka_dispatch.run_handled [OF assms(1) assms(2) [unfolded Start_run] assms(3-5)] .

theorem start_commits_handled_witness:
  "\<exists>s :: refdb world. handled (world_stored db_rows pg_micros s) (set (w_dlq s)) (bad_msg 2)"
proof -
  obtain s where s: "Start 5 (sample_consumer True) world_endpoints sample_actions sample_start s"
    "w_commits (wld (shared s)) = [good_msg 1, bad_msg 2]" using sample_Start by blast
  from start_commits_handled [OF sample_dispatch s(1), of "bad_msg 2"] s(2)
  have "handled (world_stored db_rows pg_micros (wld (shared s))) (set (w_dlq (wld (shared s)))) (bad_msg 2)"
    by (simp add: sample_start_def start_state_def sample_world_def)
  then show ?thesis by blast
qed

text \<open>
  C4: order per partition. If all the messages that a partition's worker received are valid, or
  the application still runs, then of the messages fetched from the partition a first part is
  handled and nothing outside it was newly committed; while application and worker run, that
  part is committed, and the rest is the worker's batch, then its channel, then the message the
  fetch loop is about to send. No other partition can disturb this.
\<close>

theorem start_in_order:
  assumes "kafka_dispatch (normalized c) stored dlq committed good b"
    and "Start f c b acts s0 s" and "fatal s0 = None"
    and "(\<forall>m \<in> set (taken p acts). valid_msg m) \<or> CtxErr (c_out c) (wld (shared s)) = None"
  shows "\<exists>hist pend. fetched p acts = hist @ pend
    \<and> (\<forall>m \<in> set hist. handled (stored (wld (shared s))) (dlq (wld (shared s))) m)
    \<and> {m \<in> committed (wld (shared s)). k_partition m = p} \<subseteq> committed (wld s0) \<union> set hist
    \<and> (CtxErr (c_out c) (wld (shared s)) = None \<and> \<not> w_stopped (worker_of s p)
         \<longrightarrow> set hist \<subseteq> committed (wld (shared s))
           \<and> pend = batchMsgs (worker_of s p) @ queue_of s p @ sending s p @ abandoned p acts)"
proof -
  have [simp]: "c_out (normalized c) = c_out c" by (simp add: normalized_def)
  from kafka_dispatch.run_partition [OF assms(1) assms(2) [unfolded Start_run] assms(3), of p] assms(4)
  show ?thesis by simp
qed

theorem start_in_order_witness:
  "\<exists>hist pend. [good_msg 1, bad_msg 2] = hist @ pend \<and> bad_msg 2 \<in> set hist"
proof -
  obtain s where s: "Start 5 (sample_consumer True) world_endpoints sample_actions sample_start s"
    "w_commits (wld (shared s)) = [good_msg 1, bad_msg 2]" "\<not> w_cancelled (wld (shared s))"
    using sample_Start by blast
  have "fatal sample_start = None" "CtxErr (c_out (sample_consumer True)) (wld (shared s)) = None"
    using s(3) by (simp_all add: sample_start_def start_state_def world_out_def)
  from start_in_order [OF sample_dispatch s(1) this(1) disjI2 [OF this(2)], of 0]
  obtain hist pend where "fetched 0 sample_actions = hist @ pend"
    "{m \<in> set (w_commits (wld (shared s))). k_partition m = 0} \<subseteq> set (w_commits (wld sample_start)) \<union> set hist"
    by blast
  moreover have "bad_msg 2 \<in> {m \<in> set (w_commits (wld (shared s))). k_partition m = 0}" using s(2) by simp
  ultimately have "[good_msg 1, bad_msg 2] = hist @ pend" "bad_msg 2 \<in> set hist"
    by (simp_all add: sample_actions_def sample_start_def start_state_def sample_world_def subset_iff)
  then show ?thesis by blast
qed

text \<open>
  C5: no message is lost behind an offset. Under the same condition, when the reader hands out a
  partition in the order of its offsets, every message fetched from it at or below a newly
  committed offset is handled, so that a restart from the committed offset loses nothing.
\<close>

theorem start_skips_nothing:
  assumes env: "kafka_dispatch (normalized c) stored dlq committed good b"
    and run: "Start f c b acts s0 s" and f: "fatal s0 = None"
    and ok: "(\<forall>m \<in> set (taken p acts). valid_msg m) \<or> CtxErr (c_out c) (wld (shared s)) = None"
    and off: "sorted_wrt (\<lambda>a b. k_offset a < k_offset b) (fetched p acts)"
    and m: "m \<in> committed (wld (shared s))" "m \<notin> committed (wld s0)" "k_partition m = p"
    and m': "m' \<in> set (fetched p acts)" "k_offset m' \<le> k_offset m"
  shows "handled (stored (wld (shared s))) (dlq (wld (shared s))) m'"
proof -
  have [simp]: "c_out (normalized c) = c_out c" by (simp add: normalized_def)
  from kafka_dispatch.run_partition [OF env run [unfolded Start_run] f, of p] ok
  obtain hist pend where h: "fetched p acts = hist @ pend"
    "\<forall>m \<in> set hist. handled (stored (wld (shared s))) (dlq (wld (shared s))) m"
    "{m \<in> committed (wld (shared s)). k_partition m = p} \<subseteq> committed (wld s0) \<union> set hist" by auto
  from h(3) m have "m \<in> set hist" by blast
  with off h(1) have "\<forall>x \<in> set pend. k_offset m < k_offset x" by (auto simp: sorted_wrt_append)
  with m' have "m' \<notin> set pend" by force
  with m'(1) h(1,2) show ?thesis by auto
qed

theorem start_skips_nothing_witness:
  "\<exists>s :: refdb world. handled (world_stored db_rows pg_micros s) (set (w_dlq s)) (good_msg 1)"
proof -
  obtain s where s: "Start 5 (sample_consumer True) world_endpoints sample_actions sample_start s"
    "w_commits (wld (shared s)) = [good_msg 1, bad_msg 2]" "\<not> w_cancelled (wld (shared s))"
    using sample_Start by blast
  have c: "fatal sample_start = None" "CtxErr (c_out (sample_consumer True)) (wld (shared s)) = None"
    using s(3) by (simp_all add: sample_start_def start_state_def world_out_def)
  have "handled (world_stored db_rows pg_micros (wld (shared s))) (set (w_dlq (wld (shared s)))) (good_msg 1)"
    using s(2)
    by (intro start_skips_nothing [OF sample_dispatch s(1) c(1) disjI2 [OF c(2)], of 0 "bad_msg 2"])
      (simp_all add: sample_actions_def sample_start_def start_state_def sample_world_def)
  then show ?thesis by blast
qed

text \<open>
  The whole processor. For every driver that keeps \<open>pg_world\<close>, in every run of \<open>Start\<close> on the
  consumer that the program builds, a message newly committed either has its row in the table,
  written through the service and the repository, or a dead letter naming its topic, partition
  and offset; and no transaction is ever in the table twice, however often it was delivered.
\<close>

theorem processor_delivery:
  assumes w: "pg_world drv tbl clock micros of_micros p"
    and c: "c = NewConsumerWithMetrics (world_out drv p has_writer sha) k"
    and run: "Start f c world_endpoints acts s0 s" and f: "fatal s0 = None"
    and u: "distinct (map key_of (tbl (w_db (wld s0))))"
  shows "(\<forall>m \<in> set (w_commits (wld (shared s))) - set (w_commits (wld s0)).
      (\<exists>t. parseAndValidateMsg m = Inr t \<and> tx_key micros t \<in> key_of ` set (tbl (w_db (wld (shared s)))))
      \<or> (\<exists>r \<in> set (w_dlq (wld (shared s))). d_topic r = k_topic m \<and> d_partition r = k_partition m
            \<and> d_offset r = k_offset m))
    \<and> distinct (map key_of (tbl (w_db (wld (shared s)))))"
proof (intro conjI ballI)
  note dis = pg_world.dispatch_axioms [OF w, of has_writer sha k, folded c]
  from run c have r: "start_run f c world_endpoints (init_sys s0) acts s" by (simp add: Start_run)
  show "distinct (map key_of (tbl (w_db (wld (shared s)))))"
    using kafka_dispatch.run_keeps_good [OF dis r f] u by (simp add: pg_world.world_inv_def [OF w])
  fix m assume "m \<in> set (w_commits (wld (shared s))) - set (w_commits (wld s0))"
  with kafka_dispatch.run_handled [OF dis r f, of m]
  have "handled (world_stored tbl micros (wld (shared s))) (set (w_dlq (wld (shared s)))) m" by simp
  then show "(\<exists>t. parseAndValidateMsg m = Inr t \<and> tx_key micros t \<in> key_of ` set (tbl (w_db (wld (shared s)))))
      \<or> (\<exists>r \<in> set (w_dlq (wld (shared s))). d_topic r = k_topic m \<and> d_partition r = k_partition m
            \<and> d_offset r = k_offset m)"
    by (auto simp: handled_def dead_def world_stored_def)
qed

theorem processor_delivery_witness:
  "\<exists>s :: refdb world. distinct (map key_of (db_rows (w_db s))) \<and> w_commits s = [good_msg 1, bad_msg 2]"
proof -
  obtain s where s: "Start 5 (sample_consumer True) world_endpoints sample_actions sample_start s"
    "w_commits (wld (shared s)) = [good_msg 1, bad_msg 2]" using sample_Start by blast
  from processor_delivery [OF ref_world.pg_world_axioms sample_consumer_def s(1)] s(2)
  show ?thesis by (auto simp: sample_start_def start_state_def sample_world_def sample_db_def)
qed

text \<open>
  C11: bounded memory and first-in-first-out channels. Whatever happens, what was fetched from a
  partition is what its worker received, then its channel, then the message being sent or given
  up; a channel never holds more than 128 messages, and a batch is always smaller than its
  configured size when a turn of the worker ends.
\<close>

theorem start_bounded:
  assumes "Start f c b acts s0 s"
  shows "fetched p acts = taken p acts @ queue_of s p @ sending s p @ abandoned p acts
    \<and> length (queue_of s p) \<le> 128
    \<and> int (length (batchMsgs (worker_of s p))) < BatchSize (normalizeKafkaConfig (c_cfg c))"
proof (intro conjI)
  note run = assms [unfolded Start_run]
  from queue_inv_run [OF run queue_inv_init]
  show "fetched p acts = taken p acts @ queue_of s p @ sending s p @ abandoned p acts"
    "length (queue_of s p) \<le> 128" by (simp_all add: queue_inv_def PartitionWorkerQueueSize_def)
  have "batch_inv (normalized c) (init_sys s0)"
    by (simp add: batch_inv_def normalized_def normalizeKafkaConfig_def Let_def) (simp add: new_worker_def)
  from batch_inv_run [OF run this]
  show "int (length (batchMsgs (worker_of s p))) < BatchSize (normalizeKafkaConfig (c_cfg c))"
    by (simp add: batch_inv_def normalized_def)
qed

theorem start_bounded_witness:
  "\<exists>s :: refdb world sys. length (queue_of s 0) \<le> 128 \<and> w_commits (wld (shared s)) = [good_msg 1, bad_msg 2]"
proof -
  obtain s where s: "Start 5 (sample_consumer True) world_endpoints sample_actions sample_start s"
    "w_commits (wld (shared s)) = [good_msg 1, bad_msg 2]" using sample_Start by blast
  from start_bounded [OF s(1), of 0] s(2) show ?thesis by blast
qed

subsection \<open>Shutdown\<close>

text \<open>There are finitely many workers, and once the loop is left every channel is closed.\<close>

definition shutdown_inv :: "'w sys \<Rightarrow> bool" where
  "shutdown_inv s \<longleftrightarrow> finite (dom (workers s))
     \<and> (phase s = Draining \<or> phase s = Returned \<longrightarrow> (\<forall>p ch. workers s p = Some ch \<longrightarrow> ch_closed ch))"

lemma receive_closed: "receive ev ch = Some ch' \<Longrightarrow> ch_closed ch' = ch_closed ch"
  by (cases ev) (auto split: list.splits if_splits)

lemma dom_close_channels [simp]: "dom (close_channels ws) = dom ws"
  by (auto simp: close_channels_def)

lemma shutdown_inv_leave: "finite (dom (workers s)) \<Longrightarrow> shutdown_inv (leave_loop s)"
  by (auto simp: shutdown_inv_def leave_loop_def) (auto simp: close_channels_def)

lemma shutdown_inv_step:
  assumes "start_step f c b a s s'" "shutdown_inv s"
  shows "shutdown_inv s'"
  using assms
proof (cases rule: start_step.cases)
  case (fetch_failed w e)
  show ?thesis
  proof (cases "errors_Is e CtxCanceled")
    case True
    with fetch_failed(4) have "s' = leave_loop (set_world w s)" by (simp add: fetch_error_def)
    with shutdown_inv_leave [of "set_world w s"] assms(2) show ?thesis by (simp add: shutdown_inv_def)
  next
    case False
    with fetch_failed(2,4) assms(2) show ?thesis
      by (auto simp: fetch_error_def bind_eq_Some_conv shutdown_inv_def set_world_def)
  qed
next
  case (send m)
  then show ?thesis using assms(2)
    by (auto simp: enqueue_def shutdown_inv_def split: option.splits if_splits)
next
  case (turn p ev)
  then show ?thesis using assms(2)
    by (auto simp: worker_turn_def bind_eq_Some_conv shutdown_inv_def split: if_splits)
      (auto dest!: receive_closed)
next
  case (abandon m)
  with shutdown_inv_leave [of s] assms(2) show ?thesis by (simp add: shutdown_inv_def)
qed (auto simp: shutdown_inv_def dispatch_message_def LoadOrStore_def flush_metrics_def
      close_all_def Let_def)

lemma shutdown_inv_run: "start_run f c b (init_sys s0) acts s \<Longrightarrow> shutdown_inv s"
  by (induction acts s rule: start_run.induct)
    (auto dest: shutdown_inv_step simp: shutdown_inv_def init_sys_def)

text \<open>A closed channel can be emptied by turns of its worker alone, and then the worker ends.\<close>

lemma performs_append:
  "performs f c b (as @ bs) s = do { s \<leftarrow> performs f c b as s; performs f c b bs s }"
  by (induction as arbitrary: s) (auto split: bind_split)

definition drains :: "('w \<Rightarrow> nat) \<Rightarrow> int set \<Rightarrow> 'w sys \<Rightarrow> 'w sys \<Rightarrow> bool" where
  "drains patience P s s' \<longleftrightarrow>
     phase s' = phase s \<and> patience (wld (shared s')) \<le> patience (wld (shared s))
     \<and> dom (workers s') = dom (workers s) \<and> (\<forall>p. p \<notin> P \<longrightarrow> workers s' p = workers s p)"

lemma drains_trans: "\<lbrakk>drains pt P s s'; drains pt Q s' s''\<rbrakk> \<Longrightarrow> drains pt (P \<union> Q) s s''"
  by (auto simp: drains_def)

context patient_consumer
begin

lemma turn_exists:
  assumes "workers s p = Some ch" "\<not> w_stopped (ch_worker ch)" "receive ev ch = Some ch'" "pt (shared s) < f"
  shows "\<exists>s' wk. perform f c b (Turn p ev) s = Some s' \<and> drains patience {p} s s'
    \<and> partitionWorker f c ev (ch_worker ch) (shared s) = Some (wk, shared s')
    \<and> workers s' p = Some (ch'\<lparr>ch_worker := wk\<rparr>)"
proof -
  from partitionWorker_total [OF assms(4), of ev "ch_worker ch"] obtain wk sh where
    t: "partitionWorker f c ev (ch_worker ch) (shared s) = Some (wk, sh)" "pt sh \<le> pt (shared s)"
    by (auto simp: total_def)
  with assms show ?thesis by (auto simp: worker_turn_def drains_def)
qed

lemma drain_worker:
  assumes "workers s p = Some ch" "ch_closed ch" "pt (shared s) < f"
  shows "\<exists>as s' ch'. performs f c b as s = Some s' \<and> drains patience {p} s s'
    \<and> workers s' p = Some ch' \<and> w_stopped (ch_worker ch')"
  using assms
proof (induction "length (ch_queue ch)" arbitrary: s ch)
  case 0
  show ?case
  proof (cases "w_stopped (ch_worker ch)")
    case True
    with 0 have "performs f c b [] s = Some s \<and> drains patience {p} s s \<and> workers s p = Some ch
      \<and> w_stopped (ch_worker ch)" by (simp add: drains_def)
    then show ?thesis by blast
  next
    case False
    from 0 have "receive ChanClosed ch = Some ch" by simp
    from turn_exists [OF 0(2) False this 0(4)] obtain s' wk where
      "perform f c b (Turn p ChanClosed) s = Some s'" "drains patience {p} s s'"
      "partitionWorker f c ChanClosed (ch_worker ch) (shared s) = Some (wk, shared s')"
      "workers s' p = Some (ch\<lparr>ch_worker := wk\<rparr>)" by blast
    moreover from this(3) False have "w_stopped wk" by (auto simp: partitionWorker_def)
    ultimately have "performs f c b [Turn p ChanClosed] s = Some s' \<and> drains patience {p} s s'
      \<and> workers s' p = Some (ch\<lparr>ch_worker := wk\<rparr>) \<and> w_stopped (ch_worker (ch\<lparr>ch_worker := wk\<rparr>))"
      by simp
    then show ?thesis by blast
  qed
next
  case (Suc n)
  show ?case
  proof (cases "w_stopped (ch_worker ch)")
    case True
    with Suc have "performs f c b [] s = Some s \<and> drains patience {p} s s \<and> workers s p = Some ch
      \<and> w_stopped (ch_worker ch)" by (simp add: drains_def)
    then show ?thesis by blast
  next
    case False
    from Suc(2) obtain m q where q: "ch_queue ch = m # q" by (cases "ch_queue ch") auto
    then have "receive (Recv m) ch = Some (ch\<lparr>ch_queue := q\<rparr>)" by simp
    from turn_exists [OF Suc(3) False this Suc(5)] obtain s1 wk where
      s1: "perform f c b (Turn p (Recv m)) s = Some s1" "drains patience {p} s s1"
      "workers s1 p = Some (ch\<lparr>ch_queue := q, ch_worker := wk\<rparr>)" by auto
    let ?ch = "ch\<lparr>ch_queue := q, ch_worker := wk\<rparr>"
    have "n = length (ch_queue ?ch)" "ch_closed ?ch" "pt (shared s1) < f"
      using Suc(2,4,5) q s1(2) by (auto simp: drains_def)
    from Suc(1) [OF this(1) s1(3) this(2,3)] obtain as s' ch' where
      "performs f c b as s1 = Some s'" "drains patience {p} s1 s'" "workers s' p = Some ch'"
      "w_stopped (ch_worker ch')" by blast
    with s1(1) drains_trans [OF s1(2)] have "performs f c b (Turn p (Recv m) # as) s = Some s'
      \<and> drains patience {p} s s' \<and> workers s' p = Some ch' \<and> w_stopped (ch_worker ch')" by fastforce
    then show ?thesis by blast
  qed
qed

lemma drain_workers:
  assumes "finite P" "P \<subseteq> dom (workers s)" "\<forall>p ch. workers s p = Some ch \<longrightarrow> ch_closed ch"
    and "pt (shared s) < f"
  shows "\<exists>as s'. performs f c b as s = Some s' \<and> drains patience P s s'
    \<and> (\<forall>p \<in> P. \<forall>ch. workers s' p = Some ch \<longrightarrow> w_stopped (ch_worker ch))"
  using assms
proof (induction P rule: finite_induct)
  case empty
  have "performs f c b [] s = Some s \<and> drains patience {} s s" by (simp add: drains_def)
  then show ?case by blast
next
  case (insert p P)
  from insert obtain as s1 where a: "performs f c b as s = Some s1" "drains patience P s s1"
    "\<forall>p \<in> P. \<forall>ch. workers s1 p = Some ch \<longrightarrow> w_stopped (ch_worker ch)" by blast
  from insert(2,4) a(2) obtain ch where ch: "workers s1 p = Some ch" "workers s p = Some ch"
    by (auto simp: drains_def)
  from drain_worker [OF ch(1)] insert(5,6) ch(2) a(2) obtain bs s' ch' where
    b: "performs f c b bs s1 = Some s'" "drains patience {p} s1 s'" "workers s' p = Some ch'"
    "w_stopped (ch_worker ch')" unfolding drains_def by (meson order.strict_trans1)
  have "performs f c b (as @ bs) s = Some s'" using a(1) b(1) by (simp add: performs_append)
  moreover have "drains patience (insert p P) s s'" using drains_trans [OF a(2) b(2)] by simp
  moreover have "\<forall>q \<in> insert p P. \<forall>ch. workers s' q = Some ch \<longrightarrow> w_stopped (ch_worker ch)"
    using a(3) b(2-4) insert(2) by (auto simp: drains_def)
  ultimately show ?case by blast
qed

lemma drain_returns:
  assumes run: "start_run f c b (init_sys s0) acts s" and d: "phase s = Draining" and p: "pt (shared s) < f"
  shows "\<exists>as s'. start_run f c b (init_sys s0) (acts @ as @ [Drained]) s' \<and> phase s' = Returned
    \<and> all_stopped s'"
proof -
  from shutdown_inv_run [OF run] d have "finite (dom (workers s))"
    "\<forall>p ch. workers s p = Some ch \<longrightarrow> ch_closed ch" by (auto simp: shutdown_inv_def)
  from drain_workers [OF this(1) order_refl this(2) p] obtain as s1 where
    a: "performs f c b as s = Some s1" "drains patience (dom (workers s)) s s1"
    "\<forall>p \<in> dom (workers s). \<forall>ch. workers s1 p = Some ch \<longrightarrow> w_stopped (ch_worker ch)" by blast
  from a(2,3) have s: "all_stopped s1" by (fastforce simp: all_stopped_def drains_def ran_def)
  have "perform f c b Drained s1 = Some (close_all c b s1)"
    using a(2) d s by (simp add: drains_def)
  with run a(1) have "start_run f c b (init_sys s0) (acts @ as @ [Drained]) (close_all c b s1)"
    by (simp add: performs_append performs_run [symmetric])
  moreover have "all_stopped (close_all c b s1)"
    using s by (simp add: all_stopped_def close_all_def Let_def)
  ultimately show ?thesis using close_views(4) by blast
qed

end

text \<open>
  C9: the shutdown comes to its end. From every state of \<open>Start\<close> whose loop is left, with a
  broker that can fail only so many more times, the workers can be run until all of them have
  returned, so that \<open>Wait\<close> returns, the endpoints are closed and \<open>Start\<close> returns, without the
  help of the drain timeout.
\<close>

theorem shutdown_completes:
  assumes "patient_consumer (normalized c) patience" and "Start f c b acts s0 s"
    and "phase s = Draining" and "patience (wld (shared s)) < f"
  shows "\<exists>as s'. Start f c b (acts @ as @ [Drained]) s0 s' \<and> phase s' = Returned \<and> all_stopped s'"
  using patient_consumer.drain_returns [OF assms(1) assms(2) [unfolded Start_run] assms(3,4)]
  unfolding Start_run .

lemma sample_shutdown:
  "\<exists>s. Start 1 (sample_consumer True) world_endpoints
      [Fetched (good_msg 1), Sent, Signal, FetchFailed (Sentinel CtxCanceled)] sample_start s
    \<and> phase s = Draining \<and> world_patience (wld (shared s)) < 1 \<and> queue_of s 0 = [good_msg 1]"
  unfolding Start_run sample_normalized performs_run [symmetric]
  by (simp add: sample_start_def dispatch_defs run_defs consumer_defs world_defs fetch_error_def
      world_patience_def queue_of_def close_channels_def)

theorem shutdown_completes_witness:
  "\<exists>as s' :: refdb world sys. phase s' = Returned \<and> all_stopped s'
    \<and> Start 1 (sample_consumer True) world_endpoints
        ([Fetched (good_msg 1), Sent, Signal, FetchFailed (Sentinel CtxCanceled)] @ as @ [Drained])
        sample_start s'"
proof -
  obtain s where s: "Start 1 (sample_consumer True) world_endpoints
      [Fetched (good_msg 1), Sent, Signal, FetchFailed (Sentinel CtxCanceled)] sample_start s"
    "phase s = Draining" "world_patience (wld (shared s)) < 1" using sample_shutdown by blast
  from shutdown_completes [where patience = world_patience, OF _ s] sample_patient [of True] show ?thesis by auto
qed

definition drain_actions :: "action list" where
  "drain_actions = [Fetched (good_msg 1), Sent, Turn 0 (Recv (good_msg 1)), Signal, FlushLast,
     FetchFailed (Sentinel CtxCanceled), Turn 0 Tick, Turn 0 ChanClosed, Drained]"

lemma close_single: "close_channels [p \<mapsto> ch] = [p \<mapsto> ch\<lparr>ch_closed := True\<rparr>]"
  by (rule ext) (simp add: close_channels_def)

text \<open>
  C40: the metrics of the drain are lost. The flusher flushes for the last time when the context
  is cancelled and ends, while the workers go on with what is in their channels: there is a run
  of \<open>Start\<close> that returns after an orderly drain with calls on the sink that no flush followed.
\<close>

theorem drain_metrics_lost:
  "\<exists>s. Start 5 (sample_consumer True) world_endpoints drain_actions sample_start s
    \<and> phase s = Returned \<and> all_stopped s \<and> flusher_done s
    \<and> list_all (\<lambda>n. n < length (mcalls (shared s))) (flushes s)"
  unfolding Start_run sample_normalized performs_run [symmetric]
  by (simp add: drain_actions_def sample_start_def dispatch_defs run_defs consumer_defs world_defs
      fetch_error_def close_single all_stopped_def)

end
