(* ===== verification/Fatal.thy ===== *)
theory Fatal
  imports Fleet
begin

text \<open>
  The error that \<open>Start\<close> returns: recorded once, only when the dead letter of one of the messages
  at hand fails for good, and never replaced.
\<close>

text \<open>The error for a message whose dead letter fails with an error that a retry cannot cure.\<close>

definition dlq_fatal :: "'w Consumer \<Rightarrow> kmsg \<Rightarrow> goerr \<Rightarrow> bool" where
  "dlq_fatal c m e \<longleftrightarrow> (\<exists>reason s cause. snd (routeToDLQ c m reason s) = Some cause
     \<and> errors_As_nonRetryable cause
     \<and> e = Wrapped (''fatal DLQ failure at offset '' @ Itoa (k_offset m) @ '': '') cause)"

definition fatal_step :: "'w Consumer \<Rightarrow> kmsg set \<Rightarrow> 'w cstate \<Rightarrow> 'w cstate \<Rightarrow> bool" where
  "fatal_step c M s s' \<longleftrightarrow> fatal s' = fatal s
     \<or> fatal s = None \<and> (\<exists>m \<in> M. \<exists>e. fatal s' = Some e \<and> dlq_fatal c m e)"

lemma fatal_refl [simp]: "fatal_step c M s s"
  by (simp add: fatal_step_def)

lemma fatal_mono: "\<lbrakk>fatal_step c M s s'; M \<subseteq> N\<rbrakk> \<Longrightarrow> fatal_step c N s s'"
  by (auto simp: fatal_step_def)

lemma fatal_same: "fatal s' = fatal s \<Longrightarrow> fatal_step c M s s'"
  by (simp add: fatal_step_def)

text \<open>Most operations leave it alone.\<close>

lemma fatal_emit [simp]:
  "fatal (emit m s) = fatal s" "fatal (add_inflight n s) = fatal s" "fatal (show_inflight s) = fatal s"
  by (simp_all add: consumer_defs)

lemma fatal_now [simp]: "fatal (fst (c_now c s)) = fatal s"
  by (simp add: c_now_def case_prod_beta)

lemma fatal_observe [simp]:
  "fatal (observe_processing c ls t0 s) = fatal s" "fatal (set_last_success c s) = fatal s"
  "fatal (observeLag c msg s) = fatal s"
  by (simp_all add: observe_processing_def set_last_success_def observeLag_def Let_def case_prod_beta)

lemma fatal_sleep:
  "oall (\<lambda>s'. fatal s' = fatal s) (sleepBackoff c n s)" "oall (\<lambda>s'. fatal s' = fatal s) (pauseWithJitter c s)"
  by (simp_all add: pauseWithJitter_def sleepBackoff_def Let_def case_prod_beta)

lemma fatal_route: "fatal (fst (routeToDLQ c msg e s)) = fatal s"
  by (auto simp: routeToDLQ_def Let_def c_now_def case_prod_beta split: option.split)

lemma fatal_commit: "fatal (fst (commit c msg s)) = fatal s"
  by (simp add: commit_def Let_def case_prod_beta split: option.split)

lemma fatal_attempts: "oall (\<lambda>(s', r). fatal s' = fatal s) (process_attempts c t n a s)"
proof (induction n arbitrary: a s)
  case (Suc n)
  then show ?case
    by (auto simp: Let_def case_prod_beta split: option.split
        intro!: oall_bind [OF fatal_sleep(1)] oall_mono [OF Suc.IH])
qed simp

lemma fatal_process: "oall (\<lambda>(s', r). fatal s' = fatal s) (processMessageWithRetries c msg s)"
  by (simp add: processMessageWithRetries_def fatal_attempts split: sum.split)

lemma fatal_trigger:
  assumes "errors_As_nonRetryable e" "fatal s = fatal s0" "snd (routeToDLQ c m reason s1) = Some e"
  shows "fatal_step c {m} s0
    (triggerFatal c (Wrapped (''fatal DLQ failure at offset '' @ Itoa (k_offset m) @ '': '') e) s)"
proof (cases "fatal s")
  case None
  from assms(1,3) have "dlq_fatal c m (Wrapped (''fatal DLQ failure at offset '' @ Itoa (k_offset m) @ '': '') e)"
    unfolding dlq_fatal_def by blast
  with None assms(2) show ?thesis by (simp add: fatal_step_def triggerFatal_def)
qed (use assms in \<open>simp add: fatal_step_def triggerFatal_def\<close>)

lemma fatal_step_cong: "\<lbrakk>fatal s1 = fatal s; fatal_step c M s1 s'\<rbrakk> \<Longrightarrow> fatal_step c M s s'"
  by (simp add: fatal_step_def)

lemma fatal_dlq_loop: "oall (\<lambda>(s', b). fatal_step c {msg} s s') (dlq_loop f c msg e s)"
proof (induction f arbitrary: s)
  case (Suc f)
  let ?s1 = "emit (IncCounter ''kafka_consumer_dlq_total'' [(''result'', ''error'')] 1)
    (fst (routeToDLQ c msg e s))"
  have s1: "fatal ?s1 = fatal s" by (simp add: fatal_route)
  have again: "oall (\<lambda>(s', b). fatal_step c {msg} s s') (do { s \<leftarrow> pauseWithJitter c ?s1; dlq_loop f c msg e s })"
    by (rule oall_bind [OF fatal_sleep(2)])
      (use s1 in \<open>auto intro!: oall_mono [OF Suc.IH] elim!: fatal_step_cong [rotated]\<close>)
  have trig: "\<lbrakk>errors_As_nonRetryable err; snd (routeToDLQ c msg e s) = Some err\<rbrakk>
      \<Longrightarrow> fatal_step c {msg} s (triggerFatal c
      (Wrapped (''fatal DLQ failure at offset '' @ Itoa (k_offset msg) @ '': '') err) ?s1)" for err
    by (rule fatal_trigger [OF _ s1])
  obtain s2 r where d: "routeToDLQ c msg e s = (s2, r)" by fastforce
  show ?case
  proof (cases r)
    case None
    with fatal_route [of c msg e s] d show ?thesis by (simp add: fatal_same)
  next
    case (Some err)
    show ?thesis
    proof (cases "errors_As_nonRetryable err")
      case True
      with d Some have "dlq_loop (Suc f) c msg e s = Some (triggerFatal c
          (Wrapped (''fatal DLQ failure at offset '' @ Itoa (k_offset msg) @ '': '') err) ?s1, False)"
        by (simp add: Let_def)
      with trig [OF True] d Some show ?thesis by simp
    next
      case False
      with d Some again s1 show ?thesis by (simp add: Let_def fatal_same)
    qed
  qed
qed simp

lemma fatal_commit_loop: "oall (\<lambda>s'. fatal s' = fatal s) (commit_loop f c msg s)"
proof (induction f arbitrary: s)
  case (Suc f)
  with fatal_commit [of c msg s] show ?case
    by (auto simp: Let_def case_prod_beta
        intro!: oall_bind [OF fatal_sleep(2)] oall_mono [OF Suc.IH])
qed simp

lemma fatal_bulk_commit: "oall (\<lambda>s'. fatal s' = fatal s) (bulk_commit_loop f c msgs s)"
proof (induction f arbitrary: s)
  case (Suc f)
  then show ?case
    by (auto simp: Let_def case_prod_beta
        intro!: oall_bind [OF fatal_sleep(2)] oall_mono [OF Suc.IH])
qed simp

lemma fatal_handle: "oall (fatal_step c {msg} s) (handleMessage f c msg s)"
proof -
  obtain s1 t0 where n: "c_now c (observeLag c msg s) = (s1, t0)" by (metis surj_pair)
  have s1: "fatal s1 = fatal s" using fatal_now [of c "observeLag c msg s"] n by simp
  have finish: "oall (fatal_step c {msg} s) (commit_loop f c msg s2)" if "fatal_step c {msg} s s2" for s2
    by (rule oall_mono [OF fatal_commit_loop]) (use that in \<open>simp add: fatal_step_def\<close>)
  have fail: "oall (fatal_step c {msg} s) (do {
      (s', routed) \<leftarrow> dlq_loop f c msg e s2;
      if routed then commit_loop f c msg (emit m s') else Some s' })" if "fatal s2 = fatal s" for e m s2
    by (rule oall_bind [OF fatal_dlq_loop])
      (use that in \<open>auto intro!: finish simp: fatal_step_def\<close>)
  show ?thesis
    unfolding handleMessage_def n Let_def prod.case
    by (rule oall_bind [OF fatal_process])
      (auto split: option.split intro!: fail finish simp: s1 fatal_same)
qed

lemma fatal_each: "oall (fatal_step c (set msgs) s) (handle_each f c msgs s)"
proof (induction msgs arbitrary: s)
  case (Cons m msgs)
  show ?case unfolding handle_each.simps
    by (rule oall_bind [OF fatal_handle]) (auto simp: fatal_step_def intro!: oall_mono [OF Cons.IH])
qed simp

lemma fatal_bulk_attempts: "oall (\<lambda>(s', r). fatal s' = fatal s) (bulk_attempts c ts n a e s)"
proof (induction n arbitrary: a e s)
  case (Suc n)
  then show ?case
    by (auto simp: Let_def case_prod_beta split: option.split
        intro!: oall_bind [OF fatal_sleep(1)] oall_mono [OF Suc.IH])
qed simp

lemma fatal_flush_body: "oall (fatal_step c (set msgs) s) (flush_body f c msgs ts s)"
proof -
  obtain s1 t0 where n: "c_now c s = (s1, t0)" by (metis surj_pair)
  have s1: "fatal s1 = fatal s" using fatal_now [of c s] n by simp
  show ?thesis
    unfolding flush_body_def n Let_def prod.case
    by (rule oall_bind [OF fatal_bulk_attempts])
      (auto simp: s1 fatal_step_def split: bulk_result.split option.split
        intro!: oall_bind [OF fatal_each] oall_mono [OF fatal_bulk_commit])
qed

text \<open>A turn of a worker is about the messages of its batch and the one it receives.\<close>

lemma fatal_flush:
  "oall (\<lambda>(wk', s'). fatal_step c (set (batchMsgs wk)) s s' \<and> set (batchMsgs wk') \<subseteq> set (batchMsgs wk))
     (flush f c wk s)"
  by (auto simp: flush_def flushBatch_def Let_def fatal_step_def
      intro!: oall_bind [OF fatal_flush_body] oall_bind [where P = "fatal_step c (set (batchMsgs wk)) s"])

lemma fatal_recv:
  "oall (\<lambda>(wk', s'). fatal_step c (set (batchMsgs wk) \<union> {m}) s s'
       \<and> set (batchMsgs wk') \<subseteq> set (batchMsgs wk) \<union> {m}) (worker_recv f c m wk s)"
  (is "oall ?P _")
proof (cases "parseAndValidateMsg m")
  case (Inl e)
  then show ?thesis
    by (auto simp: worker_recv_def fatal_step_def intro!: oall_bind [OF fatal_flush] oall_bind [OF fatal_handle])
next
  case (Inr t)
  have "oall ?P (flush f c (wk\<lparr>batchMsgs := batchMsgs wk @ [m], batchDomains := batchDomains wk @ [t]\<rparr>) s)"
    by (rule oall_mono [OF fatal_flush]) auto
  with Inr show ?thesis by (auto simp: worker_recv_def Let_def)
qed

lemma fatal_worker:
  "oall (\<lambda>(wk', s'). fatal_step c (set (batchMsgs wk) \<union> set (received [ev])) s s'
       \<and> set (batchMsgs wk') \<subseteq> set (batchMsgs wk) \<union> set (received [ev])) (partitionWorker f c ev wk s)"
  using fatal_recv [of c wk _ s f]
  by (cases ev) (auto simp: partitionWorker_def intro!: oall_mono [OF fatal_flush])

subsection \<open>The result of Start\<close>

text \<open>Only a turn of a worker can record it.\<close>

lemma fatal_idle:
  assumes "start_step f c b a s s'" "\<And>p ev. a \<noteq> Turn p ev"
  shows "fatal (shared s') = fatal (shared s) \<and> (result s' = result s \<or> result s' = fatal (shared s'))"
  using assms
proof (cases rule: start_step.cases)
  case (fetch_failed w e)
  show ?thesis
  proof (cases "errors_Is e CtxCanceled")
    case True
    with fetch_failed(4) show ?thesis by (auto simp: fetch_error_def leave_loop_def set_world_def)
  next
    case False
    with fetch_failed(4) show ?thesis
      by (auto simp: fetch_error_def bind_eq_Some_conv set_world_def dest!: oallD [OF fatal_sleep(2)])
  qed
next
  case (send m)
  then show ?thesis by (auto simp: enqueue_def split: option.splits if_splits)
qed (auto simp: dispatch_message_def set_world_def leave_loop_def flush_metrics_def close_all_def Let_def)

lemma fatal_turn:
  assumes "worker_turn f c p ev s = Some s'"
  shows "fatal_step c (set (batchMsgs (worker_of s p)) \<union> set (received [ev])) (shared s) (shared s')"
    and "set (batchMsgs (worker_of s' p)) \<subseteq> set (batchMsgs (worker_of s p)) \<union> set (received [ev])"
    and "result s' = result s"
  using worker_turn_views(1) [OF assms] fatal_worker [of c "worker_of s p" ev "shared s" f] assms
  by (auto simp: oall_def worker_turn_def bind_eq_Some_conv split: if_splits)

text \<open>The batches hold received messages, which were fetched.\<close>

lemma batch_taken:
  assumes "start_run f c b (init_sys s0) acts s"
  shows "set (batchMsgs (worker_of s p)) \<subseteq> set (taken p acts)"
  using assms
proof (induction acts s rule: start_run.induct)
  case run_nil
  then show ?case by (simp add: new_worker_def)
next
  case (run_snoc acts s a s')
  show ?case
  proof (cases "\<exists>ev. a = Turn p ev")
    case True
    then obtain ev where a: "a = Turn p ev" by blast
    with run_snoc.hyps(2) have "worker_turn f c p ev s = Some s'" by blast
    from fatal_turn(2) [OF this] run_snoc.IH show ?thesis by (auto simp: a)
  next
    case False
    have "worker_of s' p = worker_of s p"
    proof (cases "\<exists>q ev. a = Turn q ev")
      case True
      then obtain q ev where a: "a = Turn q ev" by blast
      with run_snoc.hyps(2) have "worker_turn f c q ev s = Some s'" by blast
      from worker_turn_views(3) [OF this, of p] False a show ?thesis by blast
    qed (use worker_of_step [OF run_snoc.hyps(2)] in blast)
    with run_snoc.IH show ?thesis by auto
  qed
qed

lemma turn_fetched:
  assumes "start_run f c b (init_sys s0) acts s" "worker_turn f c p ev s = Some s'"
  shows "set (batchMsgs (worker_of s p)) \<union> set (received [ev]) \<subseteq> set (fetched p acts)"
proof -
  have "queue_inv acts s" using queue_inv_run [OF assms(1) queue_inv_init] .
  then have "set (taken p acts) \<union> set (queue_of s p) \<subseteq> set (fetched p acts)" by (auto simp: queue_inv_def)
  with batch_taken [OF assms(1), of p] worker_turn_views(2) [OF assms(2)] show ?thesis by auto
qed

text \<open>
  The history of the error: the turn that recorded it, the message it is about, and the run
  after it, through which it stays.
\<close>

definition fatal_origin ::
  "nat \<Rightarrow> 'w Consumer \<Rightarrow> 'w endpoints \<Rightarrow> 'w cstate \<Rightarrow> action list \<Rightarrow> goerr \<Rightarrow> bool" where
  "fatal_origin f c b s0 acts e \<longleftrightarrow>
     (\<exists>before p ev after s1 s2 m. acts = before @ Turn p ev # after
        \<and> start_run f c b (init_sys s0) before s1 \<and> fatal (shared s1) = None
        \<and> worker_turn f c p ev s1 = Some s2 \<and> fatal (shared s2) = Some e
        \<and> m \<in> set (fetched p before) \<and> dlq_fatal c m e)"

lemma origin_later: "fatal_origin f c b s0 acts e \<Longrightarrow> fatal_origin f c b s0 (acts @ [a]) e"
  unfolding fatal_origin_def by (metis append_Cons append_assoc)

lemma fatal_start_run:
  assumes "start_run f c b (init_sys s0) acts s" "fatal s0 = None"
  shows "(\<forall>e. fatal (shared s) = Some e \<longrightarrow> fatal_origin f c b s0 acts e)
    \<and> (\<forall>e. result s = Some e \<longrightarrow> fatal (shared s) = Some e)"
  using assms
proof (induction acts s rule: start_run.induct)
  case run_nil
  then show ?case by (simp add: init_sys_def)
next
  case (run_snoc acts s a s')
  note IH = run_snoc.IH [OF run_snoc.prems]
  show ?case
  proof (cases "\<exists>p ev. a = Turn p ev")
    case True
    then obtain p ev where a: "a = Turn p ev" by blast
    with run_snoc.hyps(2) have t: "worker_turn f c p ev s = Some s'" by blast
    show ?thesis
    proof (cases "fatal (shared s') = fatal (shared s)")
      case True
      with IH fatal_turn(3) [OF t] origin_later show ?thesis by metis
    next
      case False
      with fatal_turn(1) [OF t] turn_fetched [OF run_snoc.hyps(1) t]
      obtain m e where m: "fatal (shared s) = None" "m \<in> set (fetched p acts)"
        "fatal (shared s') = Some e" "dlq_fatal c m e" unfolding fatal_step_def by blast
      then have "fatal_origin f c b s0 (acts @ [a]) e"
        unfolding fatal_origin_def a using run_snoc.hyps(1) t by blast
      with m IH fatal_turn(3) [OF t] show ?thesis by auto
    qed
  next
    case False
    with fatal_idle [OF run_snoc.hyps(2)] IH origin_later show ?thesis by metis
  qed
qed


definition fatal_actions :: "action list" where
  "fatal_actions = [Fetched (good_msg 1), Sent, Fetched (bad_msg 2), Sent, Turn 0 (Recv (good_msg 1)),
     Turn 0 (Recv (bad_msg 2)), FetchFailed (Sentinel CtxCanceled), Turn 0 ChanClosed, Drained]"

lemma fatal_run:
  "\<exists>s e. Start 5 (sample_consumer False) world_endpoints fatal_actions sample_start s
    \<and> result s = Some e \<and> phase s = Returned \<and> w_commits (wld (shared s)) = [good_msg 1]"
  unfolding Start_run sample_normalized performs_run [symmetric]
  by (simp add: fatal_actions_def sample_start_def dispatch_defs run_defs consumer_defs world_defs
      fetch_error_def close_single all_stopped_def)


end
