(* ===== verification/Civil.thy ===== *)
theory Civil
  imports Timeutil
begin

text \<open>
  The other half of package \<open>time\<close> that the API uses: the civil date of an instant and
  \<open>Time.MarshalJSON\<close> (strict RFC 3339 with nanoseconds).
\<close>

lemma div_bounds:
  fixes a k n :: int
  assumes "0 \<le> a" "a < n * k" "0 < k"
  shows "0 \<le> a div k" "a div k < n"
proof -
  show "0 \<le> a div k" using assms by (simp add: pos_imp_zdiv_nonneg_iff)
  have "a div k * k \<le> a" using div_mult_mod_eq [of a k] assms(3) pos_mod_sign [of k a] by linarith
  then have "a div k * k < n * k" using assms(2) by linarith
  then show "a div k < n" using assms(3) by simp
qed

text \<open>Seconds of a day, and an instant of them in hours, minutes and seconds.\<close>

lemma hms:
  fixes s :: int
  assumes "0 \<le> s" "s < 86400"
  shows "0 \<le> s div 3600" "s div 3600 < 24" "s div 3600 * 3600 + s div 60 mod 60 * 60 + s mod 60 = s"
proof -
  show "0 \<le> s div 3600" "s div 3600 < 24" using div_bounds [of s 24 3600] assms by simp_all
  have "s div 3600 = s div 60 div 60" by (simp add: zdiv_zmult2_eq [symmetric])
  then show "s div 3600 * 3600 + s div 60 mod 60 * 60 + s mod 60 = s"
    using div_mult_mod_eq [of "s div 60" 60] div_mult_mod_eq [of s 60] by linarith
qed

subsection \<open>Date of a day number\<close>

definition days_before_year :: "int \<Rightarrow> int" where
  "days_before_year y = 365 * y + y div 4 - y div 100 + y div 400"

text \<open>Cycles of 400, 100, 4 and 1 years, counted from the first day of year 1.\<close>

definition split_days :: "int \<Rightarrow> int \<times> int" where
  "split_days z =
     (let n400 = z div 146097; d = z mod 146097;
          n100 = min 3 (d div 36524); d = d - n100 * 36524;
          n4 = d div 1461; d = d mod 1461;
          n1 = min 3 (d div 365)
      in (400 * n400 + 100 * n100 + 4 * n4 + n1, d - n1 * 365))"

text \<open>Month and day of a day of the year.\<close>

definition month_starts :: "bool \<Rightarrow> int \<Rightarrow> int" where
  "month_starts leap m = days_before m + (if 2 < m \<and> leap then 1 else 0)"

definition month_day :: "bool \<Rightarrow> int \<Rightarrow> int \<times> int" where
  "month_day leap yday =
     (let m = (if yday < month_starts leap 2 then 1 else if yday < month_starts leap 3 then 2
               else if yday < month_starts leap 4 then 3 else if yday < month_starts leap 5 then 4
               else if yday < month_starts leap 6 then 5 else if yday < month_starts leap 7 then 6
               else if yday < month_starts leap 8 then 7 else if yday < month_starts leap 9 then 8
               else if yday < month_starts leap 10 then 9 else if yday < month_starts leap 11 then 10
               else if yday < month_starts leap 12 then 11 else 12)
      in (m, yday - month_starts leap m + 1))"

definition civil_of_days :: "int \<Rightarrow> int \<times> int \<times> int" where
  "civil_of_days z =
     (let (y, yday) = split_days (z + 719162); (m, d) = month_day (is_leap (y + 1)) yday
      in (y + 1, m, d))"

lemma leap_cycle:
  fixes a b c e :: int
  assumes "0 \<le> b" "b \<le> 3" "0 \<le> c" "c \<le> 24" "0 \<le> e" "e \<le> 3"
  shows "is_leap (400 * a + 100 * b + 4 * c + e + 1) \<longleftrightarrow> e = 3 \<and> (c < 24 \<or> b = 3)"
proof -
  let ?y = "400 * a + 100 * b + 4 * c + e + 1"
  have m4: "?y mod 4 = (if e = 3 then 0 else e + 1)"
    by (rule int_mod_pos_eq [of _ 4 "100 * a + 25 * b + c + of_bool (e = 3)"]) (use assms in auto)
  have m100: "?y mod 100 = (if c = 24 then 0 else 4 * c + 4)" if "e = 3"
    by (rule int_mod_pos_eq [of _ 100 "4 * a + b + of_bool (c = 24)"]) (use assms that in auto)
  have m400: "?y mod 400 = (if b = 3 then 0 else 100 * b + 100)" if "e = 3" "c = 24"
    by (rule int_mod_pos_eq [of _ 400 "a + of_bool (b = 3)"]) (use assms that in auto)
  show ?thesis
  proof (cases "e = 3")
    case True
    then show ?thesis using m4 m100 m400 assms unfolding is_leap_def by (cases "c = 24") auto
  next
    case False
    then show ?thesis using m4 assms unfolding is_leap_def by auto
  qed
qed

lemma year_cycle:
  fixes a b c e :: int
  assumes "0 \<le> b" "b \<le> 3" "0 \<le> c" "c \<le> 24" "0 \<le> e" "e \<le> 3"
  shows "days_before_year (400 * a + 100 * b + 4 * c + e) = 146097 * a + 36524 * b + 1461 * c + 365 * e"
proof -
  let ?y = "400 * a + 100 * b + 4 * c + e"
  have "?y div 4 = 100 * a + 25 * b + c"
    by (rule int_div_pos_eq [of _ 4 _ e]) (use assms in auto)
  moreover have "?y div 100 = 4 * a + b"
    by (rule int_div_pos_eq [of _ 100 _ "4 * c + e"]) (use assms in auto)
  moreover have "?y div 400 = a"
    by (rule int_div_pos_eq [of _ 400 _ "100 * b + 4 * c + e"]) (use assms in auto)
  ultimately show ?thesis by (simp add: days_before_year_def)
qed

text \<open>A quotient capped at 3, when a fourth one is at most the length of the leap day short.\<close>

lemma capped_div:
  fixes d n k :: int
  assumes "0 \<le> d" "d < 4 * n + k" "0 < n" "0 \<le> k" "k \<le> n" "q = min 3 (d div n)"
  shows "0 \<le> q" "q \<le> 3" "0 \<le> d - q * n" "d - q * n < n + k" "q < 3 \<longrightarrow> d - q * n < n"
proof -
  have d: "d = n * (d div n) + d mod n" "0 \<le> d mod n" "d mod n < n" "0 \<le> d div n"
    using assms by (simp_all add: pos_imp_zdiv_nonneg_iff)
  show "0 \<le> q" "q \<le> 3" using assms(6) d(4) by auto
  show "0 \<le> d - q * n" "d - q * n < n + k" "q < 3 \<longrightarrow> d - q * n < n"
  proof -
    have "q = d div n \<or> q = 3 \<and> 3 < d div n" using assms(6) by auto
    then have "0 \<le> d - q * n \<and> d - q * n < n + k \<and> (q < 3 \<longrightarrow> d - q * n < n)"
    proof
      assume "q = d div n"
      then have "d - q * n = d mod n" by (simp add: minus_div_mult_eq_mod)
      then show ?thesis using d(2,3) assms(4) by simp
    next
      assume q: "q = 3 \<and> 3 < d div n"
      then have "n * 3 \<le> n * (d div n)" using assms(3) by simp
      then have "3 * n \<le> d" using d(1,2) by linarith
      then show ?thesis using q assms(2) by simp
    qed
    then show "0 \<le> d - q * n" "d - q * n < n + k" "q < 3 \<longrightarrow> d - q * n < n" by auto
  qed
qed

lemma split_days:
  assumes "split_days z = (y, yday)"
  shows "days_before_year y + yday = z" "0 \<le> yday" "yday < (if is_leap (y + 1) then 366 else 365)"
proof -
  define a where "a = z div 146097"
  define d1 where "d1 = z mod 146097"
  define b where "b = min 3 (d1 div 36524)"
  define d2 where "d2 = d1 - b * 36524"
  define c where "c = d2 div 1461"
  define d3 where "d3 = d2 mod 1461"
  define e where "e = min 3 (d3 div 365)"
  note yd = assms [unfolded split_days_def Let_def, folded a_def d1_def, folded b_def, folded d2_def,
      folded c_def d3_def, folded e_def]
  have y: "y = 400 * a + 100 * b + 4 * c + e" and yday: "yday = d3 - e * 365"
    using yd by simp_all
  have z: "z = 146097 * a + d1" unfolding a_def d1_def by (rule mult_div_mod_eq [symmetric])
  have d1: "0 \<le> d1" "d1 < 146097" unfolding d1_def by simp_all
  have h1: "d1 < 4 * 36524 + 1" using d1(2) by linarith
  note cb = capped_div [OF d1(1) h1 _ _ _ b_def, folded d2_def, simplified]
  have d3: "0 \<le> d3" "d3 < 1461" unfolding d3_def by simp_all
  have d23: "d2 = 1461 * c + d3" unfolding d3_def c_def by (rule mult_div_mod_eq [symmetric])
  have c: "0 \<le> c" "c \<le> 24" using cb(3,4) d3 d23 by linarith+
  have h3: "d3 < 4 * 365 + 1" using d3(2) by linarith
  note ce = capped_div [OF d3(1) h3 _ _ _ e_def, folded yday, simplified]
  show "days_before_year y + yday = z"
    unfolding y year_cycle [OF cb(1,2) c ce(1,2)] using z d2_def d23 yday by linarith
  show "0 \<le> yday" using ce(3) yday by linarith
  have yd: "yday < 366" "e < 3 \<longrightarrow> yday < 365" using ce(4,5) yday by linarith+
  have "yday < 365" if "\<not> (e = 3 \<and> (c < 24 \<or> b = 3))"
  proof (cases "e = 3")
    case True
    with that have "c = 24" "b < 3" using cb(2) c by linarith+
    with cb(5) d23 have "d3 < 1460" by linarith
    with yday True show ?thesis by linarith
  next
    case False
    with ce(2) yd(2) show ?thesis by linarith
  qed
  then show "yday < (if is_leap (y + 1) then 366 else 365)"
    unfolding y leap_cycle [OF cb(1,2) c ce(1,2)] using yd(1) by simp
qed

lemma month_table:
  "month_starts l 1 = 0" "month_starts l 2 = 31" "month_starts l 3 = 59 + of_bool l"
  "month_starts l 4 = 90 + of_bool l" "month_starts l 5 = 120 + of_bool l"
  "month_starts l 6 = 151 + of_bool l" "month_starts l 7 = 181 + of_bool l"
  "month_starts l 8 = 212 + of_bool l" "month_starts l 9 = 243 + of_bool l"
  "month_starts l 10 = 273 + of_bool l" "month_starts l 11 = 304 + of_bool l"
  "month_starts l 12 = 334 + of_bool l"
  by (simp_all add: month_starts_def days_before_def)

lemma month_day:
  assumes "month_day (is_leap y) yday = (m, d)" "0 \<le> yday" "yday < (if is_leap y then 366 else 365)"
  shows "1 \<le> m" "m \<le> 12" "1 \<le> d" "d \<le> days_in m y" "month_starts (is_leap y) m + (d - 1) = yday"
  using assms
  by (auto simp: month_day_def Let_def month_table days_in_def month_days_def split: if_splits)

lemma civil_of_days:
  assumes "civil_of_days z = (y, m, d)"
  shows "epoch_days y m d = z" "1 \<le> m" "m \<le> 12" "1 \<le> d" "d \<le> days_in m y"
proof -
  obtain y0 yday where s: "split_days (z + 719162) = (y0, yday)" by fastforce
  with assms have y: "y = y0 + 1" and md: "month_day (is_leap y) yday = (m, d)"
    by (auto simp: civil_of_days_def split: prod.splits)
  note s' = split_days [OF s] month_day [OF md]
  show "1 \<le> m" "m \<le> 12" "1 \<le> d" "d \<le> days_in m y" using s' y by auto
  have "epoch_days y m d = days_before_year (y - 1) + (month_starts (is_leap y) m + (d - 1)) - 719162"
    by (simp add: epoch_days_def days_before_year_def month_starts_def)
  also have "\<dots> = z" using s' y by auto
  finally show "epoch_days y m d = z" .
qed

subsection \<open>MarshalJSON\<close>

text \<open>The local date and time of day of a time.\<close>

definition local_sec :: "gotime \<Rightarrow> int" where
  "local_sec t = unix_sec t + zone_off t"

definition year_of :: "gotime \<Rightarrow> int" where
  "year_of t = fst (civil_of_days (local_sec t div 86400))"

text \<open>The fraction: nine digits without the trailing zeros.\<close>

definition digits9 :: "int \<Rightarrow> string" where
  "digits9 n = digit_char (n div 100000000) # digits4 (n div 10000 mod 10000) @ digits4 (n mod 10000)"

definition trim_zeros :: "string \<Rightarrow> string" where
  "trim_zeros s = rev (dropWhile (\<lambda>c. c = CHR ''0'') (rev s))"

text \<open>The offset in minutes, truncated towards zero.\<close>

definition zone_minutes :: "gotime \<Rightarrow> (bool \<times> int \<times> int) option" where
  "zone_minutes t =
     (if zone_off t = 0 then None
      else let n = \<bar>zone_off t\<bar> div 60 in Some (zone_off t < 0 \<and> n \<noteq> 0, n div 60, n mod 60))"

definition format_RFC3339Nano :: "gotime \<Rightarrow> string" where
  "format_RFC3339Nano t =
     (let (y, m, d) = civil_of_days (local_sec t div 86400); sod = local_sec t mod 86400
      in render_rfc3339 y m d (sod div 3600) (sod div 60 mod 60) (sod mod 60)
           (trim_zeros (digits9 (nanos t))) (zone_minutes t))"

text \<open>
  \<open>appendStrictRFC3339\<close> refuses a year that does not have four digits and an offset of a day or
  more; the text is quoted.
\<close>

definition time_MarshalJSON :: "gotime \<Rightarrow> goerr + string" where
  "time_MarshalJSON t =
     (if \<not> (0 \<le> year_of t \<and> year_of t \<le> 9999) then
        Inl (Opaque ''Time.MarshalJSON: year outside of range [0,9999]'')
      else if 24 \<le> \<bar>zone_off t\<bar> div 3600 then
        Inl (Opaque ''Time.MarshalJSON: timezone hour outside of range [0,23]'')
      else Inr (byte 34 # format_RFC3339Nano t @ [byte 34]))"

text \<open>A time whose text keeps all of it: whole minutes of offset.\<close>

definition printable_time :: "gotime \<Rightarrow> bool" where
  "printable_time t \<longleftrightarrow> 0 \<le> year_of t \<and> year_of t \<le> 9999 \<and> \<bar>zone_off t\<bar> < 86400
     \<and> 60 dvd zone_off t \<and> 0 \<le> nanos t \<and> nanos t < 1000000000"

lemma trim_zeros: "\<exists>n. s = trim_zeros s @ replicate n CHR ''0''"
proof -
  have "rev s = takeWhile (\<lambda>c. c = CHR ''0'') (rev s) @ dropWhile (\<lambda>c. c = CHR ''0'') (rev s)" by simp
  moreover have "takeWhile (\<lambda>c. c = CHR ''0'') xs = replicate (length (takeWhile (\<lambda>c. c = CHR ''0'') xs)) CHR ''0''"
    for xs by (induction xs) auto
  ultimately have "rev s = replicate (length (takeWhile (\<lambda>c. c = CHR ''0'') (rev s))) CHR ''0''
    @ dropWhile (\<lambda>c. c = CHR ''0'') (rev s)" by metis
  from arg_cong [OF this, of rev] have "s = trim_zeros s @ replicate (length (takeWhile (\<lambda>c. c = CHR ''0'') (rev s))) CHR ''0''"
    by (simp add: trim_zeros_def)
  then show ?thesis by blast
qed

lemma dec_zeros: "dec (s @ replicate n CHR ''0'') = dec s * 10 ^ n"
proof (induction n)
  case (Suc n)
  have "s @ replicate (Suc n) CHR ''0'' = (s @ replicate n CHR ''0'') @ [CHR ''0'']"
    by (simp add: replicate_append_same)
  then show ?case using Suc by (simp only: dec_snoc) (simp add: digit_val_def code_def)
qed (simp add: dec_def)

lemma digits9_parts:
  assumes "0 \<le> a" "a < 10" "0 \<le> b" "b < 10000" "0 \<le> c" "c < 10000"
  shows "length (digit_char a # digits4 b @ digits4 c) = 9"
    and "list_all is_digit (digit_char a # digits4 b @ digits4 c)"
    and "dec (digit_char a # digits4 b @ digits4 c) = a * 100000000 + (b * 10000 + c)"
proof -
  note d = digits4 [OF assms(3,4)] digits4 [OF assms(5,6)]
  show "length (digit_char a # digits4 b @ digits4 c) = 9" using d by simp
  show "list_all is_digit (digit_char a # digits4 b @ digits4 c)" using d assms by simp
  have "dec [digit_char a] = a" using assms(1,2) by (simp add: dec_def)
  then show "dec (digit_char a # digits4 b @ digits4 c) = a * 100000000 + (b * 10000 + c)"
    using dec_append [of "[digit_char a]" "digits4 b @ digits4 c"] dec_append [of "digits4 b" "digits4 c"] d
    by simp
qed

lemma digits9:
  assumes "0 \<le> n" "n < 1000000000"
  shows "length (digits9 n) = 9" "list_all is_digit (digits9 n)" "dec (digits9 n) = n"
proof -
  define a b c where "a = n div 100000000" and "b = n div 10000 mod 10000" and "c = n mod 10000"
  have "0 \<le> a" "a < 10" unfolding a_def using div_bounds [of n 10 100000000] assms by simp_all
  moreover have "0 \<le> b" "b < 10000" "0 \<le> c" "c < 10000" unfolding b_def c_def by simp_all
  ultimately have p: "length (digits9 n) = 9" "list_all is_digit (digits9 n)"
    "dec (digits9 n) = a * 100000000 + (b * 10000 + c)"
    unfolding digits9_def a_def [symmetric] b_def [symmetric] c_def [symmetric]
    by (rule digits9_parts)+
  show "length (digits9 n) = 9" "list_all is_digit (digits9 n)" by (rule p)+
  have "a = n div 10000 div 10000" unfolding a_def by (simp add: zdiv_zmult2_eq [symmetric])
  with p(3) show "dec (digits9 n) = n"
    using div_mult_mod_eq [of "n div 10000" 10000] div_mult_mod_eq [of n 10000]
    unfolding b_def c_def by linarith
qed

lemma parse_nanos_trim:
  assumes "0 \<le> n" "n < 1000000000"
  shows "parse_nanos (trim_zeros (digits9 n)) = n" "list_all is_digit (trim_zeros (digits9 n))"
proof -
  note d = digits9 [OF assms]
  obtain k where k: "digits9 n = trim_zeros (digits9 n) @ replicate k CHR ''0''" using trim_zeros by blast
  have "length (trim_zeros (digits9 n)) + k = 9" using d(1) arg_cong [OF k, of length] by simp
  then have "k = 9 - length (trim_zeros (digits9 n))" "length (trim_zeros (digits9 n)) \<le> 9" by simp_all
  then show "parse_nanos (trim_zeros (digits9 n)) = n"
    using d(3) arg_cong [OF k, of dec] by (simp add: parse_nanos_def Let_def dec_zeros)
  show "list_all is_digit (trim_zeros (digits9 n))"
    using d(2) by (subst (asm) k) simp
qed

lemma zone_minutes:
  assumes "\<bar>zone_off t\<bar> < 86400" "60 dvd zone_off t"
  shows "valid_zone (zone_minutes t)" "zone_seconds (zone_minutes t) = zone_off t"
proof -
  let ?n = "\<bar>zone_off t\<bar> div 60"
  have n: "\<bar>zone_off t\<bar> = ?n * 60" using assms(2) by (metis dvd_abs_iff dvd_div_mult_self)
  have n': "0 \<le> ?n" "?n < 1440" using div_bounds [of "\<bar>zone_off t\<bar>" 1440 60] assms(1) by simp_all
  have h: "0 \<le> ?n div 60" "?n div 60 < 24" "?n div 60 * 60 + ?n mod 60 = ?n"
    using div_bounds [of ?n 24 60] n' by simp_all
  have "?n mod 60 < 60" by simp
  then have "?n mod 60 \<le> 60" by linarith
  then show "valid_zone (zone_minutes t)" using h by (simp add: valid_zone_def zone_minutes_def Let_def)
  show "zone_seconds (zone_minutes t) = zone_off t"
  proof (cases "zone_off t = 0")
    case False
    then have "?n \<noteq> 0" using n by auto
    with False have "zone_seconds (zone_minutes t) = (if zone_off t < 0 then - (?n * 60) else ?n * 60)"
      using h(3) by (simp add: zone_seconds_def zone_minutes_def Let_def)
    also have "\<dots> = zone_off t" using n by (simp only: n [symmetric]) auto
    finally show ?thesis .
  qed (simp add: zone_seconds_def zone_minutes_def)
qed

text \<open>
  What is printed parses back to the same time, offset included.
\<close>

lemma Parse_format:
  assumes "printable_time t"
  shows "Parse (format_RFC3339Nano t) = Inr t"
proof -
  obtain y m d where c: "civil_of_days (local_sec t div 86400) = (y, m, d)" by (metis prod_cases3)
  define s where "s = local_sec t mod 86400"
  have s: "0 \<le> s" "s < 86400" unfolding s_def by simp_all
  define hh mi ss where "hh = s div 3600" and "mi = s div 60 mod 60" and "ss = s mod 60"
  have h: "0 \<le> hh" "hh < 24" "hh * 3600 + mi * 60 + ss = s"
    unfolding hh_def mi_def ss_def by (rule hms [OF s])+
  have h': "0 \<le> mi" "mi < 60" "0 \<le> ss" "ss < 60" unfolding mi_def ss_def by simp_all
  have y: "0 \<le> y" "y \<le> 9999" using assms c by (simp_all add: printable_time_def year_of_def)
  have v: "valid_civil y m d hh mi ss"
    using civil_of_days(2-5) [OF c] h(1,2) h' y by (simp add: valid_civil_def)
  have p: "0 \<le> nanos t" "nanos t < 1000000000" "\<bar>zone_off t\<bar> < 86400" "60 dvd zone_off t"
    using assms by (simp_all add: printable_time_def)
  note n = parse_nanos_trim [OF p(1,2)] and z = zone_minutes [OF p(3,4)]
  have "civil_sec y m d hh mi ss = local_sec t"
    using h(3) div_mult_mod_eq [of "local_sec t" 86400]
    unfolding civil_sec_def civil_of_days(1) [OF c] s_def by linarith
  then have u: "civil_sec y m d hh mi ss - zone_off t = unix_sec t" by (simp add: local_sec_def)
  have "format_RFC3339Nano t
      = render_rfc3339 y m d hh mi ss (trim_zeros (digits9 (nanos t))) (zone_minutes t)"
    unfolding format_RFC3339Nano_def c Let_def prod.case s_def [symmetric] hh_def mi_def ss_def ..
  with Parse_RFC3339 [OF v n(2) z(1)] n(1) z(2) u show ?thesis by simp
qed

end
