(* ===== verification/Http.thy ===== *)
theory Http
  imports Civil Dto Service
begin

text \<open>
  \<open>internal/transport/http\<close>: the query handler, its errors and metrics, the response DTO with its
  JSON text, and the router. Of the standard library: \<open>url.ParseQuery\<close>, \<open>json.Encoder\<close> on the
  response, \<open>http.Error\<close> and the parts of a \<open>ResponseWriter\<close> that a handler can see.
\<close>

subsection \<open>Query parameters\<close>

text \<open>\<open>url.QueryUnescape\<close>: \<open>None\<close> is a malformed percent escape.\<close>

fun QueryUnescape :: "string \<Rightarrow> string option" where
  "QueryUnescape [] = Some []"
| "QueryUnescape (c # cs) =
     (if c = CHR ''%'' then
        (case cs of
           a # b # r \<Rightarrow>
             (case (hex_val a, hex_val b) of
                (Some x, Some y) \<Rightarrow> map_option (\<lambda>s. byte (x * 16 + y) # s) (QueryUnescape r)
              | _ \<Rightarrow> None)
         | _ \<Rightarrow> None)
      else if c = CHR ''+'' then map_option (\<lambda>s. CHR '' '' # s) (QueryUnescape cs)
      else map_option (\<lambda>s. c # s) (QueryUnescape cs))"

text \<open>One \<open>key=value\<close> setting; malformed ones are dropped.\<close>

definition parse_setting :: "string \<Rightarrow> (string \<times> string) option" where
  "parse_setting s =
     (if s = [] \<or> CHR '';'' \<in> set s then None
      else let k = takeWhile (\<lambda>c. c \<noteq> CHR ''='') s; v = drop 1 (dropWhile (\<lambda>c. c \<noteq> CHR ''='') s) in
        (case (QueryUnescape k, QueryUnescape v) of
           (Some k, Some v) \<Rightarrow> Some (k, v)
         | _ \<Rightarrow> None))"

definition ParseQuery :: "string \<Rightarrow> (string \<times> string) list" where
  "ParseQuery raw = List.map_filter parse_setting (Split CHR ''&'' raw)"

text \<open>\<open>Values.Get\<close>: the first value of a key, or the empty string.\<close>

definition query_get :: "(string \<times> string) list \<Rightarrow> string \<Rightarrow> string" where
  "query_get vs k = (case map_of vs k of Some v \<Rightarrow> v | None \<Rightarrow> [])"

subsection \<open>Constants\<close>

text \<open>\<open>internal/transport/http/constants.go\<close>; the messages are below.\<close>

abbreviation MetricAPIRequestsTotal :: string where "MetricAPIRequestsTotal \<equiv> ''api_requests_total''"
abbreviation MetricAPIRequestDurationMs :: string where "MetricAPIRequestDurationMs \<equiv> ''api_request_duration_ms''"
abbreviation MimeApplicationJSON :: string where "MimeApplicationJSON \<equiv> ''application/json''"

subsection \<open>The response\<close>

record TransactionResponse =
  resp_UserID :: int64
  resp_TransactionType :: TransactionType
  resp_Amount :: int64
  resp_Timestamp :: gotime

definition NewTransactionResponse :: "transaction \<Rightarrow> TransactionResponse" where
  "NewTransactionResponse t =
     \<lparr>resp_UserID = UserID t, resp_TransactionType = Type t, resp_Amount = Amount t,
      resp_Timestamp = Timestamp t\<rparr>"

definition encode_response :: "TransactionResponse \<Rightarrow> goerr + string" where
  "encode_response r =
     (case time_MarshalJSON (resp_Timestamp r) of
        Inl e \<Rightarrow> Inl (Wrapped ''json: error calling MarshalJSON for type time.Time: '' e)
      | Inr ts \<Rightarrow>
          Inr (''{'' @ quoted ''user_id'' @ '':'' @ Itoa (sint (resp_UserID r)) @ '',''
            @ quoted ''transaction_type'' @ '':'' @ quoted (json_escape (resp_TransactionType r)) @ '',''
            @ quoted ''amount'' @ '':'' @ Itoa (sint (resp_Amount r)) @ '',''
            @ quoted ''timestamp'' @ '':'' @ ts @ ''}''))"

fun encode_all :: "TransactionResponse list \<Rightarrow> goerr + string list" where
  "encode_all [] = Inr []"
| "encode_all (r # rs) =
     (case encode_response r of
        Inl e \<Rightarrow> Inl e
      | Inr s \<Rightarrow> (case encode_all rs of Inl e \<Rightarrow> Inl e | Inr ss \<Rightarrow> Inr (s # ss)))"

definition encode_body :: "TransactionResponse list \<Rightarrow> goerr + string" where
  "encode_body rs =
     (case encode_all rs of
        Inl e \<Rightarrow> Inl e
      | Inr ss \<Rightarrow> Inr (''['' @ Join ss '','' @ '']'' @ [byte 10]))"

text \<open>
  What a client gets: the status (\<open>None\<close> until it is written), the content type, the body; \<open>rw_fail\<close>
  is the error of writing to a connection that is gone.
\<close>

record response =
  rw_status :: "int option"
  rw_type :: string
  rw_body :: string
  rw_fail :: "goerr option"

definition new_response :: "goerr option \<Rightarrow> response" where
  "new_response broken = \<lparr>rw_status = None, rw_type = [], rw_body = [], rw_fail = broken\<rparr>"

definition WriteHeader :: "int \<Rightarrow> response \<Rightarrow> response" where
  "WriteHeader st w = (if rw_status w = None then w\<lparr>rw_status := Some st\<rparr> else w)"

definition rw_Write :: "string \<Rightarrow> response \<Rightarrow> response \<times> goerr option" where
  "rw_Write s w =
     (let w = WriteHeader 200 w in
      case rw_fail w of
        None \<Rightarrow> (w\<lparr>rw_body := rw_body w @ s\<rparr>, None)
      | Some e \<Rightarrow> (w, Some e))"

definition http_Error :: "string \<Rightarrow> int \<Rightarrow> response \<Rightarrow> response" where
  "http_Error msg st w =
     fst (rw_Write (msg @ [byte 10]) (WriteHeader st (w\<lparr>rw_type := ''text/plain; charset=utf-8''\<rparr>)))"

text \<open>The status the client sees: a handler that wrote nothing is answered with 200.\<close>

definition status_of :: "response \<Rightarrow> int" where
  "status_of w = (case rw_status w of Some st \<Rightarrow> st | None \<Rightarrow> 200)"

subsection \<open>The handler\<close>

datatype sink_event = Call metric_call | FlushNow

record ('d, 'c) TransactionHandler =
  h_svc :: "('d, 'c) transactionService"
  h_metrics :: bool \<comment> \<open>a sink that is not nil\<close>
  h_now :: "'d \<Rightarrow> 'd \<times> gotime" \<comment> \<open>\<open>time.Now\<close>\<close>

text \<open>A nil sink is replaced by a new one.\<close>

definition NewTransactionHandlerWithMetrics ::
  "('d, 'c) transactionService \<Rightarrow> ('d \<Rightarrow> 'd \<times> gotime) \<Rightarrow> ('d, 'c) TransactionHandler" where
  "NewTransactionHandlerWithMetrics svc now = \<lparr>h_svc = svc, h_metrics = True, h_now = now\<rparr>"

definition NewTransactionHandler ::
  "('d, 'c) transactionService \<Rightarrow> ('d \<Rightarrow> 'd \<times> gotime) \<Rightarrow> ('d, 'c) TransactionHandler" where
  "NewTransactionHandler svc now = NewTransactionHandlerWithMetrics svc now"

definition MsgInvalidUserID :: string where "MsgInvalidUserID = ''invalid user_id''"
definition MsgFailedToGetTransactions :: string where
  "MsgFailedToGetTransactions = ''failed to get transactions''"
definition MsgInvalidTransactionTypeInReq :: string where
  "MsgInvalidTransactionTypeInReq = ''invalid transaction type''"

definition incRequestCounter :: "('d, 'c) TransactionHandler \<Rightarrow> int \<Rightarrow> string \<Rightarrow> sink_event list" where
  "incRequestCounter h st reason =
     (if \<not> h_metrics h then []
      else [Call (IncCounter MetricAPIRequestsTotal
              ([(''endpoint'', ''/transactions''), (''method'', ''GET''), (''status'', Itoa st)]
               @ (if reason \<noteq> [] then [(''reason'', reason)] else [])) 1)])"

definition observeDuration ::
  "('d, 'c) TransactionHandler \<Rightarrow> string \<Rightarrow> gotime \<Rightarrow> 'd \<Rightarrow> 'd \<times> sink_event list" where
  "observeDuration h endpoint startedAt d =
     (if \<not> h_metrics h then (d, [])
      else let (d, t) = h_now h d in
        (d, [Call (ObserveDuration MetricAPIRequestDurationMs
               [(''endpoint'', endpoint), (''method'', ''GET'')] (time_Sub t startedAt))]))"

definition flushMetrics :: "('d, 'c) TransactionHandler \<Rightarrow> sink_event list" where
  "flushMetrics h = (if \<not> h_metrics h then [] else [FlushNow])"

definition writeServiceError :: "goerr \<Rightarrow> response \<Rightarrow> response" where
  "writeServiceError err w = http_Error MsgFailedToGetTransactions (HTTPStatus (Classify err)) w"

text \<open>The two filters: a rejected user id has its reason on the left.\<close>

definition read_user_id :: "string \<Rightarrow> string + int64" where
  "read_user_id s =
     (if s = [] then Inr 0
      else case ParseInt s of
        Inl _ \<Rightarrow> Inl ''invalid_user_id''
      | Inr u \<Rightarrow> if u <=s 0 then Inl ''non_positive_user_id'' else Inr u)"

definition read_type :: "string \<Rightarrow> goerr + TransactionType option" where
  "read_type s =
     (if s = [] then Inr None
      else case IsValid s of Some e \<Rightarrow> Inl e | None \<Rightarrow> Inr (Some s))"

definition write_transactions ::
  "('d, 'c) TransactionHandler \<Rightarrow> transaction list \<Rightarrow> response \<Rightarrow> sink_event list \<times> response" where
  "write_transactions h ts w =
     (let w = w\<lparr>rw_type := MimeApplicationJSON\<rparr>;
          (w, err) = (case encode_body (map NewTransactionResponse ts) of
                        Inl e \<Rightarrow> (w, Some e)
                      | Inr body \<Rightarrow> rw_Write body w)
      in if err \<noteq> None then (incRequestCounter h 500 ''encode_error'', w)
         else (incRequestCounter h 200 ''ok'', w))"

definition get_body ::
  "('d, 'c) TransactionHandler \<Rightarrow> 'c \<Rightarrow> string \<Rightarrow> response \<Rightarrow> 'd \<Rightarrow> 'd \<times> sink_event list \<times> response" where
  "get_body h ctx raw w d =
     (let q = ParseQuery raw in
      case read_user_id (query_get q ''user_id'') of
        Inl reason \<Rightarrow> (d, incRequestCounter h 400 reason, http_Error MsgInvalidUserID 400 w)
      | Inr userID \<Rightarrow>
          (case read_type (query_get q ''transaction_type'') of
             Inl _ \<Rightarrow> (d, incRequestCounter h 400 ''invalid_transaction_type'',
                        http_Error MsgInvalidTransactionTypeInReq 400 w)
           | Inr tType \<Rightarrow>
               let (d, ms, res) = Service.GetTransactions (h_svc h) ctx userID tType d in
               case res of
                 Inl err \<Rightarrow>
                   (d, map Call ms @ incRequestCounter h (HTTPStatus (Classify err)) ''service_error'',
                    writeServiceError err w)
               | Inr ts \<Rightarrow> (let (evs, w) = write_transactions h ts w in (d, map Call ms @ evs, w))))"

text \<open>The deferred calls run in reverse order: the flush first, then the duration.\<close>

definition GetTransactions ::
  "('d, 'c) TransactionHandler \<Rightarrow> 'c \<Rightarrow> string \<Rightarrow> response \<Rightarrow> 'd \<Rightarrow> 'd \<times> sink_event list \<times> response" where
  "GetTransactions h ctx raw w d =
     (let (d, startedAt) = h_now h d;
          (d, evs, w) = get_body h ctx raw w d;
          evs = evs @ flushMetrics h;
          (d, late) = observeDuration h ''get_transactions'' startedAt d
      in (d, evs @ late, w))"

subsection \<open>Router\<close>

definition healthHandler :: "response \<Rightarrow> response" where
  "healthHandler w = fst (rw_Write ''OK'' (WriteHeader 200 w))"

text \<open>
  \<open>http.ServeMux\<close> on the three patterns, for a path that is already clean: a method pattern for
  GET also takes HEAD, another method is answered with 405, a path below \<open>/swagger/\<close> goes to
  the Swagger handler (a parameter) and its bare form is redirected.
\<close>

datatype route = ToTransactions | ToHealth | ToSwagger | ToRedirect string | NotAllowed | NotFound

definition NewRouter :: "string \<Rightarrow> string \<Rightarrow> route" where
  "NewRouter method path =
     (let get = (method = ''GET'' \<or> method = ''HEAD'') in
      if path = ''/transactions'' then (if get then ToTransactions else NotAllowed)
      else if path = ''/health'' then (if get then ToHealth else NotAllowed)
      else if take 9 path = ''/swagger/'' then ToSwagger
      else if path = ''/swagger'' then ToRedirect ''/swagger/''
      else NotFound)"

definition serve ::
  "('d, 'c) TransactionHandler \<Rightarrow> (string \<Rightarrow> response \<Rightarrow> response) \<Rightarrow> 'c \<Rightarrow> string \<Rightarrow> string \<Rightarrow> string
    \<Rightarrow> response \<Rightarrow> 'd \<Rightarrow> 'd \<times> sink_event list \<times> response" where
  "serve h swagger ctx method path raw w d =
     (case NewRouter method path of
        ToTransactions \<Rightarrow> GetTransactions h ctx raw w d
      | ToHealth \<Rightarrow> (d, [], healthHandler w)
      | ToSwagger \<Rightarrow> (d, [], swagger path w)
      | ToRedirect _ \<Rightarrow> (d, [], WriteHeader 301 w)
      | NotAllowed \<Rightarrow> (d, [], http_Error ''Method Not Allowed'' 405 w)
      | NotFound \<Rightarrow> (d, [], http_Error ''404 page not found'' 404 w))"

end
