(* ===== verification/Api.thy ===== *)
theory Api
  imports Http
begin

text \<open>
  The guarantees of the query API: what a response says, that its body reads back, how it is
  counted, and the two places where it is not what it seems.
\<close>

subsection \<open>The body reads back\<close>

definition html_safe :: "string \<Rightarrow> bool" where
  "html_safe s \<longleftrightarrow> plain s \<and> CHR ''<'' \<notin> set s \<and> CHR ''>'' \<notin> set s \<and> CHR ''&'' \<notin> set s"

definition printable_response :: "TransactionResponse \<Rightarrow> bool" where
  "printable_response r \<longleftrightarrow> html_safe (resp_TransactionType r) \<and> printable_time (resp_Timestamp r)"

definition response_json :: "TransactionResponse \<Rightarrow> json" where
  "response_json r =
     JObj [(''user_id'', JNum (Itoa (sint (resp_UserID r)))),
           (''transaction_type'', JStr (resp_TransactionType r)),
           (''amount'', JNum (Itoa (sint (resp_Amount r)))),
           (''timestamp'', JStr (format_RFC3339Nano (resp_Timestamp r)))]"

lemma json_escape_safe: "html_safe s \<Longrightarrow> json_escape s = s"
  by (induction s) (auto simp: html_safe_def plain_char_def in_range_def escape_ascii_def)

lemma plain_digits: "list_all is_digit s \<Longrightarrow> plain s"
  by (erule list.pred_mono_strong) (auto simp: is_digit_def plain_char_def in_range_def)

lemma plain_digits2: "\<lbrakk>0 \<le> n; n < 100\<rbrakk> \<Longrightarrow> plain (digits2 n)"
  by (rule plain_digits) (use div10_bounds in \<open>simp add: digits2_def\<close>)

lemma plain_punct:
  "plain_char CHR ''-''" "plain_char CHR '':''" "plain_char CHR ''T''" "plain_char CHR ''Z''"
  "plain_char CHR ''+''" "plain_char CHR ''.''"
  by code_simp+

lemma plain_render:
  assumes "valid_civil y m d h mi s" "list_all is_digit fr" "valid_zone z"
  shows "plain (render_rfc3339 y m d h mi s fr z)"
proof -
  have b: "0 \<le> m" "m < 100" "0 \<le> d" "d < 100" "0 \<le> h" "h < 100" "0 \<le> mi" "mi < 100" "0 \<le> s" "s < 100"
    using assms(1) days_in_le [of m y] by (auto simp: valid_civil_def)
  have "0 \<le> y" "y < 10000" using assms(1) by (auto simp: valid_civil_def)
  then have y: "plain (digits4 y)" by (intro plain_digits digits4(2))
  have fr: "plain (render_frac fr)"
    using plain_digits [OF assms(2)] plain_punct by (simp add: render_frac_def)
  have z: "plain (render_zone z)"
    using assms(3) plain_punct by (auto simp: render_zone_def valid_zone_def plain_digits2 split: option.split)
  show ?thesis
    unfolding render_rfc3339_def using y b fr z plain_punct by (simp add: plain_digits2)
qed

lemma plain_format:
  assumes "printable_time t"
  shows "plain (format_RFC3339Nano t)"
proof -
  obtain y m d where c: "civil_of_days (local_sec t div 86400) = (y, m, d)" by (metis prod_cases3)
  define s where "s = local_sec t mod 86400"
  have s: "0 \<le> s" "s < 86400" unfolding s_def by simp_all
  have "0 \<le> s div 60 mod 60" "s div 60 mod 60 < 60" "0 \<le> s mod 60" "s mod 60 < 60" by simp_all
  with civil_of_days(2-5) [OF c] hms(1,2) [OF s] assms c
  have v: "valid_civil y m d (s div 3600) (s div 60 mod 60) (s mod 60)"
    by (simp add: valid_civil_def printable_time_def year_of_def)
  have "list_all is_digit (trim_zeros (digits9 (nanos t)))" "valid_zone (zone_minutes t)"
    using assms by (simp_all add: printable_time_def parse_nanos_trim zone_minutes)
  from plain_render [OF v this] show ?thesis
    unfolding format_RFC3339Nano_def c Let_def prod.case s_def .
qed

lemma printable_zone: "\<bar>z\<bar> < 86400 \<Longrightarrow> \<not> 24 \<le> \<bar>z\<bar> div (3600 :: int)"
  using div_bounds [of "\<bar>z\<bar>" 24 3600] by simp

lemma time_MarshalJSON_printable:
  "printable_time t \<Longrightarrow> time_MarshalJSON t = Inr (quoted (format_RFC3339Nano t))"
  using printable_zone [of "zone_off t"]
  by (simp add: time_MarshalJSON_def printable_time_def quoted_def quote_def)

definition response_text :: "TransactionResponse \<Rightarrow> string" where
  "response_text r =
     ''{'' @ quoted ''user_id'' @ '':'' @ Itoa (sint (resp_UserID r)) @ '',''
     @ quoted ''transaction_type'' @ '':'' @ quoted (resp_TransactionType r) @ '',''
     @ quoted ''amount'' @ '':'' @ Itoa (sint (resp_Amount r)) @ '',''
     @ quoted ''timestamp'' @ '':'' @ quoted (format_RFC3339Nano (resp_Timestamp r)) @ ''}''"

lemma encode_response_printable: "printable_response r \<Longrightarrow> encode_response r = Inr (response_text r)"
  by (simp add: encode_response_def printable_response_def time_MarshalJSON_printable
      json_escape_safe response_text_def)

lemma encode_all_printable:
  "\<forall>r \<in> set rs. printable_response r \<Longrightarrow> encode_all rs = Inr (map response_text rs)"
  by (induction rs) (simp_all add: encode_response_printable)

text \<open>Scanning and parsing one object of the array.\<close>

definition response_tokens :: "TransactionResponse \<Rightarrow> token list" where
  "response_tokens r =
     [TLBrace, TStr ''user_id'', TColon, TNum (Itoa (sint (resp_UserID r))), TComma,
      TStr ''transaction_type'', TColon, TStr (resp_TransactionType r), TComma,
      TStr ''amount'', TColon, TNum (Itoa (sint (resp_Amount r))), TComma,
      TStr ''timestamp'', TColon, TStr (format_RFC3339Nano (resp_Timestamp r)), TRBrace]"

lemma scan_response:
  assumes "printable_response r"
  shows "scan_all Normal (response_text r @ s) = map_option ((@) (response_tokens r)) (scan_all Normal s)"
proof -
  have t: "plain (resp_TransactionType r)" "plain (format_RFC3339Nano (resp_Timestamp r))"
    using assms by (simp_all add: printable_response_def html_safe_def plain_format)
  show ?thesis
    unfolding response_text_def response_tokens_def
    by (cases "scan_all Normal s")
      (simp_all add: scan_punct_cons scan_quoted' [OF plain_names(1)] scan_quoted' [OF plain_names(2)]
        scan_quoted' [OF plain_names(3)] scan_quoted' [OF plain_names(4)] scan_quoted' [OF t(1)]
        scan_quoted' [OF t(2)] scan_int
        del: scan_all.simps(2) scan_step.simps)
qed

lemma prun_response:
  "prun PValue [FArr vs] (response_tokens r @ ts) = prun PNext [FArr (response_json r # vs)] ts"
  "prun PFirst [FArr vs] (response_tokens r @ ts) = prun PNext [FArr (response_json r # vs)] ts"
  by (simp_all add: response_tokens_def response_json_def parse_value_def push_frame_def max_nesting_def)

fun array_tokens :: "TransactionResponse list \<Rightarrow> token list" where
  "array_tokens [] = []"
| "array_tokens [r] = response_tokens r"
| "array_tokens (r # rs) = response_tokens r @ TComma # array_tokens rs"

lemma scan_array:
  "\<forall>r \<in> set rs. printable_response r \<Longrightarrow>
   scan_all Normal (Join (map response_text rs) '','' @ s) =
     map_option ((@) (array_tokens rs)) (scan_all Normal s)"
proof (induction rs rule: array_tokens.induct)
  case (3 r r' rs)
  then have "scan_all Normal (Join (map response_text (r # r' # rs)) '','' @ s) =
    map_option ((@) (response_tokens r))
      (scan_all Normal (CHR '','' # Join (map response_text (r' # rs)) '','' @ s))"
    by (simp add: scan_response del: scan_all.simps(2) scan_step.simps)
  then show ?case using 3
    by (simp add: scan_punct_cons option.map_comp comp_def del: scan_all.simps(2) scan_step.simps)
qed (simp_all add: scan_response del: scan_all.simps(2) scan_step.simps)

lemma prun_array:
  "rs \<noteq> [] \<Longrightarrow> prun PValue [FArr vs] (array_tokens rs @ ts)
     = prun PNext [FArr (rev (map response_json rs) @ vs)] ts"
  by (induction rs arbitrary: vs rule: array_tokens.induct) (simp_all add: prun_response)

lemma scan_brackets:
  "scan_all Normal (CHR ''['' # r) = map_option ((#) TLBrack) (scan_all Normal r)"
  "scan_all Normal (CHR '']'' # r) = map_option ((#) TRBrack) (scan_all Normal r)"
  "scan_all Normal [byte 10] = Some []"
proof -
  have "scan_start CHR ''['' = Some ([TLBrack], Normal)" "scan_start CHR '']'' = Some ([TRBrack], Normal)"
    by (simp_all add: scan_start_def is_space_def code_def)
  then show "scan_all Normal (CHR ''['' # r) = map_option ((#) TLBrack) (scan_all Normal r)"
    "scan_all Normal (CHR '']'' # r) = map_option ((#) TRBrack) (scan_all Normal r)" by simp_all
  show "scan_all Normal [byte 10] = Some []" by (simp add: scan_start_def is_space_def)
qed

lemma parse_body:
  assumes "\<forall>r \<in> set rs. printable_response r"
  shows "\<exists>body. encode_body rs = Inr body \<and> json_parse body = Some (JArr (map response_json rs))"
proof (intro exI conjI)
  let ?body = "''['' @ Join (map response_text rs) '','' @ '']'' @ [byte 10]"
  show "encode_body rs = Inr ?body" by (simp add: encode_body_def encode_all_printable [OF assms])
  have "scan_all Normal ?body = Some (TLBrack # array_tokens rs @ [TRBrack])"
    using scan_array [OF assms, of "CHR '']'' # [byte 10]"]
    by (simp add: scan_brackets del: scan_all.simps(2) scan_step.simps)
  moreover have "prun PValue [] (TLBrack # array_tokens rs @ [TRBrack]) = Some (JArr (map response_json rs))"
  proof (cases rs)
    case (Cons r rs')
    have first: "prun PFirst [FArr []] (array_tokens (r # rs') @ ts)
      = prun PValue [FArr []] (array_tokens (r # rs') @ ts)" for ts
      by (cases rs') (simp_all add: prun_response)
    have "prun PValue [] (TLBrack # array_tokens rs @ [TRBrack])
      = prun PFirst [FArr []] (array_tokens rs @ [TRBrack])"
      by (simp add: parse_value_def push_frame_def max_nesting_def)
    also have "\<dots> = prun PNext [FArr (rev (map response_json rs))] [TRBrack]"
      unfolding Cons first by (subst prun_array) simp_all
    finally show ?thesis by simp
  qed (simp add: parse_value_def push_frame_def max_nesting_def)
  ultimately show "json_parse ?body = Some (JArr (map response_json rs))"
    by (simp add: json_parse_def)
qed

text \<open>
  C17: the API's JSON reads back. For transactions whose type is plain text and whose time has a
  four-digit year and an offset of whole minutes, the body is a JSON array with one object per
  transaction, in order, that carries exactly its user, type and amount, and a timestamp that
  the repository's own time parser reads as the same time.
\<close>

theorem body_roundtrip:
  assumes "\<forall>t \<in> set ts. printable_response (NewTransactionResponse t)"
  shows "(\<exists>body. encode_body (map NewTransactionResponse ts) = Inr body
      \<and> json_parse body = Some (JArr (map (\<lambda>t. JObj
          [(''user_id'', JNum (Itoa (sint (UserID t)))), (''transaction_type'', JStr (Type t)),
           (''amount'', JNum (Itoa (sint (Amount t)))),
           (''timestamp'', JStr (format_RFC3339Nano (Timestamp t)))]) ts)))
    \<and> (\<forall>t \<in> set ts. Parse (format_RFC3339Nano (Timestamp t)) = Inr (Timestamp t))"
proof
  have "\<forall>r \<in> set (map NewTransactionResponse ts). printable_response r" using assms by simp
  from parse_body [OF this] show "\<exists>body. encode_body (map NewTransactionResponse ts) = Inr body
      \<and> json_parse body = Some (JArr (map (\<lambda>t. JObj
          [(''user_id'', JNum (Itoa (sint (UserID t)))), (''transaction_type'', JStr (Type t)),
           (''amount'', JNum (Itoa (sint (Amount t)))),
           (''timestamp'', JStr (format_RFC3339Nano (Timestamp t)))]) ts))"
    by (simp add: response_json_def NewTransactionResponse_def comp_def)
  show "\<forall>t \<in> set ts. Parse (format_RFC3339Nano (Timestamp t)) = Inr (Timestamp t)"
    using assms by (auto simp: printable_response_def NewTransactionResponse_def Parse_format)
qed

lemma sample_printable: "printable_response (NewTransactionResponse (sample_tx u))"
proof -
  have "civil_of_days (local_sec (Timestamp (sample_tx 7)) div 86400) = (2023, 11, 14)" by code_simp
  then have "year_of (Timestamp (sample_tx u)) = 2023" by (simp add: year_of_def sample_tx_def)
  moreover have "html_safe ''bet''" by code_simp
  ultimately show ?thesis
    by (simp add: printable_response_def NewTransactionResponse_def printable_time_def)
      (simp add: sample_tx_def)
qed

theorem body_roundtrip_witness:
  "\<exists>body. encode_body (map NewTransactionResponse [sample_tx 7, sample_tx 8]) = Inr body
    \<and> (\<exists>js. json_parse body = Some (JArr js) \<and> length js = 2)"
proof -
  have "\<forall>t \<in> set [sample_tx 7, sample_tx 8]. printable_response (NewTransactionResponse t)"
    using sample_printable by simp
  from body_roundtrip [OF this] show ?thesis by auto
qed

subsection \<open>What a request is answered\<close>

text \<open>The user a query asks for: 0 when the parameter is absent or empty, \<open>None\<close> when refused.\<close>

definition user_filter :: "string \<Rightarrow> int64 option" where
  "user_filter s =
     (if s = [] then Some 0
      else case int_of_string s of
        None \<Rightarrow> None
      | Some i \<Rightarrow> if 0 < i \<and> i \<le> int64_max then Some (word_of_int i) else None)"

definition type_filter :: "string \<Rightarrow> TransactionType option option" where
  "type_filter s = (if s = [] then Some None else if s \<in> {''bet'', ''win''} then Some (Some s) else None)"

lemma read_user_id_filter:
  "case user_filter s of None \<Rightarrow> \<exists>reason. read_user_id s = Inl reason \<and> reason \<noteq> []
   | Some u \<Rightarrow> read_user_id s = Inr u"
proof (cases "s = []")
  case False
  show ?thesis
  proof (cases "ParseInt s")
    case (Inl e)
    have "\<not> (0 < i \<and> i \<le> int64_max)" if "int_of_string s = Some i" for i
      using ParseInt_value [OF that] Inl by (auto simp: in_int64_def)
    with False Inl show ?thesis by (auto simp: user_filter_def read_user_id_def split: option.split)
  next
    case (Inr w)
    then have "int_of_string s = Some (sint w)" by (simp add: ParseInt_iff)
    with False Inr sint64_le [of w] show ?thesis
      by (auto simp: user_filter_def read_user_id_def word_sle_eq)
  qed
qed (simp add: user_filter_def read_user_id_def)

lemma read_type_filter:
  "case type_filter s of None \<Rightarrow> \<exists>e. read_type s = Inl e | Some ty \<Rightarrow> read_type s = Inr ty"
  by (auto simp: type_filter_def read_type_def IsValid_def TransactionTypeBet_def TransactionTypeWin_def)

lemma http_Error_fresh:
  "\<lbrakk>rw_status w = None; rw_fail w = None\<rbrakk> \<Longrightarrow>
   status_of (http_Error msg st w) = st \<and> rw_body (http_Error msg st w) = rw_body w @ msg @ [byte 10]"
  by (simp add: http_Error_def rw_Write_def WriteHeader_def status_of_def Let_def)

text \<open>The body of the handler by what the filters are.\<close>

lemma get_body_bad_user:
  assumes "user_filter (query_get (ParseQuery raw) ''user_id'') = None"
  shows "\<exists>reason. (reason = ''invalid_user_id'' \<or> reason = ''non_positive_user_id'')
    \<and> (\<forall>d. get_body h ctx raw w d = (d, incRequestCounter h 400 reason, http_Error MsgInvalidUserID 400 w))"
proof -
  from read_user_id_filter [of "query_get (ParseQuery raw) ''user_id''"] assms
  obtain reason where r: "read_user_id (query_get (ParseQuery raw) ''user_id'') = Inl reason" by auto
  then have "reason = ''invalid_user_id'' \<or> reason = ''non_positive_user_id''"
    by (auto simp: read_user_id_def split: if_splits sum.splits)
  with r show ?thesis by (intro exI [of _ reason]) (simp add: get_body_def Let_def)
qed

lemma get_body_bad_type:
  "\<lbrakk>user_filter (query_get (ParseQuery raw) ''user_id'') = Some uid;
    type_filter (query_get (ParseQuery raw) ''transaction_type'') = None\<rbrakk>
   \<Longrightarrow> get_body h ctx raw w d = (d, incRequestCounter h 400 ''invalid_transaction_type'',
         http_Error MsgInvalidTransactionTypeInReq 400 w)"
  using read_user_id_filter [of "query_get (ParseQuery raw) ''user_id''"]
    read_type_filter [of "query_get (ParseQuery raw) ''transaction_type''"]
  by (auto simp: get_body_def Let_def)

lemma get_body_service:
  "\<lbrakk>user_filter (query_get (ParseQuery raw) ''user_id'') = Some uid;
    type_filter (query_get (ParseQuery raw) ''transaction_type'') = Some tp;
    Service.GetTransactions (h_svc h) ctx uid tp d = (d', ms, res)\<rbrakk>
   \<Longrightarrow> get_body h ctx raw w d =
        (case res of
           Inl e \<Rightarrow> (d', map Call ms @ incRequestCounter h (HTTPStatus (Classify e)) ''service_error'',
                      writeServiceError e w)
         | Inr ts \<Rightarrow> (d', map Call ms @ fst (write_transactions h ts w), snd (write_transactions h ts w)))"
  using read_user_id_filter [of "query_get (ParseQuery raw) ''user_id''"]
    read_type_filter [of "query_get (ParseQuery raw) ''transaction_type''"]
  by (auto simp: get_body_def Let_def case_prod_beta split: sum.split)

lemma one_count:
  "\<exists>c. incRequestCounter h st reason = (if h_metrics h then [Call c] else []) \<and> (\<exists>n ls v. c = IncCounter n ls v)"
  "\<exists>c. fst (write_transactions h ts w) = (if h_metrics h then [Call c] else []) \<and> (\<exists>n ls v. c = IncCounter n ls v)"
  by (auto simp: incRequestCounter_def write_transactions_def Let_def split: sum.split prod.split)

lemma GetTransactions_eq:
  "GetTransactions h ctx raw w d =
     (let (d0, t0) = h_now h d; (d1, evs, w') = get_body h ctx raw w d0;
          (d2, late) = observeDuration h ''get_transactions'' t0 d1
      in (d2, (evs @ flushMetrics h) @ late, w'))"
  by (simp add: GetTransactions_def Let_def)

lemma GetTransactions_body:
  assumes "GetTransactions h ctx raw w d = (d', evs, w')"
  obtains d0 t0 d1 evs0 where "h_now h d = (d0, t0)" "get_body h ctx raw w d0 = (d1, evs0, w')"
    "evs = (evs0 @ flushMetrics h) @ snd (observeDuration h ''get_transactions'' t0 d1)"
    "d' = fst (observeDuration h ''get_transactions'' t0 d1)"
  using assms by (auto simp: GetTransactions_eq Let_def split: prod.splits)

lemma query_cases:
  assumes run: "GetTransactions h ctx raw (new_response None) d = (d', evs, w')"
    and user: "u = user_filter (query_get (ParseQuery raw) ''user_id'')"
    and ty: "ty = type_filter (query_get (ParseQuery raw) ''transaction_type'')"
  shows "case (u, ty) of
      (Some uid, Some tp) \<Rightarrow>
        (case snd (snd (Service.GetTransactions (h_svc h) ctx uid tp (fst (h_now h d)))) of
           Inl e \<Rightarrow> status_of w' = HTTPStatus (Classify e)
             \<and> rw_body w' = ''failed to get transactions'' @ [byte 10]
         | Inr ts \<Rightarrow> status_of w' = 200
             \<and> (\<forall>body. encode_body (map NewTransactionResponse ts) = Inr body
                  \<longrightarrow> rw_body w' = body \<and> rw_type w' = ''application/json''))
    | (Some uid, None) \<Rightarrow> status_of w' = 400 \<and> rw_body w' = ''invalid transaction type'' @ [byte 10]
    | (None, _) \<Rightarrow> status_of w' = 400 \<and> rw_body w' = ''invalid user_id'' @ [byte 10]"
proof -
  from run obtain d0 t0 d1 evs0 where d0: "h_now h d = (d0, t0)"
    and b: "get_body h ctx raw (new_response None) d0 = (d1, evs0, w')"
    by (rule GetTransactions_body)
  have fresh: "rw_status (new_response None) = None" "rw_fail (new_response None) = None"
    "rw_body (new_response None) = []" by (simp_all add: new_response_def)
  consider (user) "u = None" | (type) uid where "u = Some uid" "ty = None"
    | (service) uid tp where "u = Some uid" "ty = Some tp" by fastforce
  then show ?thesis
  proof cases
    case user
    then have "user_filter (query_get (ParseQuery raw) ''user_id'') = None" using assms(2) by simp
    from get_body_bad_user [OF this, of h ctx "new_response None"] b
    have "w' = http_Error MsgInvalidUserID 400 (new_response None)" by auto
    with user fresh show ?thesis by (simp add: http_Error_fresh MsgInvalidUserID_def)
  next
    case type
    have "w' = http_Error MsgInvalidTransactionTypeInReq 400 (new_response None)"
      using b by (simp add: get_body_bad_type [OF assms(2) [unfolded type(1), symmetric] assms(3) [unfolded type(2), symmetric]])
    with type fresh show ?thesis by (simp add: http_Error_fresh MsgInvalidTransactionTypeInReq_def)
  next
    case service
    obtain d2 ms res where g: "Service.GetTransactions (h_svc h) ctx uid tp d0 = (d2, ms, res)"
      by (metis prod_cases3)
    note body = get_body_service [OF assms(2) [unfolded service(1), symmetric] assms(3) [unfolded service(2), symmetric] g]
    show ?thesis
    proof (cases res)
      case (Inl e)
      with service body b g fresh d0 show ?thesis
        by (auto simp: writeServiceError_def http_Error_fresh MsgFailedToGetTransactions_def)
    next
      case (Inr ts)
      with body b have "w' = snd (write_transactions h ts (new_response None))" by simp
      then have "status_of w' = 200 \<and> (\<forall>body. encode_body (map NewTransactionResponse ts) = Inr body
          \<longrightarrow> rw_body w' = body \<and> rw_type w' = ''application/json'')"
        by (auto simp: write_transactions_def rw_Write_def WriteHeader_def status_of_def new_response_def
            Let_def split: sum.splits)
      with service Inr g d0 show ?thesis by simp
    qed
  qed
qed

text \<open>
  The end of a request after the state \<open>d\<close> of the clock and the database: the flush, then one
  reading of the clock for the duration.
\<close>

definition finished :: "('d, 'c) TransactionHandler \<Rightarrow> gotime \<Rightarrow> 'd \<Rightarrow> 'd \<times> sink_event list" where
  "finished h t0 d =
     (if \<not> h_metrics h then (d, [])
      else let (d', t) = h_now h d in
        (d', [FlushNow, Call (ObserveDuration ''api_request_duration_ms''
           [(''endpoint'', ''get_transactions''), (''method'', ''GET'')] (time_Sub t t0))]))"

text \<open>The trace of a request refused with 400 for a reason: its count and its end, no other call.\<close>

definition refused ::
  "('d, 'c) TransactionHandler \<Rightarrow> string \<Rightarrow> 'd \<Rightarrow> 'd \<Rightarrow> sink_event list \<Rightarrow> bool" where
  "refused h reason d d' evs \<longleftrightarrow>
     (let (d0, t0) = h_now h d; (d1, late) = finished h t0 d0
      in d' = d1 \<and> evs = (if h_metrics h then [Call (IncCounter ''api_requests_total''
           [(''endpoint'', ''/transactions''), (''method'', ''GET''), (''status'', ''400''),
            (''reason'', reason)] 1)] else []) @ late)"

lemma finished_eq:
  "finished h t0 d = (case observeDuration h ''get_transactions'' t0 d of (d', late) \<Rightarrow> (d', flushMetrics h @ late))"
  by (simp add: finished_def flushMetrics_def observeDuration_def Let_def split: prod.split)

lemma GetTransactions_finished:
  "GetTransactions h ctx raw w d =
     (let (d0, t0) = h_now h d; (d1, evs, w') = get_body h ctx raw w d0; (d2, late) = finished h t0 d1
      in (d2, evs @ late, w'))"
  by (simp add: GetTransactions_def Let_def finished_eq split: prod.split)

lemma refused_body:
  assumes "GetTransactions h ctx raw w d = (d', evs, w')" "reason \<noteq> []"
    and "\<And>d. get_body h ctx raw w d = (d, incRequestCounter h 400 reason, w0)"
  shows "refused h reason d d' evs"
proof -
  have "Itoa 400 = ''400''" by code_simp
  with assms show ?thesis
    by (auto simp: GetTransactions_finished Let_def refused_def incRequestCounter_def split: prod.splits)
qed

lemma query_trace:
  assumes run: "GetTransactions h ctx raw w d = (d', evs, w')"
    and user: "u = user_filter (query_get (ParseQuery raw) ''user_id'')"
    and ty: "ty = type_filter (query_get (ParseQuery raw) ''transaction_type'')"
  shows "case (u, ty) of
      (Some uid, Some tp) \<Rightarrow>
        (let (d0, t0) = h_now h d; (d1, ms, res) = Service.GetTransactions (h_svc h) ctx uid tp d0;
             (d2, late) = finished h t0 d1
         in d' = d2 \<and> (\<exists>count. evs = map Call ms @ count @ late \<and> length count = (if h_metrics h then 1 else 0)))
    | (Some uid, None) \<Rightarrow> refused h ''invalid_transaction_type'' d d' evs
    | (None, _) \<Rightarrow> refused h ''invalid_user_id'' d d' evs \<or> refused h ''non_positive_user_id'' d d' evs"
proof -
  consider (user) "u = None" | (type) uid where "u = Some uid" "ty = None"
    | (service) uid tp where "u = Some uid" "ty = Some tp" by fastforce
  then show ?thesis
  proof cases
    case user
    then have "user_filter (query_get (ParseQuery raw) ''user_id'') = None" using assms(2) by simp
    from get_body_bad_user [OF this, of h ctx w]
    obtain reason where r: "reason = ''invalid_user_id'' \<or> reason = ''non_positive_user_id''"
      "\<And>d. get_body h ctx raw w d = (d, incRequestCounter h 400 reason, http_Error MsgInvalidUserID 400 w)" by blast
    with refused_body [OF run _ r(2)] user show ?thesis by auto
  next
    case type
    note body = get_body_bad_type [OF assms(2) [unfolded type(1), symmetric] assms(3) [unfolded type(2), symmetric]]
    from refused_body [OF run _ body] type show ?thesis by simp
  next
    case service
    obtain d0 t0 where n: "h_now h d = (d0, t0)" by fastforce
    obtain d1 ms res where g: "Service.GetTransactions (h_svc h) ctx uid tp d0 = (d1, ms, res)"
      by (metis prod_cases3)
    note body = get_body_service [OF assms(2) [unfolded service(1), symmetric] assms(3) [unfolded service(2), symmetric] g]
    obtain count w1 where b: "get_body h ctx raw w d0 = (d1, map Call ms @ count, w1)"
      "length count = (if h_metrics h then 1 else 0)"
    proof (cases res)
      case (Inl e)
      with body one_count(1) [of h "HTTPStatus (Classify e)" "''service_error''"] show thesis by (auto intro: that)
    next
      case (Inr ts)
      with body one_count(2) [of h ts w] show thesis by (auto intro: that)
    qed
    obtain d2 late where f: "finished h t0 d1 = (d2, late)" by fastforce
    from run n b(1) f have "d' = d2" "evs = map Call ms @ count @ late"
      by (simp_all add: GetTransactions_finished)
    with service n g f b(2) show ?thesis by auto
  qed
qed

text \<open>
  C15: the answer to every query. A user id that is not a positive 64-bit decimal, or a type other
  than bet and win, is answered with 400 and never reaches the service: the state moves only by
  the two readings of the clock, and the events are the count of the refused request with its
  reason, the flush and the duration. Every other query calls the service once, with the parsed
  filters; an error of the service is answered with the status of its class; a result with 200
  and its JSON, when it can be encoded.
\<close>

theorem query_answer:
  assumes run: "GetTransactions h ctx raw (new_response None) d = (d', evs, w')"
    and user: "u = user_filter (query_get (ParseQuery raw) ''user_id'')"
    and ty: "ty = type_filter (query_get (ParseQuery raw) ''transaction_type'')"
  shows "(case (u, ty) of
      (Some uid, Some tp) \<Rightarrow>
        (case snd (snd (Service.GetTransactions (h_svc h) ctx uid tp (fst (h_now h d)))) of
           Inl e \<Rightarrow> status_of w' = HTTPStatus (Classify e)
             \<and> rw_body w' = ''failed to get transactions'' @ [byte 10]
         | Inr ts \<Rightarrow> status_of w' = 200
             \<and> (\<forall>body. encode_body (map NewTransactionResponse ts) = Inr body
                  \<longrightarrow> rw_body w' = body \<and> rw_type w' = ''application/json''))
    | (Some uid, None) \<Rightarrow> status_of w' = 400 \<and> rw_body w' = ''invalid transaction type'' @ [byte 10]
    | (None, _) \<Rightarrow> status_of w' = 400 \<and> rw_body w' = ''invalid user_id'' @ [byte 10])
    \<and> (case (u, ty) of
      (Some uid, Some tp) \<Rightarrow>
        (let (d0, t0) = h_now h d; (d1, ms, res) = Service.GetTransactions (h_svc h) ctx uid tp d0;
             (d2, late) = finished h t0 d1
         in d' = d2 \<and> (\<exists>count. evs = map Call ms @ count @ late \<and> length count = (if h_metrics h then 1 else 0)))
    | (Some uid, None) \<Rightarrow> refused h ''invalid_transaction_type'' d d' evs
    | (None, _) \<Rightarrow> refused h ''invalid_user_id'' d d' evs \<or> refused h ''non_positive_user_id'' d d' evs)"
  using query_cases [OF assms] query_trace [OF assms] by (rule conjI)

definition sample_handler :: "(refdb, bool) TransactionHandler" where
  "sample_handler = NewTransactionHandlerWithMetrics
     (NewTransactionService (postgres_port ref_driver (Some sample_repo))) (TimeNow ref_driver)"

theorem query_answer_witness:
  "case GetTransactions sample_handler False ''user_id=-4'' (new_response None) (sample_db []) of
     (d, evs, w) \<Rightarrow> status_of w = 400 \<and> rw_body w = ''invalid user_id'' @ [byte 10]
       \<and> (refused sample_handler ''invalid_user_id'' (sample_db []) d evs
          \<or> refused sample_handler ''non_positive_user_id'' (sample_db []) d evs)"
proof -
  obtain d evs w where r: "GetTransactions sample_handler False ''user_id=-4'' (new_response None)
      (sample_db []) = (d, evs, w)" by (metis prod_cases3)
  have u: "user_filter (query_get (ParseQuery ''user_id=-4'') ''user_id'') = None" by code_simp
  from query_answer [OF r refl refl] show ?thesis unfolding r u by simp
qed

lemma listing_rows:
  assumes drv: "pg_driver drv tbl clock micros of_micros" and p: "repo_db p"
    and h: "h = NewTransactionHandlerWithMetrics (NewTransactionService (postgres_port drv (Some p))) (TimeNow drv)"
    and run: "GetTransactions h ctx raw (new_response None) d = (d', evs, w')" and ok: "status_of w' = 200"
    and pr: "\<forall>r \<in> set (tbl d). printable_response (NewTransactionResponse (tx_of_row of_micros r))"
  shows "\<exists>uid ty rows. user_filter (query_get (ParseQuery raw) ''user_id'') = Some uid
    \<and> type_filter (query_get (ParseQuery raw) ''transaction_type'') = Some ty
    \<and> mset rows = filter_mset (row_matches uid ty) (mset (tbl d)) \<and> desc_nulls_last rows
    \<and> json_parse (rw_body w') =
        Some (JArr (map (\<lambda>r. response_json (NewTransactionResponse (tx_of_row of_micros r))) rows))"
proof -
  let ?q = "ParseQuery raw"
  note cases = query_cases [OF run refl refl]
  obtain uid ty where f: "user_filter (query_get ?q ''user_id'') = Some uid"
    "type_filter (query_get ?q ''transaction_type'') = Some ty"
    using cases ok by (auto split: option.splits)
  obtain d1 ms res where g: "Service.GetTransactions (h_svc h) ctx uid ty (fst (h_now h d)) = (d1, ms, res)"
    by (metis prod_cases3)
  have "HTTPStatus (Classify e) \<noteq> 200" for e by (simp add: Classify_def)
  with cases ok f g obtain ts where ts: "res = Inr ts"
    "\<forall>body. encode_body (map NewTransactionResponse ts) = Inr body \<longrightarrow> rw_body w' = body"
    by (cases res) auto
  from g ts(1) h have "Get drv (Some p) ctx uid ty (fst (TimeNow drv d)) = (d1, ms, Inr ts)"
    by (simp add: NewTransactionHandlerWithMetrics_def service_defs postgres_port_def)
  from pg_driver.Get_rows [OF drv this p] obtain rows where
    r: "mset rows = filter_mset (row_matches uid ty) (mset (tbl (fst (TimeNow drv d))))"
    "desc_nulls_last rows" "ts = map (tx_of_row of_micros) rows" by metis
  have t: "tbl (fst (TimeNow drv d)) = tbl d" by (rule pg_driver.now_tbl [OF drv])
  have "set rows \<subseteq> set (tbl d)" using arg_cong [OF r(1), of set_mset] t by auto
  with pr r(3) have "\<forall>x \<in> set (map NewTransactionResponse ts). printable_response x" by auto
  from parse_body [OF this] ts(2) have "json_parse (rw_body w') =
      Some (JArr (map response_json (map NewTransactionResponse ts)))" by auto
  with f r t show ?thesis by (auto simp: comp_def)
qed

text \<open>
  C14: the listing is the table. Over every driver that keeps \<open>pg_driver\<close>, a query that is
  answered with 200 while all rows are printable has a body that reads back as exactly the rows
  its filters ask for, each once, newest first with unknown times last.
\<close>

theorem api_query:
  assumes drv: "pg_driver drv tbl clock micros of_micros" and p: "repo_db p"
    and h: "h = NewTransactionHandlerWithMetrics (NewTransactionService (postgres_port drv (Some p))) (TimeNow drv)"
    and run: "GetTransactions h ctx raw (new_response None) d = (d', evs, w')" and ok: "status_of w' = 200"
    and pr: "\<forall>r \<in> set (tbl d). printable_response (NewTransactionResponse (tx_of_row of_micros r))"
  shows "\<exists>uid ty rows. user_filter (query_get (ParseQuery raw) ''user_id'') = Some uid
    \<and> type_filter (query_get (ParseQuery raw) ''transaction_type'') = Some ty
    \<and> mset rows = filter_mset (row_matches uid ty) (mset (tbl d)) \<and> desc_nulls_last rows
    \<and> json_parse (rw_body w') =
        Some (JArr (map (\<lambda>r. response_json (NewTransactionResponse (tx_of_row of_micros r))) rows))"
  using assms by (rule listing_rows)

definition two_rows :: refdb where
  "two_rows = fst (SaveBulk ref_driver (Some sample_repo) False [sample_tx 7, sample_tx 8] (sample_db []))"

lemma two_rows: "map (tx_of_row pg_of_micros) (db_rows two_rows) = [sample_tx 7, sample_tx 8]"
  by code_simp

theorem api_query_witness:
  "case GetTransactions sample_handler False ''user_id=8'' (new_response None) two_rows of
     (d, evs, w) \<Rightarrow> \<exists>js. json_parse (rw_body w) = Some (JArr js)"
proof -
  let ?g = "GetTransactions sample_handler False ''user_id=8'' (new_response None) two_rows"
  obtain d evs w where r: "?g = (d, evs, w)" by (metis prod_cases3)
  have "status_of (snd (snd ?g)) = 200" by code_simp
  with r have ok: "status_of w = 200" by simp
  have "\<forall>t \<in> set (map (tx_of_row pg_of_micros) (db_rows two_rows)). printable_response (NewTransactionResponse t)"
    unfolding two_rows using sample_printable by simp
  then have "\<forall>r \<in> set (db_rows two_rows). printable_response (NewTransactionResponse (tx_of_row pg_of_micros r))"
    by simp
  from api_query [OF ref.pg_driver_axioms _ sample_handler_def r ok this] r show ?thesis
    by (auto simp: sample_repo_def)
qed

subsection \<open>Metrics of a request\<close>

text \<open>The labels of the request counts among the events.\<close>

fun request_of :: "sink_event \<Rightarrow> labels option" where
  "request_of (Call (IncCounter n ls v)) = (if n = ''api_requests_total'' then Some ls else None)"
| "request_of _ = None"

definition requests :: "sink_event list \<Rightarrow> labels list" where
  "requests evs = List.map_filter request_of evs"

lemma requests_simps [simp]:
  "requests [] = []" "requests (evs @ evs') = requests evs @ requests evs'"
  "requests (e # evs) = (case request_of e of None \<Rightarrow> [] | Some ls \<Rightarrow> [ls]) @ requests evs"
  by (simp_all add: requests_def map_filter_def split: option.split)

lemma Get_no_requests: "Get drv r c u ty d = (d', ms, res) \<Longrightarrow> requests (map Call ms) = []"
  by (auto simp: Get_def timed_def Let_def incQueryCounter_def Repository.observeDuration_def
      split: prod.splits if_splits sum.splits option.splits)

lemma requests_inc [simp]:
  "h_metrics h \<Longrightarrow> requests (incRequestCounter h st reason) =
     [[(''endpoint'', ''/transactions''), (''method'', ''GET''), (''status'', Itoa st)]
      @ (if reason \<noteq> [] then [(''reason'', reason)] else [])]"
  by (simp add: incRequestCounter_def)

text \<open>
  A request whose result is not delivered: its filters are accepted, the service answers with
  transactions, and they cannot be encoded or the connection is broken.
\<close>

definition undelivered ::
  "('d, 'c) TransactionHandler \<Rightarrow> 'c \<Rightarrow> string \<Rightarrow> goerr option \<Rightarrow> 'd \<Rightarrow> bool" where
  "undelivered h ctx raw broken d \<longleftrightarrow>
     (case (user_filter (query_get (ParseQuery raw) ''user_id''),
            type_filter (query_get (ParseQuery raw) ''transaction_type'')) of
        (Some uid, Some tp) \<Rightarrow>
          (case snd (snd (Service.GetTransactions (h_svc h) ctx uid tp (fst (h_now h d)))) of
             Inl _ \<Rightarrow> False
           | Inr ts \<Rightarrow> broken \<noteq> None \<or> isl (encode_body (map NewTransactionResponse ts)))
      | _ \<Rightarrow> False)"

text \<open>The labels of the count: the reason \<open>encode_error\<close>, with status 500, or the status sent.\<close>

definition counted_as :: "labels \<Rightarrow> bool \<Rightarrow> int \<Rightarrow> bool" where
  "counted_as ls lost st \<longleftrightarrow>
     map_of ls ''endpoint'' = Some ''/transactions''
     \<and> (if lost then st = 200 \<and> map_of ls ''status'' = Some ''500'' \<and> map_of ls ''reason'' = Some ''encode_error''
        else map_of ls ''status'' = Some (Itoa st) \<and> map_of ls ''reason'' \<noteq> Some ''encode_error''
          \<and> (st = 200 \<longleftrightarrow> map_of ls ''reason'' = Some ''ok''))"

lemma http_Error_status: "status_of (http_Error msg st (new_response broken)) = st"
  by (cases broken) (simp_all add: http_Error_def rw_Write_def WriteHeader_def status_of_def
      new_response_def Let_def)

lemma write_transactions_counted:
  assumes "write_transactions h ts (new_response broken) = (evs, w)" "h_metrics h"
  shows "\<exists>ls. requests evs = [ls]
    \<and> counted_as ls (broken \<noteq> None \<or> isl (encode_body (map NewTransactionResponse ts))) (status_of w)"
proof -
  have "Itoa 500 = ''500''" by code_simp
  with assms show ?thesis
    by (cases broken) (auto simp: write_transactions_def rw_Write_def WriteHeader_def status_of_def
        new_response_def Let_def counted_as_def split: sum.splits)
qed

lemma HTTPStatus_not_200: "HTTPStatus (Classify e) \<noteq> 200"
  by (simp add: Classify_def)

lemma body_counted:
  assumes h: "h = NewTransactionHandlerWithMetrics (NewTransactionService (postgres_port drv r)) now"
    and n: "fst (h_now h d) = d0" and b: "get_body h ctx raw (new_response broken) d0 = (d1, evs, w')"
  shows "\<exists>ls. requests evs = [ls] \<and> counted_as ls (undelivered h ctx raw broken d) (status_of w')"
proof -
  have hm: "h_metrics h" by (simp add: h NewTransactionHandlerWithMetrics_def)
  let ?u = "user_filter (query_get (ParseQuery raw) ''user_id'')"
  let ?ty = "type_filter (query_get (ParseQuery raw) ''transaction_type'')"
  consider (user) "?u = None" | (type) uid where "?u = Some uid" "?ty = None"
    | (service) uid tp where "?u = Some uid" "?ty = Some tp" by fastforce
  then show ?thesis
  proof cases
    case user
    from get_body_bad_user [OF this, of h ctx "new_response broken"]
    obtain reason where "reason = ''invalid_user_id'' \<or> reason = ''non_positive_user_id''"
      "\<And>d. get_body h ctx raw (new_response broken) d
        = (d, incRequestCounter h 400 reason, http_Error MsgInvalidUserID 400 (new_response broken))" by blast
    with b user hm show ?thesis by (auto simp: undelivered_def counted_as_def http_Error_status)
  next
    case type
    with b hm show ?thesis
      by (auto simp: get_body_bad_type undelivered_def counted_as_def http_Error_status)
  next
    case service
    obtain d2 ms res where g: "Service.GetTransactions (h_svc h) ctx uid tp d0 = (d2, ms, res)"
      by (metis prod_cases3)
    from g have none: "requests (map Call ms) = []"
      using Get_no_requests by (fastforce simp: h NewTransactionHandlerWithMetrics_def service_defs postgres_port_def)
    note body = get_body_service [OF service g]
    show ?thesis
    proof (cases res)
      case (Inl e)
      with service body b g hm none n HTTPStatus_not_200 [of e] show ?thesis
        by (auto simp: undelivered_def counted_as_def writeServiceError_def http_Error_status)
    next
      case (Inr ts)
      obtain evs1 w1 where wt: "write_transactions h ts (new_response broken) = (evs1, w1)" by fastforce
      from write_transactions_counted [OF this hm] service body b g Inr none n wt show ?thesis
        by (auto simp: undelivered_def)
    qed
  qed
qed

lemma request_count:
  assumes h: "h = NewTransactionHandlerWithMetrics (NewTransactionService (postgres_port drv r)) now"
    and run: "GetTransactions h ctx raw (new_response broken) d = (d', evs, w')"
  shows "\<exists>ls. requests evs = [ls] \<and> counted_as ls (undelivered h ctx raw broken d) (status_of w')"
proof -
  from run obtain d0 t0 d1 evs0 where n: "h_now h d = (d0, t0)"
    and b: "get_body h ctx raw (new_response broken) d0 = (d1, evs0, w')"
    and evs: "evs = (evs0 @ flushMetrics h) @ snd (observeDuration h ''get_transactions'' t0 d1)"
    by (rule GetTransactions_body)
  have "requests evs = requests evs0"
    by (simp add: evs flushMetrics_def observeDuration_def split: prod.split)
  with body_counted [OF h _ b, of d] n show ?thesis by simp
qed



text \<open>The events on a \<open>LogSink\<close>: the sink after them, and the records its flushes logged.\<close>

fun sink_run :: "sink_event list \<Rightarrow> log_sink \<Rightarrow> log_sink \<times> flush_log list" where
  "sink_run [] s = (s, [])"
| "sink_run (Call c # evs) s = sink_run evs (sink_call c s)"
| "sink_run (FlushNow # evs) s =
     (let (s', l) = Flush s; (s'', ls) = sink_run evs s'
      in (s'', case l of None \<Rightarrow> ls | Some l \<Rightarrow> l # ls))"

lemma sink_run_calls: "sink_run (map Call cs @ evs) s = sink_run evs (fold sink_call cs s)"
  by (induction cs arbitrary: s) simp_all

fun timer_key :: "metric_call \<Rightarrow> string option" where
  "timer_key (ObserveDuration n ls d) = Some (Key n ls)"
| "timer_key _ = None"

fun counts :: "metric_call \<Rightarrow> bool" where
  "counts (IncCounter n ls v) = True"
| "counts _ = False"

lemma fold_other_timers:
  "\<forall>c \<in> set cs. timer_key c \<noteq> Some k
   \<Longrightarrow> Mapping.lookup (timers (fold sink_call cs s)) k = Mapping.lookup (timers s) k"
proof (induction cs arbitrary: s)
  case (Cons c cs)
  have "Mapping.lookup (timers (sink_call c s)) k = Mapping.lookup (timers s) k"
    using Cons.prems by (cases c) (auto simp: Let_def lookup_update')
  with Cons show ?case by simp
qed simp

lemma update_not_empty: "Mapping.update k v m \<noteq> Mapping.empty"
  by (metis lookup_empty lookup_update option.distinct(1))

lemma fold_keeps_counters: "counters s \<noteq> Mapping.empty \<Longrightarrow> counters (fold sink_call cs s) \<noteq> Mapping.empty"
proof (induction cs arbitrary: s)
  case (Cons c cs)
  have "counters (sink_call c s) \<noteq> Mapping.empty"
    using Cons.prems by (cases c) (simp_all add: Let_def update_not_empty)
  with Cons.IH show ?case by simp
qed simp

lemma fold_counters: "list_ex counts cs \<Longrightarrow> counters (fold sink_call cs s) \<noteq> Mapping.empty"
proof (induction cs arbitrary: s)
  case (Cons c cs)
  show ?case
  proof (cases "counts c")
    case True
    then have "counters (sink_call c s) \<noteq> Mapping.empty" by (cases c) (simp_all add: Let_def update_not_empty)
    then show ?thesis by (simp add: fold_keeps_counters)
  qed (use Cons in simp)
qed simp

lemma Flush_counted:
  "counters s \<noteq> Mapping.empty \<Longrightarrow> \<exists>l. Flush s = (NewLogSink, Some l) \<and> log_timers l = flush_timers s"
  by (simp add: Flush_def is_empty_iff)

definition request_timer :: string where
  "request_timer = Key ''api_request_duration_ms'' [(''endpoint'', ''get_transactions''), (''method'', ''GET'')]"

text \<open>A request calls the sink, flushes it, and then observes its duration.\<close>

lemma Get_timers:
  "Get drv r c u ty d = (d', ms, res) \<Longrightarrow> \<forall>m \<in> set ms. timer_key m \<noteq> Some request_timer"
  by (auto simp: Get_def timed_def Let_def incQueryCounter_def Repository.observeDuration_def
      request_timer_def Key_def split: prod.splits if_splits sum.splits option.splits)

lemma body_calls:
  assumes h: "h = NewTransactionHandlerWithMetrics (NewTransactionService (postgres_port drv r)) now"
    and b: "get_body h ctx raw w d = (d', evs, w')"
  shows "\<exists>cs. evs = map Call cs \<and> (\<forall>c \<in> set cs. timer_key c \<noteq> Some request_timer) \<and> list_ex counts cs"
proof -
  have hm: "h_metrics h" by (simp add: h NewTransactionHandlerWithMetrics_def)
  have end_count: ?thesis
    if e: "evs = map Call ms @ e" "e = [Call c]" "\<exists>n ls v. c = IncCounter n ls v"
      "\<forall>m \<in> set ms. timer_key m \<noteq> Some request_timer" for ms e c
    using that by (intro exI [of _ "ms @ [c]"]) auto
  let ?u = "user_filter (query_get (ParseQuery raw) ''user_id'')"
  let ?ty = "type_filter (query_get (ParseQuery raw) ''transaction_type'')"
  consider (user) "?u = None" | (type) uid where "?u = Some uid" "?ty = None"
    | (service) uid tp where "?u = Some uid" "?ty = Some tp" by fastforce
  then show ?thesis
  proof cases
    case user
    from get_body_bad_user [OF this, of h ctx w] b obtain reason where "evs = incRequestCounter h 400 reason" by auto
    with one_count(1) [of h 400 reason] hm end_count [of "[]"] show ?thesis by auto
  next
    case type
    with b one_count(1) [of h 400 "''invalid_transaction_type''"] hm end_count [of "[]"] show ?thesis
      by (auto simp: get_body_bad_type)
  next
    case service
    obtain d2 ms res where g: "Service.GetTransactions (h_svc h) ctx uid tp d = (d2, ms, res)"
      by (metis prod_cases3)
    from g have get: "\<forall>m \<in> set ms. timer_key m \<noteq> Some request_timer"
      using Get_timers by (fastforce simp: h NewTransactionHandlerWithMetrics_def service_defs postgres_port_def)
    show ?thesis
    proof (cases res)
      case (Inl e)
      with b get_body_service [OF service g] one_count(1) [of h "HTTPStatus (Classify e)" "''service_error''"] hm
        end_count [of ms] get show ?thesis by auto
    next
      case (Inr ts)
      with b get_body_service [OF service g] one_count(2) [of h ts w] hm end_count [of ms] get show ?thesis by auto
    qed
  qed
qed

lemma request_events:
  assumes h: "h = NewTransactionHandlerWithMetrics (NewTransactionService (postgres_port drv r)) now"
    and run: "GetTransactions h ctx raw w d = (d', evs, w')"
  shows "\<exists>cs d0 t0 d1 t1. now d = (d0, t0) \<and> fst (get_body h ctx raw w d0) = d1 \<and> now d1 = (d', t1)
    \<and> evs = map Call cs @ [FlushNow, Call (ObserveDuration ''api_request_duration_ms''
        [(''endpoint'', ''get_transactions''), (''method'', ''GET'')] (time_Sub t1 t0))]
    \<and> (\<forall>c \<in> set cs. timer_key c \<noteq> Some request_timer) \<and> list_ex counts cs"
proof -
  have [simp]: "h_metrics h" "h_now h = now" by (simp_all add: h NewTransactionHandlerWithMetrics_def)
  obtain d0 t0 where n: "now d = (d0, t0)" by fastforce
  obtain d1 evs0 w1 where b: "get_body h ctx raw w d0 = (d1, evs0, w1)" by (metis prod_cases3)
  obtain d2 t1 where n1: "now d1 = (d2, t1)" by fastforce
  from body_calls [OF h b] obtain cs where
    cs: "evs0 = map Call cs" "\<forall>c \<in> set cs. timer_key c \<noteq> Some request_timer" "list_ex counts cs" by blast
  from run n b n1 cs(1) have "d' = d2" "evs = map Call cs @ [FlushNow, Call (ObserveDuration ''api_request_duration_ms''
      [(''endpoint'', ''get_transactions''), (''method'', ''GET'')] (time_Sub t1 t0))]"
    by (simp_all add: GetTransactions_finished finished_def)
  with n b n1 cs(2,3) show ?thesis by (intro exI conjI) (assumption | simp)+
qed

lemma request_run:
  assumes "list_ex counts cs" "\<forall>c \<in> set cs. timer_key c \<noteq> Some request_timer"
  shows "\<exists>l. sink_run (map Call cs @ [FlushNow, Call c]) s = (sink_call c NewLogSink, [l])
    \<and> Mapping.lookup (log_timers l) request_timer = Mapping.lookup (flush_timers s) request_timer"
proof -
  from Flush_counted [OF fold_counters [OF assms(1), of s]] obtain l where
    "Flush (fold sink_call cs s) = (NewLogSink, Some l)" "log_timers l = flush_timers (fold sink_call cs s)" by blast
  then show ?thesis
    using fold_other_timers [OF assms(2), of s] by (simp add: sink_run_calls lookup_flush_timers del: sink_call.simps)
qed

text \<open>
  C39: a request's duration misses its own flush. The deferred flush runs before the deferred
  observation: what a request's flush logs under the duration of requests is what the sink held
  before the request, and after the request the sink holds exactly the time between its two
  readings of the clock. It is the flush of the next request on the sink, when the two do not
  overlap, that logs it: one sample, with that time in milliseconds.
\<close>

theorem duration_reported_late:
  assumes h: "h = NewTransactionHandlerWithMetrics (NewTransactionService (postgres_port drv r)) now"
    and this_request: "GetTransactions h ctx raw w d = (d', evs, w')"
    and next_request: "GetTransactions h ctx2 raw2 w2 d2 = (d2', evs2, w2')"
    and this_run: "sink_run evs s = (s1, logs1)" and next_run: "sink_run evs2 s1 = (s2, logs2)"
    and key: "k = Key ''api_request_duration_ms'' [(''endpoint'', ''get_transactions''), (''method'', ''GET'')]"
  shows "\<exists>d0 t0 t1 l1 l2 st. now d = (d0, t0) \<and> now (fst (get_body h ctx raw w d0)) = (d', t1)
    \<and> logs1 = [l1] \<and> Mapping.lookup (log_timers l1) k = Mapping.lookup (flush_timers s) k
    \<and> s1 = sink_call (ObserveDuration ''api_request_duration_ms''
        [(''endpoint'', ''get_transactions''), (''method'', ''GET'')] (time_Sub t1 t0)) NewLogSink
    \<and> logs2 = [l2] \<and> Mapping.lookup (log_timers l2) k = Some (Some st)
    \<and> st_count st = 1 \<and> st_max st = fl (of_int (Milliseconds (time_Sub t1 t0)))"
proof -
  let ?obs = "\<lambda>t. ObserveDuration ''api_request_duration_ms''
    [(''endpoint'', ''get_transactions''), (''method'', ''GET'')] t"
  from request_events [OF h this_request] obtain cs d0 t0 t1 where
    a: "now d = (d0, t0)" "now (fst (get_body h ctx raw w d0)) = (d', t1)"
      "evs = map Call cs @ [FlushNow, Call (?obs (time_Sub t1 t0))]"
      "\<forall>c \<in> set cs. timer_key c \<noteq> Some request_timer" "list_ex counts cs" by blast
  from request_events [OF h next_request] obtain cs2 t where
    b: "evs2 = map Call cs2 @ [FlushNow, Call (?obs t)]"
      "\<forall>c \<in> set cs2. timer_key c \<noteq> Some request_timer" "list_ex counts cs2" by blast
  have k: "k = request_timer" by (simp add: key request_timer_def)
  from request_run [OF a(5,4), of "?obs (time_Sub t1 t0)" s] this_run a(3) obtain l1 where
    l1: "s1 = sink_call (?obs (time_Sub t1 t0)) NewLogSink" "logs1 = [l1]"
      "Mapping.lookup (log_timers l1) k = Mapping.lookup (flush_timers s) k" by (auto simp: k)
  from request_run [OF b(3,2), of "?obs t" s1] next_run b(1) obtain l2 where
    l2: "logs2 = [l2]" "Mapping.lookup (log_timers l2) k = Mapping.lookup (flush_timers s1) k" by (auto simp: k)
  let ?ms = "fl (of_int (Milliseconds (time_Sub t1 t0)))"
  have "Mapping.lookup (timers s1) k = Some [?ms]"
    by (simp add: l1(1) k request_timer_def Let_def sink_timer_def NewLogSink_def lookup_empty)
  moreover obtain st where st: "durationStats [?ms] = Some st" "st_count st = 1" "st_max st = ?ms"
    by (rule durationStats_single)
  ultimately have "Mapping.lookup (log_timers l2) k = Some (Some st)"
    by (simp add: l2(2) lookup_flush_timers)
  with a(1,2) l1 l2(1) st(2,3) show ?thesis by blast
qed

theorem duration_reported_late_witness:
  "\<exists>s1 logs1 s2 logs2 l. sink_run (fst (snd (GetTransactions sample_handler False ''user_id=8''
       (new_response None) two_rows))) NewLogSink = (s1, logs1)
    \<and> sink_run (fst (snd (GetTransactions sample_handler False [] (new_response None) two_rows))) s1 = (s2, logs2)
    \<and> logs2 = [l] \<and> (\<exists>st. Mapping.lookup (log_timers l) (Key ''api_request_duration_ms''
         [(''endpoint'', ''get_transactions''), (''method'', ''GET'')]) = Some (Some st) \<and> st_count st = 1)"
proof -
  obtain d evs w where r: "GetTransactions sample_handler False ''user_id=8'' (new_response None)
      two_rows = (d, evs, w)" by (metis prod_cases3)
  obtain d2 evs2 w2 where r2: "GetTransactions sample_handler False [] (new_response None)
      two_rows = (d2, evs2, w2)" by (metis prod_cases3)
  obtain s1 logs1 where q: "sink_run evs NewLogSink = (s1, logs1)" by fastforce
  obtain s2 logs2 where q2: "sink_run evs2 s1 = (s2, logs2)" by fastforce
  from duration_reported_late [OF sample_handler_def r r2 q q2 refl] r r2 q q2 show ?thesis by auto
qed

subsection \<open>A time that cannot be printed\<close>

text \<open>The years before 10000 are the days before 2932897.\<close>

lemma far_year:
  assumes "2932897 \<le> z"
  shows "9999 < fst (civil_of_days z)"
proof (rule ccontr)
  assume "\<not> ?thesis"
  obtain y yday where s: "split_days (z + 719162) = (y, yday)" by fastforce
  with \<open>\<not> ?thesis\<close> have y: "y \<le> 9998" by (auto simp: civil_of_days_def split: prod.splits)
  from split_days [OF s] have d: "days_before_year y + yday = z + 719162" "yday \<le> 365"
    "\<not> is_leap (y + 1) \<Longrightarrow> yday \<le> 364" by (auto split: if_splits)
  show False
  proof (cases "y = 9998")
    case True
    then have "days_before_year y = 3651694" "\<not> is_leap (y + 1)"
      by (simp_all add: days_before_year_def is_leap_def)
    with d assms show False by linarith
  next
    case False
    with y have "y \<le> 9997" by simp
    moreover have "4 * (y div 4) + y mod 4 = y" "100 * (y div 100) + y mod 100 = y" "400 * (y div 400) + y mod 400 = y"
      by (rule mult_div_mod_eq)+
    moreover have "0 \<le> y mod 4" "y mod 100 < 100" "0 \<le> y mod 400" by simp_all
    ultimately show False using d(1,2) assms unfolding days_before_year_def by linarith
  qed
qed

lemma far_refused:
  assumes "253402300800 \<le> unix_sec t" "zone_off t = 0"
  shows "isl (time_MarshalJSON t)"
proof -
  have "2932897 \<le> local_sec t div 86400" using assms by (simp add: local_sec_def)
  from far_year [OF this] show ?thesis by (simp add: time_MarshalJSON_def year_of_def)
qed

text \<open>A payload whose timestamp counts milliseconds into the year 10000 or later passes the rules.\<close>

lemma far_accepted:
  assumes "dto_Timestamp dto = Itoa n" "253402300800000 \<le> n" "n \<le> int64_max"
    and "0 <s dto_UserID dto" "dto_Type dto \<in> {''bet'', ''win''}"
    and "ParseToMinorUnits (dto_Amount dto) = Inr a" "0 <s a"
  shows "\<exists>t. ToDomain dto = Inr t \<and> Validate t = None \<and> 253402300800 \<le> unix_sec (Timestamp t)
    \<and> zone_off (Timestamp t) = 0"
proof -
  have n: "in_int64 n" using assms(2,3) by (simp add: in_int64_def)
  then have w: "sint (word_of_int n :: int64) = n" by (rule sint_word_of_int64_id)
  have time: "parsed_or_zero (Itoa n) = \<lparr>unix_sec = n div 1000, nanos = n mod 1000 * 1000000, zone_off = 0\<rparr>"
    using Parse_numeric [OF n] assms(2) by (simp add: parsed_or_zero_def ParseUnix_def word_sless_alt w)
  have "\<not> dto_UserID dto <=s 0" "\<not> a <=s 0" using assms(4,7) by (simp_all add: signed.not_le)
  moreover have "253402300800 \<le> n div 1000" "IsValid (dto_Type dto) = None" using assms(2,5) by auto
  ultimately show ?thesis using assms(1,6) time by (simp add: ToDomain_def Validate_def del: IsValid_None)
qed

lemma encode_far:
  "\<lbrakk>r \<in> set rs; isl (time_MarshalJSON (resp_Timestamp r))\<rbrakk> \<Longrightarrow> isl (encode_body rs)"
proof -
  assume r: "r \<in> set rs" "isl (time_MarshalJSON (resp_Timestamp r))"
  then have "isl (encode_all rs)"
    by (induction rs) (auto simp: encode_response_def split: sum.splits)
  then show "isl (encode_body rs)" by (auto simp: encode_body_def split: sum.split)
qed

lemma undelivered_body:
  assumes "GetTransactions h ctx raw (new_response broken) d = (d', evs, w')" "undelivered h ctx raw broken d"
  shows "rw_body w' = []"
proof -
  let ?q = "ParseQuery raw"
  from assms(1) obtain d0 t0 d1 evs0 where n: "h_now h d = (d0, t0)"
    and b: "get_body h ctx raw (new_response broken) d0 = (d1, evs0, w')"
    by (rule GetTransactions_body)
  from assms(2) n obtain uid tp ts where q: "user_filter (query_get ?q ''user_id'') = Some uid"
    "type_filter (query_get ?q ''transaction_type'') = Some tp"
    "snd (snd (Service.GetTransactions (h_svc h) ctx uid tp d0)) = Inr ts"
    "broken \<noteq> None \<or> isl (encode_body (map NewTransactionResponse ts))"
    by (auto simp: undelivered_def split: option.splits sum.splits)
  have "rw_body (snd (write_transactions h ts (new_response broken))) = []"
    using q(4) by (auto simp: write_transactions_def rw_Write_def WriteHeader_def new_response_def Let_def
        split: sum.splits option.splits)
  moreover have "w' = snd (write_transactions h ts (new_response broken))"
    using b get_body_service [OF q(1,2) result3 [OF q(3)]] by simp
  ultimately show ?thesis by simp
qed

lemma far_undelivered:
  assumes drv: "pg_driver drv tbl clock micros of_micros" and p: "repo_db p"
    and h: "h = NewTransactionHandlerWithMetrics (NewTransactionService (postgres_port drv (Some p))) (TimeNow drv)"
    and run: "GetTransactions h ctx raw (new_response None) d = (d', evs, w')" and ok: "status_of w' = 200"
    and row: "tx_key micros t \<in> key_of ` set (tbl d)"
    and u: "user_filter (query_get (ParseQuery raw) ''user_id'') \<in> {Some 0, Some (UserID t)}"
    and ty: "type_filter (query_get (ParseQuery raw) ''transaction_type'') \<in> {Some None, Some (Some (Type t))}"
    and far: "253402300800 \<le> unix_sec (Timestamp t)" "zone_off (Timestamp t) = 0"
    and kept: "of_micros (micros (Timestamp t)) = Timestamp t"
  shows "undelivered h ctx raw None d"
proof -
  let ?q = "ParseQuery raw"
  obtain uid tp where f: "user_filter (query_get ?q ''user_id'') = Some uid"
    "type_filter (query_get ?q ''transaction_type'') = Some tp" using u ty by auto
  obtain d1 ms res where g: "Service.GetTransactions (h_svc h) ctx uid tp (fst (h_now h d)) = (d1, ms, res)"
    by (metis prod_cases3)
  with query_cases [OF run refl refl] ok f HTTPStatus_not_200 obtain ts where ts: "res = Inr ts"
    by (cases res) auto
  with g h have "Get drv (Some p) ctx uid tp (fst (TimeNow drv d)) = (d1, ms, Inr ts)"
    by (simp add: NewTransactionHandlerWithMetrics_def service_defs postgres_port_def)
  from pg_driver.Get_rows [OF drv this p] obtain rows where
    r: "mset rows = filter_mset (row_matches uid tp) (mset (tbl d))" "ts = map (tx_of_row of_micros) rows"
    by (metis pg_driver.now_tbl [OF drv])
  from row obtain r0 where r0: "r0 \<in> set (tbl d)" "key_of r0 = tx_key micros t" by auto
  with f u ty have "row_matches uid tp r0" by (auto simp: row_matches_def key_of_def tx_key_def)
  with r0(1) r(1) have "r0 \<in># mset rows" by simp
  then have "tx_of_row of_micros r0 \<in> set ts" by (simp add: r(2))
  moreover have "Timestamp (tx_of_row of_micros r0) = Timestamp t"
    using r0(2) far kept by (auto simp: tx_of_row_def tx_of_scan_def scanned_of_def key_of_def tx_key_def
        null_time_def IsZero_def)
  ultimately have "isl (encode_body (map NewTransactionResponse ts))"
    using far_refused [OF far] by (intro encode_far [of "NewTransactionResponse (tx_of_row of_micros r0)"])
      (auto simp: NewTransactionResponse_def)
  with f g ts show ?thesis by (simp add: undelivered_def)
qed

text \<open>
  C24: one far timestamp empties every listing that contains it. A payload whose timestamp counts
  milliseconds into the year 10000 or later, and is otherwise valid, is accepted. Once its row is
  in the table, at the database's precision, every query whose filters match it and that is
  answered with 200 has an empty body, whatever other rows match, and is counted with status 500
  and the reason \<open>encode_error\<close>; for every driver that keeps \<open>pg_driver\<close>.
\<close>

theorem far_timestamp_listing:
  assumes drv: "pg_driver drv tbl clock micros of_micros" and p: "repo_db p"
    and h: "h = NewTransactionHandlerWithMetrics (NewTransactionService (postgres_port drv (Some p))) (TimeNow drv)"
    and time: "dto_Timestamp dto = Itoa n" "253402300800000 \<le> n" "n \<le> int64_max"
    and dto: "0 <s dto_UserID dto" "dto_Type dto \<in> {''bet'', ''win''}"
      "ParseToMinorUnits (dto_Amount dto) = Inr a" "0 <s a"
    and run: "GetTransactions h ctx raw (new_response None) d = (d', evs, w')"
  shows "\<exists>t. ToDomain dto = Inr t \<and> Validate t = None
    \<and> (tx_key micros t \<in> key_of ` set (tbl d) \<and> of_micros (micros (Timestamp t)) = Timestamp t
       \<and> user_filter (query_get (ParseQuery raw) ''user_id'') \<in> {Some 0, Some (UserID t)}
       \<and> type_filter (query_get (ParseQuery raw) ''transaction_type'') \<in> {Some None, Some (Some (Type t))}
       \<and> status_of w' = 200
       \<longrightarrow> rw_body w' = [] \<and> (\<exists>ls. requests evs = [ls] \<and> map_of ls ''status'' = Some ''500''
             \<and> map_of ls ''reason'' = Some ''encode_error''))"
proof -
  from far_accepted [OF time dto] obtain t where t: "ToDomain dto = Inr t" "Validate t = None"
    "253402300800 \<le> unix_sec (Timestamp t)" "zone_off (Timestamp t) = 0" by blast
  note lost = far_undelivered [OF drv p h run _ _ _ _ t(3,4)]
  show ?thesis
  proof (intro exI [of _ t] conjI impI t(1,2))
    assume "tx_key micros t \<in> key_of ` set (tbl d) \<and> of_micros (micros (Timestamp t)) = Timestamp t
       \<and> user_filter (query_get (ParseQuery raw) ''user_id'') \<in> {Some 0, Some (UserID t)}
       \<and> type_filter (query_get (ParseQuery raw) ''transaction_type'') \<in> {Some None, Some (Some (Type t))}
       \<and> status_of w' = 200"
    then have u: "undelivered h ctx raw None d" using lost by blast
    from undelivered_body [OF run u] show "rw_body w' = []" .
    from request_count [OF h run] u show "\<exists>ls. requests evs = [ls] \<and> map_of ls ''status'' = Some ''500''
        \<and> map_of ls ''reason'' = Some ''encode_error''" by (auto simp: counted_as_def)
  qed
qed

definition far_dto :: TransactionDTO where
  "far_dto = \<lparr>dto_UserID = 9, dto_Type = ''win'', dto_Amount = ''1.00'', dto_Timestamp = ''253402300800000''\<rparr>"

definition far_tx :: transaction where
  "far_tx = \<lparr>ID = 0, UserID = 9, Type = ''win'', Amount = 100,
     Timestamp = \<lparr>unix_sec = 253402300800, nanos = 0, zone_off = 0\<rparr>, CreatedAt = zero_time\<rparr>"

definition far_rows :: refdb where
  "far_rows = fst (SaveBulk ref_driver (Some sample_repo) False [sample_tx 7, far_tx] (sample_db []))"

theorem far_timestamp_listing_witness:
  "length (db_rows far_rows) = 2
   \<and> (case GetTransactions sample_handler False [] (new_response None) far_rows of
        (d, evs, w) \<Rightarrow> status_of w = 200 \<and> rw_body w = []
          \<and> (\<exists>ls. requests evs = [ls] \<and> map_of ls ''status'' = Some ''500''))"
proof -
  obtain d evs w where r: "GetTransactions sample_handler False [] (new_response None) far_rows = (d, evs, w)"
    by (metis prod_cases3)
  have "ToDomain far_dto = Inr far_tx" by code_simp
  have db: "tx_key pg_micros far_tx \<in> key_of ` set (db_rows far_rows)"
    "pg_of_micros (pg_micros (Timestamp far_tx)) = Timestamp far_tx" "length (db_rows far_rows) = 2" by code_simp+
  have q: "user_filter (query_get (ParseQuery []) ''user_id'') = Some 0"
    "type_filter (query_get (ParseQuery []) ''transaction_type'') = Some None" by code_simp+
  have "status_of (snd (snd (GetTransactions sample_handler False [] (new_response None) far_rows))) = 200" by code_simp
  with r have ok: "status_of w = 200" by simp
  have "dto_Timestamp far_dto = Itoa 253402300800000" "0 <s dto_UserID far_dto" "dto_Type far_dto \<in> {''bet'', ''win''}"
    "ParseToMinorUnits (dto_Amount far_dto) = Inr 100" "(0 :: int64) <s 100" by code_simp+
  from far_timestamp_listing [OF ref.pg_driver_axioms _ sample_handler_def this(1) _ _ this(2-5) r]
    \<open>ToDomain far_dto = Inr far_tx\<close> db q ok r show ?thesis by (auto simp: sample_repo_def)
qed

end
