(* ===== verification/Footprint.thy ===== *)
theory Footprint
  imports Fleet
begin

text \<open>
  What the consumer may do to its outside: it stores, commits and dead-letters nothing but the
  messages it was given. The contract \<open>footprint\<close> of an invariant \<open>I\<close> of the outside asks that
  \<open>I\<close> survives the calls about messages of a set \<open>M\<close>; then \<open>I\<close> holds through every run whose
  messages are in \<open>M\<close>, whatever fails.
\<close>

subsection \<open>Why a message is dead-lettered\<close>

text \<open>
  The reason in a dead letter: the verdict on a malformed message, an error of the service that
  is not worth a retry, or the last one of the configured attempts.
\<close>

definition dlq_reason :: "'w Consumer \<Rightarrow> kmsg \<Rightarrow> goerr \<Rightarrow> bool" where
  "dlq_reason c m e \<longleftrightarrow>
     (case parseAndValidateMsg m of
        Inl e' \<Rightarrow> e = e'
      | Inr t \<Rightarrow> \<exists>e'. (\<not> Retryable (Classify e') \<and> e = NonRetryable e')
          \<or> Retryable (Classify e') \<and> e = Wrapped (''process failed after ''
               @ Itoa (MaxProcessRetries (c_cfg c) + 1) @ '' attempts: '') e')"

definition txs_of :: "kmsg set \<Rightarrow> transaction set" where
  "txs_of M = {t. \<exists>m \<in> M. parseAndValidateMsg m = Inr t}"

text \<open>A batch of messages of \<open>M\<close> with their transactions.\<close>

definition batch_fits :: "kmsg set \<Rightarrow> worker \<Rightarrow> bool" where
  "batch_fits M wk \<longleftrightarrow>
     map parseAndValidateMsg (batchMsgs wk) = map Inr (batchDomains wk) \<and> set (batchMsgs wk) \<subseteq> M"

lemma batch_fits_txs: "batch_fits M wk \<Longrightarrow> set (batchDomains wk) \<subseteq> txs_of M"
proof
  fix t assume b: "batch_fits M wk" "t \<in> set (batchDomains wk)"
  then have "Inr t \<in> set (map parseAndValidateMsg (batchMsgs wk))"
    unfolding batch_fits_def by (metis image_eqI list.set_map)
  then obtain m where "m \<in> set (batchMsgs wk)" "parseAndValidateMsg m = Inr t" by auto
  with b(1) show "t \<in> txs_of M" by (auto simp: txs_of_def batch_fits_def)
qed

lemma batch_fits_simps [simp]:
  "batch_fits M new_worker" "batch_fits M (wk\<lparr>w_stopped := b\<rparr>) = batch_fits M wk"
  "batch_fits M (wk\<lparr>batchMsgs := [], batchDomains := []\<rparr>)"
  by (simp_all add: batch_fits_def) (simp add: new_worker_def)

lemma batch_fits_add:
  "\<lbrakk>batch_fits M wk; m \<in> M; parseAndValidateMsg m = Inr t\<rbrakk>
   \<Longrightarrow> batch_fits M (wk\<lparr>batchMsgs := batchMsgs wk @ [m], batchDomains := batchDomains wk @ [t]\<rparr>)"
  by (simp add: batch_fits_def)

subsection \<open>One message and one batch\<close>

locale footprint =
  fixes c :: "'w Consumer" and I :: "'w \<Rightarrow> bool" and M :: "kmsg set"
  assumes ctx_I: "CtxErr (c_out c) w = Some e \<Longrightarrow> ctx_error e"
    and cancel_I: "I w \<Longrightarrow> I (Cancel (c_out c) w)"
    and register_I: "\<lbrakk>I w; t \<in> txs_of M\<rbrakk> \<Longrightarrow> I (fst (Register (c_out c) d t w))"
    and registers_I: "\<lbrakk>I w; set ts \<subseteq> txs_of M\<rbrakk> \<Longrightarrow> I (fst (Registers (c_out c) d ts w))"
    and commit_I: "\<lbrakk>I w; set ms \<subseteq> M\<rbrakk> \<Longrightarrow> I (fst (CommitMessages (c_out c) ms w))"
    and write_I: "\<lbrakk>I w; WriteMessages (c_out c) = Some put; m \<in> M; dlq_reason c m e\<rbrakk>
        \<Longrightarrow> I (fst (put (dlq_payload c m e now) w))"
    and now_I: "I w \<Longrightarrow> I (fst (Now (c_out c) w))"
    and rand_I: "I w \<Longrightarrow> I (fst (Int63n (c_out c) n w))"
    and retries: "0 \<le> MaxProcessRetries (c_cfg c)"
    and sleep_I: "I w \<Longrightarrow> I (Sleep (c_out c) d w)"
begin

abbreviation ok :: "'w cstate \<Rightarrow> bool" where "ok s \<equiv> I (wld s)"

lemma ok_emit [simp]: "ok (emit m s) = ok s" "ok (add_inflight n s) = ok s" "ok (show_inflight s) = ok s"
  by (simp_all add: consumer_defs)

lemma ok_now: "ok s \<Longrightarrow> ok (fst (c_now c s))"
  using now_I by (simp add: c_now_def case_prod_beta)

lemma ok_observe: "ok s \<Longrightarrow> ok (observe_processing c ls t s)" "ok s \<Longrightarrow> ok (set_last_success c s)"
  "ok s \<Longrightarrow> ok (observeLag c m s)"
  using ok_now by (simp_all add: observe_processing_def set_last_success_def observeLag_def Let_def
      case_prod_beta)

lemma ok_fatal: "ok s \<Longrightarrow> ok (triggerFatal c e s)"
  using cancel_I by (simp add: triggerFatal_def)

lemma ok_sleep: "ok s \<Longrightarrow> oall ok (sleepBackoff c n s)" "ok s \<Longrightarrow> oall ok (pauseWithJitter c s)"
  using sleep_I rand_I by (simp_all add: pauseWithJitter_def sleepBackoff_def Let_def case_prod_beta)

lemma ok_route:
  assumes "ok s" "m \<in> M" "dlq_reason c m e"
  shows "ok (fst (routeToDLQ c m e s))"
proof (cases "WriteMessages (c_out c)")
  case (Some put)
  from write_I [OF _ Some assms(2,3)] ok_now [OF assms(1)] Some show ?thesis
    by (simp add: routeToDLQ_def Let_def case_prod_beta split: option.split)
qed (use assms in \<open>simp add: routeToDLQ_def\<close>)

lemma ok_commit: "\<lbrakk>ok s; m \<in> M\<rbrakk> \<Longrightarrow> ok (fst (commit c m s))"
  using commit_I [of _ "[m]"] by (simp add: commit_def Let_def case_prod_beta split: option.split)

lemma ok_attempts:
  assumes "ok s" "m \<in> M" "parseAndValidateMsg m = Inr t" "a + int n = MaxProcessRetries (c_cfg c) + 1"
  shows "oall (\<lambda>(s', r). ok s' \<and> (\<forall>e. r = Some e \<longrightarrow> ctx_error e \<or> dlq_reason c m e)) (process_attempts c t n a s)"
  using assms
proof (induction n arbitrary: a s)
  case (Suc n)
  obtain w err where r: "Register (c_out c) (millis (ProcessTimeoutMs (c_cfg c))) t (wld s) = (w, err)"
    by (metis surj_pair)
  from Suc.prems(2,3) have "t \<in> txs_of M" by (auto simp: txs_of_def)
  with register_I Suc.prems(1) r have w: "I w" by (metis fst_conv)
  with r Suc.prems show ?case
    by (auto simp: Let_def dlq_reason_def ctx_I split: option.split
        intro!: oall_bind [OF ok_sleep(1)] oall_mono [OF Suc.IH])
qed simp

lemma ok_process:
  assumes "ok s" "m \<in> M"
  shows "oall (\<lambda>(s', r). ok s' \<and> (\<forall>e. r = Some e \<longrightarrow> ctx_error e \<or> dlq_reason c m e)) (processMessageWithRetries c m s)"
  using assms retries ok_attempts [OF assms(1,2)]
  by (auto simp: processMessageWithRetries_def dlq_reason_def split: sum.split)

lemma ok_dlq_loop:
  assumes "ok s" "m \<in> M" "dlq_reason c m e"
  shows "oall (\<lambda>(s', b). ok s') (dlq_loop f c m e s)"
  using assms(1)
proof (induction f arbitrary: s)
  case (Suc f)
  from ok_route [OF Suc.prems assms(2,3)] show ?case
    by (auto simp: Let_def case_prod_beta split: option.split
        intro!: oall_bind [OF ok_sleep(2)] oall_mono [OF Suc.IH] ok_fatal)
qed simp

lemma ok_commit_loop: "\<lbrakk>ok s; m \<in> M\<rbrakk> \<Longrightarrow> oall ok (commit_loop f c m s)"
proof (induction f arbitrary: s)
  case (Suc f)
  from ok_commit [OF Suc.prems] Suc.prems(2) show ?case
    by (auto simp: Let_def case_prod_beta
        intro!: oall_bind [OF ok_sleep(2)] oall_mono [OF Suc.IH])
qed simp

lemma ok_bulk_commit: "\<lbrakk>ok s; set ms \<subseteq> M\<rbrakk> \<Longrightarrow> oall ok (bulk_commit_loop f c ms s)"
proof (induction f arbitrary: s)
  case (Suc f)
  from commit_I [OF Suc.prems] Suc.prems(2) show ?case
    by (auto simp: Let_def case_prod_beta
        intro!: oall_bind [OF ok_sleep(2)] oall_mono [OF Suc.IH])
qed simp

lemma ok_handle:
  assumes "ok s" "m \<in> M"
  shows "oall ok (handleMessage f c m s)"
proof -
  obtain s1 t0 where n: "c_now c (observeLag c m s) = (s1, t0)" by (metis surj_pair)
  have s1: "ok s1" using ok_now [OF ok_observe(3) [OF assms(1)], of m] n by simp
  show ?thesis unfolding handleMessage_def Let_def n prod.case
    by (rule oall_bind [OF ok_process [OF s1 assms(2)]])
      (auto simp: ctx_error_def assms(2) split: option.split
        intro!: oall_bind [OF ok_dlq_loop] ok_commit_loop ok_observe)
qed

lemma ok_each:
  "\<lbrakk>ok s; set ms \<subseteq> M\<rbrakk> \<Longrightarrow> oall ok (handle_each f c ms s)"
proof (induction ms arbitrary: s)
  case (Cons m ms)
  then show ?case by (auto intro!: oall_bind [OF ok_handle])
qed simp

lemma ok_bulk_attempts: "\<lbrakk>ok s; set ts \<subseteq> txs_of M\<rbrakk> \<Longrightarrow> oall (\<lambda>(s', r). ok s') (bulk_attempts c ts n a e s)"
proof (induction n arbitrary: a e s)
  case (Suc n)
  obtain w err where r: "Registers (c_out c) (millis (ProcessTimeoutMs (c_cfg c))) ts (wld s) = (w, err)"
    by (metis surj_pair)
  from registers_I [OF Suc.prems] r have "I w" by (metis fst_conv)
  with r Suc.prems(2) show ?case
    by (auto simp: Let_def split: option.split
        intro!: oall_bind [OF ok_sleep(1)] oall_mono [OF Suc.IH])
qed simp

lemma ok_flush_body:
  assumes "ok s" "set ms \<subseteq> M" "set ts \<subseteq> txs_of M"
  shows "oall ok (flush_body f c ms ts s)"
proof -
  obtain s1 t0 where n: "c_now c s = (s1, t0)" by (metis surj_pair)
  have s1: "ok s1" using ok_now [OF assms(1)] n by simp
  show ?thesis unfolding flush_body_def Let_def n prod.case
    by (rule oall_bind [OF ok_bulk_attempts [OF s1 assms(3)]])
      (auto split: bulk_result.split option.split
        intro!: oall_bind [OF ok_each] ok_bulk_commit ok_observe subsetD [OF assms(2)])
qed

lemma ok_flush:
  assumes "ok s" "batch_fits M wk"
  shows "oall (\<lambda>(wk', s'). ok s' \<and> batch_fits M wk') (flush f c wk s)"
proof -
  have "oall ok (flushBatch f c (batchMsgs wk) (batchDomains wk) s)"
    using assms batch_fits_txs [OF assms(2)]
    by (auto simp: flushBatch_def Let_def batch_fits_def intro!: oall_bind [OF ok_flush_body])
  with assms show ?thesis by (auto simp: flush_def intro: oall_bind)
qed

lemma ok_worker:
  assumes "ok s" "batch_fits M wk" "set (received [ev]) \<subseteq> M"
  shows "oall (\<lambda>(wk', s'). ok s' \<and> batch_fits M wk') (partitionWorker f c ev wk s)"
proof -
  have "oall (\<lambda>(wk', s'). ok s' \<and> batch_fits M wk') (worker_recv f c m wk s)" if "m \<in> M" for m
  proof (cases "parseAndValidateMsg m")
    case (Inl e)
    with assms(1,2) that show ?thesis
      by (auto simp: worker_recv_def intro!: oall_bind [OF ok_flush] oall_bind [OF ok_handle])
  next
    case (Inr t)
    from ok_flush [OF assms(1) batch_fits_add [OF assms(2) that Inr]] batch_fits_add [OF assms(2) that Inr]
    show ?thesis using Inr assms(1,2) by (simp add: worker_recv_def Let_def)
  qed
  with assms show ?thesis
    by (cases ev) (auto simp: partitionWorker_def intro!: ok_flush)
qed

end

subsection \<open>The whole consumer\<close>

text \<open>A state whose messages are all of \<open>M\<close>.\<close>

definition holds_only :: "kmsg set \<Rightarrow> 'w sys \<Rightarrow> bool" where
  "holds_only M s \<longleftrightarrow> (\<forall>p. batch_fits M (worker_of s p) \<and> set (queue_of s p) \<subseteq> M \<and> set (sending s p) \<subseteq> M)"

locale fleet_footprint = footprint c I M
  for c :: "'w Consumer" and I M +
  fixes b :: "'w endpoints"
  assumes fetch_I: "\<lbrakk>I w; FetchMessage b w = (w', r)\<rbrakk> \<Longrightarrow> I w' \<and> (\<forall>m. r = Inr m \<longrightarrow> m \<in> M)"
    and close_I: "I w \<Longrightarrow> I (CloseWriter b w)" "I w \<Longrightarrow> I (CloseReader b w)"
begin

lemma ok_close: "ok (shared s) \<Longrightarrow> ok (shared (close_all c b s))"
  using close_I cancel_I by (simp add: close_all_def Let_def)

lemma footprint_step:
  assumes "start_step f c b a s s'" "ok (shared s)" "holds_only M s"
  shows "ok (shared s') \<and> holds_only M s'"
  using assms(1)
proof (cases rule: start_step.cases)
  case (fetch_message w m)
  with fetch_I [OF assms(2), of w "Inr m"] assms(3) show ?thesis by (auto simp: holds_only_def)
next
  case (fetch_failed w e)
  note v = fetch_error_views [OF fetch_failed(4), simplified, OF fetch_failed(2)]
  from fetch_I [OF assms(2) fetch_failed(3)] have w: "ok (shared (set_world w s))" by simp
  have "oall ok (pauseWithJitter c (emit m (shared (set_world w s))))" for m
    using ok_sleep(2) w by simp
  with fetch_failed(4) w have "ok (shared s')"
    by (auto simp: fetch_error_def bind_eq_Some_conv oall_def split: if_splits)
  with v assms(3) show ?thesis by (simp add: holds_only_def)
next
  case (send m)
  from assms(3) have "set (sending s p) \<subseteq> M" for p by (simp add: holds_only_def)
  from this [of "k_partition m"] send(2) have "m \<in> M" by (simp add: sending_phase)
  with enqueue_views [OF send(3)] assms(2,3) show ?thesis by (auto simp: holds_only_def)
next
  case (turn p ev)
  note v = worker_turn_views [OF turn(2)]
  from assms(3) have "set (queue_of s p) \<subseteq> M" by (simp add: holds_only_def)
  with v(2) have q: "set (received [ev]) \<subseteq> M" "set (queue_of s' p) \<subseteq> M" by simp_all
  from ok_worker [OF assms(2) _ q(1)] v(1) assms(3)
  have w: "ok (shared s')" "batch_fits M (worker_of s' p)" by (auto simp: holds_only_def oall_def)
  have "batch_fits M (worker_of s' q) \<and> set (queue_of s' q) \<subseteq> M \<and> set (sending s' q) \<subseteq> M" for q
    using assms(3) v(3,4,6) q(2) w(2) by (cases "q = p") (simp_all add: holds_only_def)
  with w(1) show ?thesis by (simp add: holds_only_def)
next
  case signal
  with assms cancel_I show ?thesis by (simp add: holds_only_def)
next
  case drained
  with ok_close assms show ?thesis by (simp add: holds_only_def)
next
  case drain_timeout
  with ok_close assms show ?thesis by (simp add: holds_only_def)
qed (use assms(2,3) in \<open>simp_all add: holds_only_def\<close>)

lemma footprint_run:
  assumes "start_run f c b (init_sys s0) acts s" "ok s0"
  shows "ok (shared s) \<and> holds_only M s"
  using assms
proof (induction acts s rule: start_run.induct)
  case run_nil
  then show ?case by (simp add: holds_only_def)
next
  case (run_snoc acts s a s')
  then show ?case by (blast dest: footprint_step)
qed

end

end
