(* ===== verification/Provenance.thy ===== *)
theory Provenance
  imports Footprint
begin

text \<open>
  Where the rows, the commits and the dead letters of the processor come from: the contract
  \<open>fleet_footprint\<close> on the concrete world, and what follows for the table.
\<close>

subsection \<open>The footprint of the program\<close>

text \<open>
  A dead letter of a message: its source, the placeholder for its value, the fingerprint of the
  value, and the reason. Written under the key of the message.
\<close>

definition dead_letter_of :: "'w Consumer \<Rightarrow> kmsg \<Rightarrow> dlq_record \<Rightarrow> bool" where
  "dead_letter_of c m r \<longleftrightarrow>
     d_topic r = k_topic m \<and> d_partition r = k_partition m \<and> d_offset r = k_offset m
     \<and> d_key r = k_key m \<and> d_message_key r = k_key m \<and> d_headers r = k_headers m
     \<and> d_value r = ''[REDACTED]''
     \<and> d_value_sha256 r = Sha256Hex (c_out c) (k_value m) \<and> d_value_size r = int (length (k_value m))
     \<and> dlq_reason c m (d_error r)"

lemma dlq_payload_of: "dlq_reason c m e \<Longrightarrow> dead_letter_of c m (dlq_payload c m e now)"
  by (simp add: dead_letter_of_def dlq_payload_def payloadFingerprint_def)

text \<open>Rows added below the old ones, each the row of a message of \<open>M\<close>.\<close>

definition grown :: "(gotime \<Rightarrow> int) \<Rightarrow> kmsg set \<Rightarrow> row list \<Rightarrow> row list \<Rightarrow> bool" where
  "grown micros M rows rows' \<longleftrightarrow>
     (\<exists>new. rows' = rows @ new \<and> (\<forall>r \<in> set new. \<exists>t \<in> txs_of M. \<exists>now. r = row_of micros now t))"

lemma grown_refl [simp]: "grown micros M rows rows"
  by (simp add: grown_def)

lemma grown_trans: "\<lbrakk>grown micros M rows rows'; grown micros M rows' rows''\<rbrakk> \<Longrightarrow> grown micros M rows rows''"
  unfolding grown_def by (elim exE conjE) (auto simp: ball_Un)

lemma grown_keys:
  assumes "grown micros M rows rows'"
  shows "key_of ` set rows \<subseteq> key_of ` set rows'"
    and "key_of ` set rows' \<subseteq> key_of ` set rows \<union> tx_key micros ` txs_of M"
proof -
  from assms obtain new where n: "rows' = rows @ new"
    "\<forall>r \<in> set new. \<exists>t \<in> txs_of M. \<exists>now. r = row_of micros now t" by (auto simp: grown_def)
  show "key_of ` set rows \<subseteq> key_of ` set rows'" using n(1) by auto
  have "key_of r \<in> tx_key micros ` txs_of M" if "r \<in> set new" for r
  proof -
    from n(2) that obtain t now where "t \<in> txs_of M" "r = row_of micros now t" by blast
    then show ?thesis by simp
  qed
  then show "key_of ` set rows' \<subseteq> key_of ` set rows \<union> tx_key micros ` txs_of M"
    unfolding n(1) by (simp add: image_Un image_subset_iff)
qed

lemma insert_rows_new: "\<exists>new. insert_rows rs rows = rows @ new \<and> set new \<subseteq> set rs"
proof (induction rs arbitrary: rows)
  case (Cons r rs)
  obtain new where n: "insert_rows rs (insert_row r rows) = insert_row r rows @ new" "set new \<subseteq> set rs"
    using Cons.IH by blast
  show ?case
  proof (cases "key_of r \<in> set (map key_of rows)")
    case True
    with n show ?thesis by (intro exI [of _ new]) (auto simp: insert_row_def)
  next
    case False
    with n show ?thesis by (intro exI [of _ "r # new"]) (auto simp: insert_row_def)
  qed
qed simp

definition scripted :: "'d world \<Rightarrow> kmsg set" where
  "scripted w = {m. Inr m \<in> set (w_fetches w)}"

lemma fetches_tick [simp]: "w_fetches (tick w) = w_fetches w" "scripted (tick w) = scripted w"
  by (simp_all add: scripted_def tick_def split: list.split)

lemma world_out_sel:
  "CtxErr (world_out drv p b sha) w = (if w_cancelled w then Some (Sentinel CtxCanceled) else None)"
  "Cancel (world_out drv p b sha) w = w\<lparr>w_cancelled := True\<rparr>"
  "Register (world_out drv p b sha) = world_register drv p"
  "Registers (world_out drv p b sha) = world_registers drv p"
  "CommitMessages (world_out drv p b sha) = world_commit"
  "WriteMessages (world_out drv p b sha) = (if b then Some world_write else None)"
  "Now (world_out drv p b sha) w = (w, w_clock w)" "Int63n (world_out drv p b sha) n w = (w, 0)"
  "Sleep (world_out drv p b sha) d w = tick w" "Sha256Hex (world_out drv p b sha) = sha"
  by (simp_all add: world_out_def)

context pg_world
begin

definition world_only :: "row list \<Rightarrow> kmsg set \<Rightarrow> dlq_record set \<Rightarrow> kmsg set \<Rightarrow> 'd world \<Rightarrow> bool" where
  "world_only rows C D M w \<longleftrightarrow>
     grown micros M rows (tbl (w_db w))
     \<and> set (w_commits w) \<subseteq> C \<union> M
     \<and> (\<forall>r \<in> set (w_dlq w). r \<in> D
          \<or> (\<exists>m \<in> M. dead_letter_of (NewConsumerWithMetrics (world_out drv p has_writer sha) k) m r))
     \<and> scripted w \<subseteq> M"

lemma world_only_step:
  assumes "world_only rows C D M w"
    and "grown micros M (tbl (w_db w)) (tbl (w_db w'))"
    and "set (w_commits w') \<subseteq> set (w_commits w) \<union> M" and "scripted w' \<subseteq> scripted w"
    and "\<And>r. r \<in> set (w_dlq w') \<Longrightarrow> r \<in> set (w_dlq w)
          \<or> (\<exists>m \<in> M. dead_letter_of (NewConsumerWithMetrics (world_out drv p has_writer sha) k) m r)"
  shows "world_only rows C D M w'"
  unfolding world_only_def
proof (intro conjI ballI)
  note I = assms(1) [unfolded world_only_def]
  show "grown micros M rows (tbl (w_db w'))" using grown_trans [OF _ assms(2)] I by blast
  show "set (w_commits w') \<subseteq> C \<union> M" using assms(3) I [THEN conjunct2, THEN conjunct1] by blast
  show "scripted w' \<subseteq> M" using assms(4) I by (meson order_trans)
  fix r assume "r \<in> set (w_dlq w')"
  from assms(5) [OF this] I show "r \<in> D
      \<or> (\<exists>m \<in> M. dead_letter_of (NewConsumerWithMetrics (world_out drv p has_writer sha) k) m r)" by meson
qed

lemma world_only_tick: "world_only rows C D M w \<Longrightarrow> world_only rows C D M (tick w)"
  by (erule world_only_step) auto

lemma inserted_grown:
  assumes "inserted micros ts e rows rows'" "set ts \<subseteq> txs_of M"
  shows "grown micros M rows rows'"
  using assms(1) unfolding inserted_def
proof (elim disjE exE conjE)
  fix now assume "rows' = insert_rows (map (row_of micros now) ts) rows"
  with insert_rows_new [of "map (row_of micros now) ts" rows] assms(2) show ?thesis
    unfolding grown_def by fastforce
qed simp

lemma register_only:
  assumes "world_only rows C D M w" "t \<in> txs_of M"
  shows "world_only rows C D M (fst (world_register drv p d t w))"
proof -
  obtain d' ms e' where r: "Save drv (Some p) (w_cancelled w) t (w_db w) = (d', ms, e')"
    by (metis prod_cases3)
  have "world_only rows C D M (w\<lparr>w_db := d', w_metrics := w_metrics w @ ms\<rparr>)"
    by (rule world_only_step [OF assms(1)])
      (use inserted_grown [OF Save_inserted [OF r ready]] assms(2) in \<open>simp_all add: scripted_def\<close>)
  then show ?thesis
    by (simp add: world_register_def world_service_def service_defs postgres_port_def r world_only_tick)
qed

lemma registers_only:
  assumes "world_only rows C D M w" "set ts \<subseteq> txs_of M"
  shows "world_only rows C D M (fst (world_registers drv p d ts w))"
proof -
  obtain d' ms e' where r: "SaveBulk drv (Some p) (w_cancelled w) ts (w_db w) = (d', ms, e')"
    by (metis prod_cases3)
  have "world_only rows C D M (w\<lparr>w_db := d', w_metrics := w_metrics w @ ms\<rparr>)"
    by (rule world_only_step [OF assms(1)])
      (use inserted_grown [OF SaveBulk_inserted [OF r ready] assms(2)] in \<open>simp_all add: scripted_def\<close>)
  then show ?thesis
    by (simp add: world_registers_def world_service_def service_defs postgres_port_def r world_only_tick)
qed

end

sublocale pg_world \<subseteq> foot: fleet_footprint "NewConsumerWithMetrics (world_out drv p has_writer sha) k"
  "world_only rows C D M" M world_endpoints for rows C D M
proof unfold_locales
  let ?c = "NewConsumerWithMetrics (world_out drv p has_writer sha) k"
  have [simp]: "c_out ?c = world_out drv p has_writer sha" by (simp add: NewConsumerWithMetrics_def)
  fix w w' :: "'d world" and d t ts ms put n e m now r
  assume I: "world_only rows C D M w"
  note step = world_only_step [OF I]
  show "world_only rows C D M (Cancel (c_out ?c) w)" by (rule step) (simp_all add: world_out_sel scripted_def)
  show "t \<in> txs_of M \<Longrightarrow> world_only rows C D M (fst (Register (c_out ?c) d t w))"
    using register_only [OF I] by (simp add: world_out_sel)
  show "set ts \<subseteq> txs_of M \<Longrightarrow> world_only rows C D M (fst (Registers (c_out ?c) d ts w))"
    using registers_only [OF I] by (simp add: world_out_sel)
  show "set ms \<subseteq> M \<Longrightarrow> world_only rows C D M (fst (CommitMessages (c_out ?c) ms w))"
    by (rule step) (auto simp: world_out_sel world_commit_def case_prod_beta scripted_def)
  show "\<lbrakk>WriteMessages (c_out ?c) = Some put; m \<in> M; dlq_reason ?c m e\<rbrakk>
      \<Longrightarrow> world_only rows C D M (fst (put (dlq_payload ?c m e now) w))"
    by (rule step) (auto simp: world_out_sel world_write_def case_prod_beta scripted_def
        split: if_splits dest!: dlq_payload_of [where now = now])
  show "world_only rows C D M (fst (Now (c_out ?c) w))" "world_only rows C D M (fst (Int63n (c_out ?c) n w))"
    "world_only rows C D M (Sleep (c_out ?c) d w)"
    "world_only rows C D M (CloseWriter world_endpoints w)" "world_only rows C D M (CloseReader world_endpoints w)"
    using I world_only_tick by (simp_all add: world_out_sel world_endpoints_def)
  assume f: "FetchMessage world_endpoints w = (w', r)"
  have "world_only rows C D M w'"
    by (rule step) (use f in \<open>auto simp: world_endpoints_def world_fetch_def scripted_def
        split: if_splits list.splits\<close>)
  moreover have "\<forall>m. r = Inr m \<longrightarrow> m \<in> M"
    using f I by (auto simp: world_endpoints_def world_fetch_def world_only_def scripted_def
        split: if_splits list.splits)
  ultimately show "world_only rows C D M w' \<and> (\<forall>m. r = Inr m \<longrightarrow> m \<in> M)" by blast
next
  let ?c = "NewConsumerWithMetrics (world_out drv p has_writer sha) k"
  fix w :: "'d world" and e
  show "CtxErr (c_out ?c) w = Some e \<Longrightarrow> ctx_error e"
    by (auto simp: NewConsumerWithMetrics_def world_out_def ctx_error_def split: if_splits)
  show "0 \<le> MaxProcessRetries (c_cfg ?c)"
    by (simp add: NewConsumerWithMetrics_def normalize_retries)
qed

context pg_world
begin

lemma run_only:
  assumes "start_run f (NewConsumerWithMetrics (world_out drv p has_writer sha) k) world_endpoints (init_sys s0) acts s"
  shows "world_only (tbl (w_db (wld s0))) (set (w_commits (wld s0))) (set (w_dlq (wld s0)))
    (scripted (wld s0)) (wld (shared s))"
  by (rule foot.footprint_run [OF assms, THEN conjunct1]) (simp add: world_only_def)

lemma run_rows:
  assumes "start_run f (NewConsumerWithMetrics (world_out drv p has_writer sha) k) world_endpoints (init_sys s0) acts s"
  shows "\<exists>new. tbl (w_db (wld (shared s))) = tbl (w_db (wld s0)) @ new
      \<and> (\<forall>r \<in> set new. \<exists>m \<in> scripted (wld s0). \<exists>t now. parseAndValidateMsg m = Inr t \<and> r = row_of micros now t)"
    and "set (w_commits (wld (shared s))) \<subseteq> set (w_commits (wld s0)) \<union> scripted (wld s0)"
    and "\<forall>r \<in> set (w_dlq (wld (shared s))) - set (w_dlq (wld s0)). \<exists>m \<in> scripted (wld s0).
        dead_letter_of (NewConsumerWithMetrics (world_out drv p has_writer sha) k) m r"
proof -
  note only = run_only [OF assms, unfolded world_only_def]
  from only have "grown micros (scripted (wld s0)) (tbl (w_db (wld s0))) (tbl (w_db (wld (shared s))))" by blast
  then obtain new where new: "tbl (w_db (wld (shared s))) = tbl (w_db (wld s0)) @ new"
    "\<forall>r \<in> set new. \<exists>t \<in> txs_of (scripted (wld s0)). \<exists>now. r = row_of micros now t" unfolding grown_def by blast
  from new(2) have "\<forall>r \<in> set new. \<exists>m \<in> scripted (wld s0). \<exists>t now. parseAndValidateMsg m = Inr t \<and> r = row_of micros now t"
    unfolding txs_of_def by blast
  with new(1) show "\<exists>new. tbl (w_db (wld (shared s))) = tbl (w_db (wld s0)) @ new
      \<and> (\<forall>r \<in> set new. \<exists>m \<in> scripted (wld s0). \<exists>t now. parseAndValidateMsg m = Inr t \<and> r = row_of micros now t)"
    by blast
  from only show "set (w_commits (wld (shared s))) \<subseteq> set (w_commits (wld s0)) \<union> scripted (wld s0)"
    "\<forall>r \<in> set (w_dlq (wld (shared s))) - set (w_dlq (wld s0)). \<exists>m \<in> scripted (wld s0).
        dead_letter_of (NewConsumerWithMetrics (world_out drv p has_writer sha) k) m r" by blast+
qed

end

subsection \<open>Nothing is invented\<close>

text \<open>
  C6: the processor writes nothing but what it was given. In every run of \<open>Start\<close> on the
  consumer the program builds, whatever fails, the table only grows at its end, and every new
  row is the row of a valid message that the reader delivered; every new commit is of a
  delivered message; and every new dead letter is of a delivered message, is written under its
  key, carries its source and its headers, has the placeholder \<open>[REDACTED]\<close> where the value would
  be, with the hash and the size of the value, and names the reason: the
  verdict of the parser for a malformed message, an error not worth a retry, or the last of the
  configured attempts.
\<close>

theorem start_footprint:
  assumes w: "pg_world drv tbl clock micros of_micros p"
    and c: "c = NewConsumerWithMetrics (world_out drv p has_writer sha) k"
    and run: "Start f c world_endpoints acts s0 s" and M: "M = scripted (wld s0)"
  shows "(\<exists>new. tbl (w_db (wld (shared s))) = tbl (w_db (wld s0)) @ new
      \<and> (\<forall>r \<in> set new. \<exists>m \<in> M. \<exists>t now. parseAndValidateMsg m = Inr t \<and> r = row_of micros now t))
    \<and> set (w_commits (wld (shared s))) \<subseteq> set (w_commits (wld s0)) \<union> M
    \<and> (\<forall>r \<in> set (w_dlq (wld (shared s))) - set (w_dlq (wld s0)). \<exists>m \<in> M. dead_letter_of c m r)"
proof -
  from run c have r: "start_run f (NewConsumerWithMetrics (world_out drv p has_writer sha) k)
      world_endpoints (init_sys s0) acts s" by (simp add: Start_run)
  from pg_world.run_rows [OF w r] show ?thesis unfolding c M by (intro conjI)
qed

theorem start_footprint_witness:
  "\<exists>s :: refdb world sys. w_commits (wld (shared s)) = [good_msg 1, bad_msg 2]
     \<and> (\<forall>r \<in> set (w_dlq (wld (shared s))).
          (d_offset r = 1 \<or> d_offset r = 2) \<and> d_value r = ''[REDACTED]'')"
proof -
  obtain s where s: "Start 5 (sample_consumer True) world_endpoints sample_actions sample_start s"
    "w_commits (wld (shared s)) = [good_msg 1, bad_msg 2]" using sample_Start by blast
  have "scripted (wld sample_start) = {good_msg 1, bad_msg 2}" "w_dlq (wld sample_start) = []"
    by (auto simp: scripted_def sample_start_def start_state_def sample_world_def)
  with start_footprint [OF ref_world.pg_world_axioms sample_consumer_def s(1) refl]
  have "\<forall>r \<in> set (w_dlq (wld (shared s))). \<exists>m \<in> {good_msg 1, bad_msg 2}. dead_letter_of (sample_consumer True) m r"
    by simp
  then have "\<forall>r \<in> set (w_dlq (wld (shared s))).
      (d_offset r = 1 \<or> d_offset r = 2) \<and> d_value r = ''[REDACTED]''"
    by (auto simp: dead_letter_of_def)
  with s(2) show ?thesis by blast
qed

end
