(* ===== verification/App.thy ===== *)
theory App
  imports Fatal Api Provenance
begin

text \<open>
  The two programs: \<open>pkg/logger\<close>, the composition root \<open>internal/bootstrap\<close>, the shells of
  \<open>internal/app\<close> and the \<open>main\<close> functions of \<open>cmd/api\<close> and \<open>cmd/processor\<close> with their exit codes.
\<close>

subsection \<open>Logger\<close>

text \<open>
  \<open>strings.ToLower\<close>, as far as it can produce ASCII: two letters outside ASCII have an ASCII
  lower case, the dotted capital I and the Kelvin sign.
\<close>

fun ToLower :: "string \<Rightarrow> string" where
  "ToLower [] = []"
| "ToLower (a # cs) =
     (case cs of
        b # cs' \<Rightarrow>
          if code a = 0xC4 \<and> code b = 0xB0 then CHR ''i'' # ToLower cs'
          else (case cs' of
              c # cs'' \<Rightarrow>
                if code a = 0xE2 \<and> code b = 0x84 \<and> code c = 0xAA then CHR ''k'' # ToLower cs''
                else lower_char a # ToLower cs
            | [] \<Rightarrow> lower_char a # ToLower cs)
      | [] \<Rightarrow> [lower_char a])"

text \<open>The level of the default logger.\<close>

definition SetupLogger :: "string \<Rightarrow> log_level" where
  "SetupLogger level =
     (let l = ToLower level in
      if l = ''debug'' then LevelDebug else if l = ''info'' then LevelInfo
      else if l = ''warn'' then LevelWarn else if l = ''error'' then LevelError
      else LevelInfo)"

subsection \<open>Composition root\<close>

text \<open>\<open>time.Duration(n) * unit\<close> in 64 bits.\<close>

definition seconds :: "int \<Rightarrow> int64" where
  "seconds n = word_of_int n * 1000000000"

definition minutes :: "int \<Rightarrow> int64" where
  "minutes n = word_of_int n * 60000000000"

definition pool_config :: "Postgres \<Rightarrow> PoolConfig" where
  "pool_config p = \<lparr>MaxOpenConns = PoolMaxOpen p, MaxIdleConns = PoolMaxIdle p,
     ConnMaxLifetime = sint (minutes (ConnMaxLifetimeMinutes p))\<rparr>"

record http_server =
  Addr :: string
  ReadHeaderTimeout :: int64
  ReadTimeout :: int64
  WriteTimeout :: int64
  IdleTimeout :: int64

definition new_server :: "HTTP \<Rightarrow> http_server" where
  "new_server h =
     \<lparr>Addr = '':'' @ Port h, ReadHeaderTimeout = seconds (ReadHeaderTimeoutSeconds h),
      ReadTimeout = seconds (ReadTimeoutSeconds h), WriteTimeout = seconds (WriteTimeoutSeconds h),
      IdleTimeout = seconds (IdleTimeoutSeconds h)\<rparr>"

text \<open>\<open>closeOnce\<close> is the flag; a nil closer closes nothing.\<close>

record ('d, 'c) ApiApp =
  api_handler :: "('d, 'c) TransactionHandler"
  api_server :: http_server
  api_closer :: "('d \<Rightarrow> 'd) option"
  api_closed :: bool

definition db_closer :: "('d, 'c) sql_driver \<Rightarrow> postgres_repo \<Rightarrow> 'd \<Rightarrow> 'd" where
  "db_closer drv p d = fst (Close drv (Some p) d)"

definition repo_error :: "goerr \<Rightarrow> goerr" where
  "repo_error e = Wrapped ''initialize postgres repository: '' e"

definition NewApiApp ::
  "('d, 'c) sql_driver \<Rightarrow> Config \<Rightarrow> 'd \<Rightarrow> 'd \<times> metric_call list \<times> (goerr + ('d, 'c) ApiApp)" where
  "NewApiApp drv cfg d =
     (let (d, ms, r) = NewPostgresRepoWithPoolAndMetrics drv (URL (cfg_Postgres cfg))
                         (pool_config (cfg_Postgres cfg)) d
      in case r of
           Inl e \<Rightarrow> (d, ms, Inl (repo_error e))
         | Inr p \<Rightarrow>
             let svc = NewTransactionService (postgres_port drv (Some p));
                 handler = NewTransactionHandlerWithMetrics svc (TimeNow drv)
             in (d, ms, Inr \<lparr>api_handler = handler, api_server = new_server (cfg_HTTP cfg),
                   api_closer = Some (db_closer drv p), api_closed = False\<rparr>))"

text \<open>The processor over the world of theory World, whose database is the driver's state.\<close>

record 'd ProcessorApp =
  proc_consumer :: "'d world Consumer"
  proc_closer :: "('d \<Rightarrow> 'd) option"

definition NewProcessorApp ::
  "('d, bool) sql_driver \<Rightarrow> bool \<Rightarrow> (string \<Rightarrow> string) \<Rightarrow> Config \<Rightarrow> 'd world
    \<Rightarrow> 'd world \<times> (goerr + 'd ProcessorApp)" where
  "NewProcessorApp drv has_writer sha cfg w =
     (let (d, ms, r) = NewPostgresRepoWithPoolAndMetrics drv (URL (cfg_Postgres cfg))
                         (pool_config (cfg_Postgres cfg)) (w_db w);
          w = w\<lparr>w_db := d, w_metrics := w_metrics w @ ms\<rparr>
      in case r of
           Inl e \<Rightarrow> (w, Inl (repo_error e))
         | Inr p \<Rightarrow>
             (w, Inr \<lparr>proc_consumer = NewConsumerWithMetrics (world_out drv p has_writer sha) (cfg_Kafka cfg),
                   proc_closer = Some (db_closer drv p)\<rparr>))"

subsection \<open>Shells\<close>

text \<open>What ends the select of \<open>Run\<close>: the stop signal, or \<open>ListenAndServe\<close> returning an error.\<close>

datatype api_event = CtxDone | ListenError goerr

definition ErrServerClosed :: goerr where
  "ErrServerClosed = Opaque ''http: Server closed''"

definition closeResources :: "('d, 'c) ApiApp \<Rightarrow> 'd \<Rightarrow> ('d, 'c) ApiApp \<times> 'd" where
  "closeResources a d =
     (if api_closed a then (a, d)
      else (a\<lparr>api_closed := True\<rparr>, case api_closer a of None \<Rightarrow> d | Some close \<Rightarrow> close d))"

text \<open>
  A request the server receives, with its context and the error of writing to its connection, and
  the requests it serves one after the other, each with its metric events and its response.
\<close>

record 'c request =
  rq_method :: string
  rq_path :: string
  rq_query :: string
  rq_ctx :: 'c
  rq_broken :: "goerr option"

type_synonym 'c answer = "'c request \<times> sink_event list \<times> response"

fun serve_all ::
  "('d, 'c) TransactionHandler \<Rightarrow> (string \<Rightarrow> response \<Rightarrow> response) \<Rightarrow> 'c request list \<Rightarrow> 'd
    \<Rightarrow> 'd \<times> 'c answer list" where
  "serve_all h swagger [] d = (d, [])"
| "serve_all h swagger (q # qs) d =
     (let (d, evs, w) = serve h swagger (rq_ctx q) (rq_method q) (rq_path q) (rq_query q)
                          (new_response (rq_broken q)) d;
          (d, as) = serve_all h swagger qs d
      in (d, (q, evs, w) # as))"

text \<open>
  \<open>Run\<close>: \<open>reqs\<close> are the requests served until \<open>ev\<close> ends the select, \<open>late\<close> those in flight that
  \<open>server.Shutdown\<close> waits for. The error of \<open>Shutdown\<close> is only logged.
\<close>

definition ApiApp_Run ::
  "(string \<Rightarrow> response \<Rightarrow> response) \<Rightarrow> 'c request list \<Rightarrow> api_event \<Rightarrow> 'c request list \<Rightarrow> ('d, 'c) ApiApp
    \<Rightarrow> 'd \<Rightarrow> ('d, 'c) ApiApp \<times> 'd \<times> 'c answer list \<times> goerr option" where
  "ApiApp_Run swagger reqs ev late a d =
     (let (d, served) = serve_all (api_handler a) swagger reqs d;
          fatal = (case ev of CtxDone \<Rightarrow> None
                    | ListenError e \<Rightarrow> if e \<noteq> ErrServerClosed then Some e else None)
      in case fatal of
           Some e \<Rightarrow> (let (a, d) = closeResources a d in (a, d, served, Some e))
         | None \<Rightarrow>
             (let (d, finished) = serve_all (api_handler a) swagger late d;
                  (a, d) = closeResources a d
              in (a, d, served @ finished, None)))"

text \<open>\<open>ProcessorApp.Run\<close> after the consumer returned with \<open>err\<close>.\<close>

definition ProcessorApp_Run :: "'d ProcessorApp \<Rightarrow> 'd world \<times> goerr option \<Rightarrow> 'd world \<times> goerr option" where
  "ProcessorApp_Run a started =
     (let (w, err) = started;
          w = (case proc_closer a of None \<Rightarrow> w | Some close \<Rightarrow> w\<lparr>w_db := close (w_db w)\<rparr>)
      in (w, err))"

subsection \<open>main\<close>

definition exit_code :: "goerr option \<Rightarrow> int" where
  "exit_code err = (if err = None then 0 else 1)"

definition api_main ::
  "config_env \<Rightarrow> Config option \<Rightarrow> ('d, 'c) sql_driver \<Rightarrow> (string \<Rightarrow> response \<Rightarrow> response)
    \<Rightarrow> 'c request list \<Rightarrow> api_event \<Rightarrow> 'c request list \<Rightarrow> 'd \<Rightarrow> 'd \<times> 'c answer list \<times> int" where
  "api_main env inst drv swagger reqs ev late d =
     (case fst (NewConfig env inst) of
        Inl e \<Rightarrow> (d, [], 1)
      | Inr cfg \<Rightarrow>
          (case NewApiApp drv cfg d of
             (d, ms, Inl e) \<Rightarrow> (d, [], 1)
           | (d, ms, Inr a) \<Rightarrow>
               (let (a, d, answers, err) = ApiApp_Run swagger reqs ev late a d
                in (d, answers, exit_code err))))"

text \<open>What \<open>main\<close> of the processor does up to the consumer, and after it.\<close>

definition processor_setup ::
  "config_env \<Rightarrow> Config option \<Rightarrow> ('d, bool) sql_driver \<Rightarrow> bool \<Rightarrow> (string \<Rightarrow> string) \<Rightarrow> 'd world
    \<Rightarrow> 'd world \<times> (goerr + 'd ProcessorApp)" where
  "processor_setup env inst drv has_writer sha w =
     (case fst (NewConfig env inst) of
        Inl e \<Rightarrow> (w, Inl e)
      | Inr cfg \<Rightarrow> NewProcessorApp drv has_writer sha cfg w)"

text \<open>\<open>main\<close> as a relation: the consumer may run in any of its ways until \<open>Start\<close> returns.\<close>

inductive processor_main ::
  "config_env \<Rightarrow> Config option \<Rightarrow> ('d, bool) sql_driver \<Rightarrow> bool \<Rightarrow> (string \<Rightarrow> string)
    \<Rightarrow> 'd world \<Rightarrow> 'd world \<Rightarrow> int \<Rightarrow> bool"
  for env inst drv has_writer sha w where
  no_start: "processor_setup env inst drv has_writer sha w = (w', Inl e)
    \<Longrightarrow> processor_main env inst drv has_writer sha w w' 1"
| started: "\<lbrakk>processor_setup env inst drv has_writer sha w = (w1, Inr a);
     Start f (proc_consumer a) world_endpoints acts (start_state w1) s; phase s = Returned;
     ProcessorApp_Run a (wld (shared s), result s) = (w', err)\<rbrakk>
    \<Longrightarrow> processor_main env inst drv has_writer sha w w' (exit_code err)"


subsection \<open>End to end\<close>

definition open_repo :: postgres_repo where
  "open_repo = \<lparr>repo_db = True, repo_metrics = True\<rparr>"

text \<open>The operations on the handle itself leave the table alone.\<close>

definition handle_keeps :: "('d, 'c) sql_driver \<Rightarrow> ('d \<Rightarrow> row list) \<Rightarrow> bool" where
  "handle_keeps drv tbl \<longleftrightarrow>
     (\<forall>d url. tbl (fst (OpenDB drv d url)) = tbl d) \<and> (\<forall>d m i l. tbl (SetPool drv d m i l) = tbl d)
     \<and> (\<forall>d. tbl (fst (PingDB drv d)) = tbl d) \<and> (\<forall>d. tbl (fst (CloseDB drv d)) = tbl d)"

lemma NewPostgresRepo_keeps:
  assumes "NewPostgresRepoWithPoolAndMetrics drv url cfg d = (d', ms, r)" "handle_keeps drv tbl"
  shows "tbl d' = tbl d" "case r of Inl e \<Rightarrow> Code (Classify (repo_error e)) = ''db_unavailable'' | Inr p \<Rightarrow> p = open_repo"
proof -
  have k: "tbl (fst (OpenDB drv d url)) = tbl d" "tbl (SetPool drv d m i l) = tbl d"
    "tbl (fst (PingDB drv d)) = tbl d" "tbl (fst (CloseDB drv d)) = tbl d" for d url m i l
    using assms(2) by (simp_all add: handle_keeps_def)
  show "tbl d' = tbl d"
    using assms(1) k by (auto simp: NewPostgresRepoWithPoolAndMetrics_def Let_def case_prod_beta
        split: option.splits)
  show "case r of Inl e \<Rightarrow> Code (Classify (repo_error e)) = ''db_unavailable'' | Inr p \<Rightarrow> p = open_repo"
    using assms(1) by (auto simp: NewPostgresRepoWithPoolAndMetrics_def Let_def case_prod_beta open_repo_def
        repo_error_def Classify_def split: option.splits)
qed

lemma db_closer_keeps: "handle_keeps drv tbl \<Longrightarrow> tbl (db_closer drv p d) = tbl d"
  by (simp add: db_closer_def Close_def handle_keeps_def case_prod_beta)

lemma processor_setup_keeps:
  assumes "processor_setup env inst drv has_writer sha w = (w1, r)" "handle_keeps drv tbl"
  shows "tbl (w_db w1) = tbl (w_db w)" "w_commits w1 = w_commits w" "w_dlq w1 = w_dlq w"
    "r = Inr a \<Longrightarrow> \<exists>k. proc_consumer a = NewConsumerWithMetrics (world_out drv open_repo has_writer sha) k
       \<and> proc_closer a = Some (db_closer drv open_repo)"
proof -
  have "tbl (w_db w1) = tbl (w_db w) \<and> w_commits w1 = w_commits w \<and> w_dlq w1 = w_dlq w
    \<and> (\<forall>a. r = Inr a \<longrightarrow> (\<exists>k. proc_consumer a = NewConsumerWithMetrics (world_out drv open_repo has_writer sha) k
       \<and> proc_closer a = Some (db_closer drv open_repo)))"
  proof (cases "fst (NewConfig env inst)")
    case (Inl e)
    with assms(1) show ?thesis by (auto simp: processor_setup_def)
  next
    case (Inr cfg)
    obtain d ms x where n: "NewPostgresRepoWithPoolAndMetrics drv (URL (cfg_Postgres cfg))
        (pool_config (cfg_Postgres cfg)) (w_db w) = (d, ms, x)" by (metis prod_cases3)
    from NewPostgresRepo_keeps [OF n assms(2)] Inr assms(1) n show ?thesis
      by (cases x) (auto simp: processor_setup_def NewProcessorApp_def)
  qed
  then show "tbl (w_db w1) = tbl (w_db w)" "w_commits w1 = w_commits w" "w_dlq w1 = w_dlq w"
    "r = Inr a \<Longrightarrow> \<exists>k. proc_consumer a = NewConsumerWithMetrics (world_out drv open_repo has_writer sha) k
       \<and> proc_closer a = Some (db_closer drv open_repo)" by blast+
qed

lemma processor_setup_fetches:
  "processor_setup env inst drv has_writer sha w = (w1, r) \<Longrightarrow> w_fetches w1 = w_fetches w"
  by (auto simp: processor_setup_def NewProcessorApp_def case_prod_beta Let_def split: sum.splits prod.splits)

text \<open>
  What a run of \<open>main\<close> is: nothing but the preparation, or a run of \<open>Start\<close> on a consumer over
  the same broker and table, with what is left of the world after it.
\<close>

lemma processor_main_run:
  assumes "processor_main env inst drv has_writer sha w w' status" "handle_keeps drv tbl"
  obtains (idle) "tbl (w_db w') = tbl (w_db w)" "w_commits w' = w_commits w" "w_dlq w' = w_dlq w" "status = 1"
  | (run) k f acts s0 s where
      "start_run f (NewConsumerWithMetrics (world_out drv open_repo has_writer sha) k) world_endpoints (init_sys s0) acts s"
      "fatal s0 = None" "tbl (w_db (wld s0)) = tbl (w_db w)" "w_commits (wld s0) = w_commits w"
      "w_dlq (wld s0) = w_dlq w" "w_fetches (wld s0) = w_fetches w"
      "tbl (w_db w') = tbl (w_db (wld (shared s)))" "w_commits w' = w_commits (wld (shared s))"
      "w_dlq w' = w_dlq (wld (shared s))" "status = exit_code (result s)"
  using assms(1)
proof (cases rule: processor_main.cases)
  case (no_start e)
  from idle processor_setup_keeps(1-3) [OF no_start(2) assms(2)] no_start(1) show ?thesis by simp
next
  case (started w1 a f acts s err)
  note su = processor_setup_keeps [OF started(2) assms(2)]
  from su(4) obtain k where c: "proc_consumer a = NewConsumerWithMetrics (world_out drv open_repo has_writer sha) k"
    and cl: "proc_closer a = Some (db_closer drv open_repo)" by blast
  have "tbl (w_db w') = tbl (w_db (wld (shared s)))" "w_commits w' = w_commits (wld (shared s))"
    "w_dlq w' = w_dlq (wld (shared s))" "err = result s"
    using started(5) cl db_closer_keeps [OF assms(2)] by (auto simp: ProcessorApp_Run_def)
  with run [of f k "start_state w1" acts s] started(1,3) c su(1-3) processor_setup_fetches [OF started(2)]
  show ?thesis by (simp add: Start_run start_state_def)
qed

text \<open>
  The processor program from \<open>main\<close> to its exit. For every driver that keeps \<open>pg_world\<close>,
  whatever configuration it reads, however its consumer runs, and whatever code it exits with,
  a message it newly committed has its row in the table or a dead letter that names it, and the
  table never holds a transaction twice.
\<close>

lemma processor_stored:
  assumes drv: "pg_world drv tbl clock micros of_micros open_repo" and keep: "handle_keeps drv tbl"
    and run: "processor_main env inst drv has_writer sha w w' status"
    and m: "m \<in> set (w_commits w') - set (w_commits w)"
  shows "(\<exists>t. parseAndValidateMsg m = Inr t \<and> tx_key micros t \<in> key_of ` set (tbl (w_db w')))
      \<or> (\<exists>r \<in> set (w_dlq w'). d_topic r = k_topic m \<and> d_partition r = k_partition m
            \<and> d_offset r = k_offset m)"
  using run keep
proof (cases rule: processor_main_run)
  case (run k f acts s0 s)
  from kafka_dispatch.run_handled [OF pg_world.dispatch_axioms [OF drv] run(1,2), of m] m run(4,8)
  have "handled (world_stored tbl micros (wld (shared s))) (set (w_dlq (wld (shared s)))) m" by simp
  with run(7,9) show ?thesis by (auto simp: handled_def dead_def world_stored_def)
qed (use m in simp)

lemma processor_distinct:
  assumes drv: "pg_world drv tbl clock micros of_micros open_repo" and keep: "handle_keeps drv tbl"
    and run: "processor_main env inst drv has_writer sha w w' status"
    and u: "distinct (map key_of (tbl (w_db w)))"
  shows "distinct (map key_of (tbl (w_db w')))"
  using run keep
proof (cases rule: processor_main_run)
  case (run k f acts s0 s)
  from kafka_dispatch.run_keeps_good [OF pg_world.dispatch_axioms [OF drv] run(1,2)] u run(3,7)
  show ?thesis by (simp add: pg_world.world_inv_def [OF drv])
qed (use u in simp)

lemma processor_status:
  assumes "processor_main env inst drv has_writer sha w w' status" "handle_keeps drv tbl"
  shows "status = 0 \<or> status = 1"
  using assms by (cases rule: processor_main_run) (auto simp: exit_code_def)

theorem processor_end_to_end:
  assumes drv: "pg_world drv tbl clock micros of_micros open_repo" and keep: "handle_keeps drv tbl"
    and run: "processor_main env inst drv has_writer sha w w' status"
    and u: "distinct (map key_of (tbl (w_db w)))"
  shows "(\<forall>m \<in> set (w_commits w') - set (w_commits w).
      (\<exists>t. parseAndValidateMsg m = Inr t \<and> tx_key micros t \<in> key_of ` set (tbl (w_db w')))
      \<or> (\<exists>r \<in> set (w_dlq w'). d_topic r = k_topic m \<and> d_partition r = k_partition m
            \<and> d_offset r = k_offset m))
    \<and> distinct (map key_of (tbl (w_db w'))) \<and> (status = 0 \<or> status = 1)"
  using processor_stored [OF drv keep run] processor_distinct [OF drv keep run u] processor_status [OF run keep]
  by blast

definition full_actions :: "action list" where
  "full_actions = sample_actions @ [Signal, FetchFailed (Sentinel CtxCanceled), Turn 0 ChanClosed, Drained]"

definition full_world :: "row list \<Rightarrow> refdb world" where
  "full_world rows = (sample_world [] [])\<lparr>w_db := (sample_db [])\<lparr>db_rows := rows\<rparr>,
     w_fetches := [Inr (good_msg 1), Inr (bad_msg 2)]\<rparr>"

abbreviation full_start :: "row list \<Rightarrow> refdb world" where
  "full_start rows \<equiv>
     (full_world rows)\<lparr>w_metrics := [connection_attempt ''started'' [], connection_attempt ''success'' []]\<rparr>"

definition no_env :: config_env where
  "no_env = \<lparr>Getenv = (\<lambda>_. []), Stat = (\<lambda>_. False), ReadConfig = (\<lambda>_ c. Inr c), ReadEnv = Inr\<rparr>"

lemma full_setup:
  "processor_setup no_env (Some empty_config) ref_driver True (\<lambda>_. ''digest'') (full_world rows)
   = (full_start rows, Inr \<lparr>proc_consumer = sample_consumer True, proc_closer = Some (db_closer ref_driver open_repo)\<rparr>)"
  by (simp add: processor_setup_def NewConfig_def NewProcessorApp_def NewPostgresRepoWithPoolAndMetrics_def
      ref_driver_def next_fault_def full_world_def sample_world_def sample_db_def sample_consumer_def
      sample_repo_def open_repo_def Let_def)

lemma ref_keeps: "handle_keeps ref_driver db_rows"
  by (auto simp: handle_keeps_def ref_driver_def case_prod_beta next_fault_def split: list.split)

lemma insert_row_empty: "insert_row r [] = [r]"
  by (simp add: insert_row_def)

lemma full_run:
  "\<exists>w'. processor_main no_env (Some empty_config) ref_driver True (\<lambda>_. ''digest'') (full_world rows) w' 0
    \<and> w_commits w' = [good_msg 1, bad_msg 2] \<and> map d_offset (w_dlq w') = [2]
    \<and> db_rows (w_db w') = insert_row (row_of pg_micros zero_time good_tx) rows"
proof -
  have "\<exists>s. Start 5 (sample_consumer True) world_endpoints full_actions
      (start_state (full_start rows)) s
    \<and> phase s = Returned \<and> result s = None \<and> w_commits (wld (shared s)) = [good_msg 1, bad_msg 2]
    \<and> map d_offset (w_dlq (wld (shared s))) = [2]
    \<and> db_rows (w_db (wld (shared s))) = insert_row (row_of pg_micros zero_time good_tx) rows"
    unfolding Start_run sample_normalized performs_run [symmetric]
    by (simp add: full_actions_def sample_actions_def full_world_def dispatch_defs run_defs consumer_defs
        world_defs fetch_error_def close_single all_stopped_def)
  then obtain s where s: "Start 5 (sample_consumer True) world_endpoints full_actions
      (start_state (full_start rows)) s"
    "phase s = Returned" "result s = None" "w_commits (wld (shared s)) = [good_msg 1, bad_msg 2]"
    "map d_offset (w_dlq (wld (shared s))) = [2]"
    "db_rows (w_db (wld (shared s))) = insert_row (row_of pg_micros zero_time good_tx) rows"
    by (elim exE conjE) (rule that)
  let ?a = "\<lparr>proc_consumer = sample_consumer True, proc_closer = Some (db_closer ref_driver open_repo)\<rparr>"
  have "ProcessorApp_Run ?a (wld (shared s), result s) =
      ((wld (shared s))\<lparr>w_db := db_closer ref_driver open_repo (w_db (wld (shared s)))\<rparr>, None)"
    using s(3) by (simp add: ProcessorApp_Run_def)
  from processor_main.started [OF full_setup _ s(2) this] s(1)
  have "processor_main no_env (Some empty_config) ref_driver True (\<lambda>_. ''digest'') (full_world rows)
    ((wld (shared s))\<lparr>w_db := db_closer ref_driver open_repo (w_db (wld (shared s)))\<rparr>) (exit_code None)"
    by simp
  with s(4-6) db_closer_keeps [OF ref_keeps] show ?thesis by (auto simp: exit_code_def)
qed

theorem processor_end_to_end_witness:
  "\<exists>w' :: refdb world. w_commits w' = [good_msg 1, bad_msg 2] \<and> distinct (map key_of (db_rows (w_db w')))"
proof -
  obtain w' where w: "processor_main no_env (Some empty_config) ref_driver True (\<lambda>_. ''digest'') (full_world []) w' 0"
    "w_commits w' = [good_msg 1, bad_msg 2]" using full_run by blast
  have "open_repo = sample_repo" by (simp add: open_repo_def sample_repo_def)
  then have p: "pg_world ref_driver db_rows db_now pg_micros pg_of_micros open_repo"
    using ref_world.pg_world_axioms by simp
  have "distinct (map key_of (db_rows (w_db (full_world []))))"
    by (simp add: full_world_def sample_world_def sample_db_def)
  from processor_end_to_end [OF p ref_keeps w(1) this] w(2) show ?thesis by blast
qed

subsection \<open>The life of the API program\<close>

text \<open>What ends the program in order: the stop signal, or a server that was closed.\<close>

definition orderly :: "api_event \<Rightarrow> bool" where
  "orderly ev \<longleftrightarrow> ev = CtxDone \<or> ev = ListenError ErrServerClosed"

definition open_handler :: "('d, 'c) sql_driver \<Rightarrow> ('d, 'c) TransactionHandler" where
  "open_handler drv = NewTransactionHandlerWithMetrics
     (NewTransactionService (postgres_port drv (Some open_repo))) (TimeNow drv)"

lemma serve_all_append:
  "serve_all h swagger (qs @ qs') d =
     (let (d1, as) = serve_all h swagger qs d; (d2, as') = serve_all h swagger qs' d1 in (d2, as @ as'))"
  by (induction qs arbitrary: d) (simp_all add: Let_def split: prod.split)

lemma serve_all_requests: "map fst (snd (serve_all h swagger qs d)) = qs"
  by (induction qs arbitrary: d) (simp_all add: Let_def split: prod.splits, metis snd_conv)

lemma db_closer_open: "db_closer drv open_repo d = fst (CloseDB drv d)"
  by (simp add: db_closer_def Close_def nil_db_def open_repo_def case_prod_beta)

lemma ApiApp_Run_serves:
  assumes "api_closer a = Some close" "\<not> api_closed a"
  shows "snd (ApiApp_Run swagger reqs ev late a d) =
    (case serve_all (api_handler a) swagger (if orderly ev then reqs @ late else reqs) d of
       (d', answers) \<Rightarrow> (close d', answers,
         case ev of ListenError e \<Rightarrow> if orderly ev then None else Some e | CtxDone \<Rightarrow> None))"
  using assms
  by (cases ev) (auto simp: ApiApp_Run_def closeResources_def orderly_def serve_all_append Let_def split: prod.split)

lemma api_main_cases:
  assumes "api_main env inst drv swagger reqs ev late d = (d', answers, status)"
  shows "case fst (NewConfig env inst) of
     Inl e \<Rightarrow> d' = d \<and> answers = [] \<and> status = 1
   | Inr cfg \<Rightarrow>
       (case NewPostgresRepoWithPoolAndMetrics drv (URL (cfg_Postgres cfg)) (pool_config (cfg_Postgres cfg)) d of
          (d1, ms, Inl e) \<Rightarrow> d' = d1 \<and> answers = [] \<and> status = 1 \<and> Code (Classify (repo_error e)) = ''db_unavailable''
        | (d1, ms, Inr p) \<Rightarrow>
            \<exists>d2. serve_all (open_handler drv) swagger (if orderly ev then reqs @ late else reqs) d1 = (d2, answers)
              \<and> d' = fst (CloseDB drv d2) \<and> status = (if orderly ev then 0 else 1))"
proof (cases "fst (NewConfig env inst)")
  case (Inl e)
  with assms show ?thesis by (simp add: api_main_def)
next
  case (Inr cfg)
  obtain d1 ms r where n: "NewPostgresRepoWithPoolAndMetrics drv (URL (cfg_Postgres cfg))
      (pool_config (cfg_Postgres cfg)) d = (d1, ms, r)" by (metis prod_cases3)
  then have r: "case r of Inl e \<Rightarrow> Code (Classify (repo_error e)) = ''db_unavailable'' | Inr p \<Rightarrow> p = open_repo"
    by (auto simp: NewPostgresRepoWithPoolAndMetrics_def Let_def case_prod_beta open_repo_def
        repo_error_def Classify_def split: option.splits)
  show ?thesis
  proof (cases r)
    case (Inl e)
    with assms Inr n r show ?thesis by (simp add: api_main_def NewApiApp_def)
  next
    case (Inr p)
    with r have p: "p = open_repo" by simp
    let ?a = "\<lparr>api_handler = open_handler drv, api_server = new_server (cfg_HTTP cfg),
      api_closer = Some (db_closer drv open_repo), api_closed = False\<rparr>"
    have "NewApiApp drv cfg d = (d1, ms, Inr ?a)"
      using n Inr p by (simp add: NewApiApp_def open_handler_def Let_def)
    with assms \<open>fst (NewConfig env inst) = Inr cfg\<close>
    have m: "(d', answers, status) = (case snd (ApiApp_Run swagger reqs ev late ?a d1) of
        (d, answers, err) \<Rightarrow> (d, answers, exit_code err))"
      by (simp add: api_main_def case_prod_beta)
    have "snd (ApiApp_Run swagger reqs ev late ?a d1) =
      (case serve_all (open_handler drv) swagger (if orderly ev then reqs @ late else reqs) d1 of
         (d', answers) \<Rightarrow> (db_closer drv open_repo d', answers,
           case ev of ListenError e \<Rightarrow> if orderly ev then None else Some e | CtxDone \<Rightarrow> None))"
      using ApiApp_Run_serves [of ?a "db_closer drv open_repo"] by simp
    with m \<open>fst (NewConfig env inst) = Inr cfg\<close> n Inr show ?thesis
      by (auto simp: db_closer_open exit_code_def orderly_def split: prod.splits api_event.splits)
  qed
qed

end
