(* ===== verification/System.thy ===== *)
theory System
  imports App
begin

text \<open>
  The two programs together: what the processor makes of the table from \<open>main\<close> to its exit, what
  the API does to it, and what the API shows of the processor's work.
\<close>

subsection \<open>The processor\<close>

text \<open>
  C1: exactly once, from \<open>main\<close> to the exit. For every driver that keeps \<open>pg_world\<close>, whatever
  configuration the program reads, whatever fails, however often a message is delivered, and
  whatever its exit code: the table has grown by rows at its end, each the row of a valid message
  of the reader, and no key is in it twice; and every message newly committed was delivered and
  has its transaction in the table or a dead letter that names it.
\<close>

theorem processor_exactly_once:
  assumes drv: "pg_world drv tbl clock micros of_micros open_repo" and keep: "handle_keeps drv tbl"
    and run: "processor_main env inst drv has_writer sha w w' status"
    and u: "distinct (map key_of (tbl (w_db w)))"
  shows "\<exists>new. tbl (w_db w') = tbl (w_db w) @ new \<and> distinct (map key_of (tbl (w_db w')))
    \<and> (\<forall>r \<in> set new. \<exists>m \<in> scripted w. \<exists>t now. parseAndValidateMsg m = Inr t \<and> r = row_of micros now t)
    \<and> (\<forall>m \<in> set (w_commits w') - set (w_commits w). m \<in> scripted w
        \<and> ((\<exists>t. parseAndValidateMsg m = Inr t \<and> tx_key micros t \<in> key_of ` set (tbl (w_db w')))
           \<or> (\<exists>r \<in> set (w_dlq w'). d_topic r = k_topic m \<and> d_partition r = k_partition m
                \<and> d_offset r = k_offset m)))
    \<and> (status = 0 \<or> status = 1)"
proof -
  have "\<exists>new. tbl (w_db w') = tbl (w_db w) @ new
      \<and> (\<forall>r \<in> set new. \<exists>m \<in> scripted w. \<exists>t now. parseAndValidateMsg m = Inr t \<and> r = row_of micros now t)
      \<and> set (w_commits w') \<subseteq> set (w_commits w) \<union> scripted w"
    using run keep
  proof (cases rule: processor_main_run)
    case (run k f acts s0 s)
    have "scripted (wld s0) = scripted w" using run(6) by (simp add: scripted_def)
    with pg_world.run_rows(1,2) [OF drv run(1)] run(3,4,7,8) show ?thesis by simp
  qed simp
  with processor_stored [OF drv keep run] processor_distinct [OF drv keep run u] processor_status [OF run keep]
  show ?thesis by blast
qed

lemma open_sample: "open_repo = sample_repo"
  by (simp add: open_repo_def sample_repo_def)

lemma full_db: "db_rows (w_db (full_world [])) = []"
  by (simp add: full_world_def sample_world_def sample_db_def)

theorem processor_exactly_once_witness:
  "\<exists>w' :: refdb world. w_commits w' = [good_msg 1, bad_msg 2]
     \<and> (\<forall>r \<in> set (db_rows (w_db w')). \<exists>t now. r = row_of pg_micros now t)"
proof -
  obtain w' where w: "processor_main no_env (Some empty_config) ref_driver True (\<lambda>_. ''digest'') (full_world []) w' 0"
    "w_commits w' = [good_msg 1, bad_msg 2]" using full_run by blast
  have "distinct (map key_of (db_rows (w_db (full_world []))))" by (simp add: full_db)
  from processor_exactly_once [OF ref_world.pg_world_axioms [folded open_sample] ref_keeps w(1) this] full_db w(2)
  show ?thesis by fastforce
qed

subsection \<open>The API\<close>

context pg_driver
begin

lemma Get_tbl:
  assumes "Get drv r c userID tType d = (d', ms, res)"
  shows "tbl d' = tbl d"
proof (rule timed_tbl [OF assms [unfolded Get_def]], goal_cases)
  case (1 d1 d2 ms1)
  have q: "tbl (fst (QueryContext drv d1 c (get_query (fst (get_conds userID tType))) args)) = tbl d1" for args
    by (rule query_tbl)
  from 1(2) q [of "snd (get_conds userID tType)"] have "tbl d2 = tbl d1"
    by (auto simp: Let_def split: if_splits prod.splits sum.splits option.splits)
  with 1 show ?case by simp
qed

end

lemma get_body_tbl:
  assumes drv: "pg_driver drv tbl clock micros of_micros"
    and h: "h = NewTransactionHandlerWithMetrics (NewTransactionService (postgres_port drv r)) (TimeNow drv)"
  shows "tbl (fst (get_body h ctx raw w d)) = tbl d"
  using pg_driver.Get_tbl [OF drv]
  by (auto simp: get_body_def h NewTransactionHandlerWithMetrics_def service_defs postgres_port_def Let_def
      split: sum.split prod.split)

text \<open>
  C16: the API only reads. Over every driver that keeps \<open>pg_driver\<close>, no request of any method and
  path changes the table, with or without a database; what is not a GET or HEAD of
  \<open>/transactions\<close> touches neither the database nor the metrics; and a request for transactions is
  answered with 200, 400, 500 or 503.
\<close>

theorem api_read_only:
  assumes drv: "pg_driver drv tbl clock micros of_micros"
    and h: "h = NewTransactionHandlerWithMetrics (NewTransactionService (postgres_port drv r)) (TimeNow drv)"
    and run: "serve h swagger ctx method path raw (new_response None) d = (d', evs, w')"
  shows "tbl d' = tbl d
    \<and> (if path = ''/transactions'' \<and> (method = ''GET'' \<or> method = ''HEAD'')
       then status_of w' \<in> {200, 400, 500, 503} else d' = d \<and> evs = [])"
proof (cases "path = ''/transactions'' \<and> (method = ''GET'' \<or> method = ''HEAD'')")
  case True
  with run have g: "GetTransactions h ctx raw (new_response None) d = (d', evs, w')"
    by (auto simp: serve_def NewRouter_def Let_def)
  have now: "tbl (fst (TimeNow drv x)) = tbl x" for x by (rule pg_driver.now_tbl [OF drv])
  from g obtain d0 t0 d1 evs0 where b: "h_now h d = (d0, t0)" "get_body h ctx raw (new_response None) d0 = (d1, evs0, w')"
    "d' = fst (observeDuration h ''get_transactions'' t0 d1)" by (rule GetTransactions_body)
  have "tbl d0 = tbl d" using now [of d] b(1) by (simp add: h NewTransactionHandlerWithMetrics_def)
  moreover have "tbl d1 = tbl d0" using get_body_tbl [OF drv h, of ctx raw "new_response None" d0] b(2) by simp
  moreover have "tbl d' = tbl d1"
    using now [of d1] b(3) by (simp add: h NewTransactionHandlerWithMetrics_def Http.observeDuration_def case_prod_beta)
  moreover have "HTTPStatus (Classify e) \<in> {400, 500, 503}" for e by (simp add: Classify_def)
  with query_cases [OF g refl refl] have "status_of w' \<in> {200, 400, 500, 503}"
    by (auto split: option.splits sum.splits)
  ultimately show ?thesis using True by simp
next
  case False
  with run show ?thesis
    by (auto simp: serve_def NewRouter_def Let_def split: if_splits)
qed

theorem api_read_only_witness:
  "\<exists>d evs w. serve sample_handler (\<lambda>_ w. w) False ''POST'' ''/transactions'' [] (new_response None) two_rows = (d, evs, w)
     \<and> db_rows d = db_rows two_rows \<and> status_of w = 405"
proof -
  obtain d evs w where r: "serve sample_handler (\<lambda>_ w. w) False ''POST'' ''/transactions'' []
      (new_response None) two_rows = (d, evs, w)" by (metis prod_cases3)
  then have "status_of w = 405"
    by (auto simp: serve_def NewRouter_def Let_def http_Error_def rw_Write_def WriteHeader_def status_of_def
        new_response_def)
  with r api_read_only [OF ref.pg_driver_axioms sample_handler_def r] show ?thesis by blast
qed

subsection \<open>The life of the API program\<close>

text \<open>Serving changes no table, whatever the state of the connection.\<close>

lemma serve_tbl:
  assumes drv: "pg_driver drv tbl clock micros of_micros"
    and h: "h = NewTransactionHandlerWithMetrics (NewTransactionService (postgres_port drv r)) (TimeNow drv)"
  shows "tbl (fst (serve h swagger ctx method path raw w d)) = tbl d"
proof -
  have now: "tbl (fst (TimeNow drv x)) = tbl x" for x by (rule pg_driver.now_tbl [OF drv])
  have "tbl (fst (GetTransactions h ctx raw w d)) = tbl d"
  proof -
    obtain d' evs w' where g: "GetTransactions h ctx raw w d = (d', evs, w')" by (metis prod_cases3)
    then obtain d0 t0 d1 evs0 where b: "h_now h d = (d0, t0)" "get_body h ctx raw w d0 = (d1, evs0, w')"
      "d' = fst (observeDuration h ''get_transactions'' t0 d1)" by (rule GetTransactions_body)
    have "tbl d0 = tbl d" using now [of d] b(1) by (simp add: h NewTransactionHandlerWithMetrics_def)
    moreover have "tbl d1 = tbl d0" using get_body_tbl [OF drv h, of ctx raw w d0] b(2) by simp
    moreover have "tbl d' = tbl d1"
      using now [of d1] b(3) by (simp add: h NewTransactionHandlerWithMetrics_def Http.observeDuration_def case_prod_beta)
    ultimately show ?thesis using g by simp
  qed
  then show ?thesis by (simp add: serve_def split: route.split)
qed

text \<open>A response shows the table: read back, its body is the rows that the query asks for.\<close>

definition shows_table :: "(int \<Rightarrow> gotime) \<Rightarrow> row list \<Rightarrow> string \<Rightarrow> response \<Rightarrow> bool" where
  "shows_table of_micros table raw w \<longleftrightarrow>
     (\<exists>uid ty rows. user_filter (query_get (ParseQuery raw) ''user_id'') = Some uid
        \<and> type_filter (query_get (ParseQuery raw) ''transaction_type'') = Some ty
        \<and> mset rows = filter_mset (row_matches uid ty) (mset table) \<and> desc_nulls_last rows
        \<and> json_parse (rw_body w) =
            Some (JArr (map (\<lambda>r. response_json (NewTransactionResponse (tx_of_row of_micros r))) rows)))"

lemma serve_shows:
  assumes drv: "pg_driver drv tbl clock micros of_micros"
    and run: "serve (open_handler drv) swagger ctx ''GET'' ''/transactions'' raw (new_response None) d = (d', evs, w)"
    and ok: "status_of w = 200"
    and pr: "\<forall>r \<in> set (tbl d). printable_response (NewTransactionResponse (tx_of_row of_micros r))"
  shows "shows_table of_micros (tbl d) raw w"
proof -
  from run have "GetTransactions (open_handler drv) ctx raw (new_response None) d = (d', evs, w)"
    by (simp add: serve_def NewRouter_def Let_def)
  from listing_rows [OF drv _ open_handler_def this ok pr] show ?thesis
    unfolding shows_table_def by (simp add: open_repo_def)
qed

lemma serve_all_shows:
  assumes drv: "pg_driver drv tbl clock micros of_micros"
    and run: "serve_all (open_handler drv) swagger qs d = (d', answers)"
  shows "tbl d' = tbl d \<and>
    (\<forall>(q, evs, w) \<in> set answers. rq_method q = ''GET'' \<and> rq_path q = ''/transactions'' \<and> rq_broken q = None
       \<and> status_of w = 200 \<and> (\<forall>r \<in> set (tbl d). printable_response (NewTransactionResponse (tx_of_row of_micros r)))
       \<longrightarrow> shows_table of_micros (tbl d) (rq_query q) w)"
  using run
proof (induction qs arbitrary: d d' answers)
  case (Cons q qs)
  obtain d1 evs w where s: "serve (open_handler drv) swagger (rq_ctx q) (rq_method q) (rq_path q) (rq_query q)
      (new_response (rq_broken q)) d = (d1, evs, w)" by (metis prod_cases3)
  obtain d2 as where r: "serve_all (open_handler drv) swagger qs d1 = (d2, as)" by fastforce
  from Cons.prems s r have a: "d' = d2" "answers = (q, evs, w) # as" by simp_all
  have t: "tbl d1 = tbl d"
    using serve_tbl [OF drv open_handler_def, of swagger "rq_ctx q" "rq_method q" "rq_path q" "rq_query q"
        "new_response (rq_broken q)" d] s by simp
  have "shows_table of_micros (tbl d) (rq_query q) w"
    if "rq_method q = ''GET''" "rq_path q = ''/transactions''" "rq_broken q = None" "status_of w = 200"
      "\<forall>r \<in> set (tbl d). printable_response (NewTransactionResponse (tx_of_row of_micros r))"
    by (rule serve_shows [OF drv _ that(4,5)]) (use s that(1-3) in simp)
  with Cons.IH [OF r] show ?case by (simp add: a t)
qed simp


definition sample_requests :: "bool request list" where
  "sample_requests =
     [\<lparr>rq_method = ''GET'', rq_path = ''/transactions'', rq_query = ''user_id=8'', rq_ctx = False, rq_broken = None\<rparr>,
      \<lparr>rq_method = ''GET'', rq_path = ''/health'', rq_query = [], rq_ctx = False, rq_broken = None\<rparr>]"


subsection \<open>From the topic to the listing\<close>

text \<open>The object that the API shows for a transaction: its time has gone through the table.\<close>

definition listed_json :: "(gotime \<Rightarrow> int) \<Rightarrow> (int \<Rightarrow> gotime) \<Rightarrow> transaction \<Rightarrow> json" where
  "listed_json micros of_micros t =
     JObj [(''user_id'', JNum (Itoa (sint (UserID t)))), (''transaction_type'', JStr (Type t)),
       (''amount'', JNum (Itoa (sint (Amount t)))),
       (''timestamp'', JStr (format_RFC3339Nano
          (if IsZero (Timestamp t) then zero_time else of_micros (micros (Timestamp t)))))]"

lemma listed_row:
  "key_of r = tx_key micros t \<Longrightarrow>
   response_json (NewTransactionResponse (tx_of_row of_micros r)) = listed_json micros of_micros t"
  by (auto simp: key_of_def tx_key_def response_json_def NewTransactionResponse_def listed_json_def
      tx_of_row_def tx_of_scan_def scanned_of_def null_time_def)

text \<open>
  C2: what the processor committed, the API lists. A message that a run of the processor program
  newly committed, that is valid and has no dead letter, is in the answer of every later
  \<open>GET /transactions\<close>, on a table that has kept its rows whatever was added since, that asks for its user or for all users, and for its type
  or for all types, and that is answered with 200 while all rows are printable: the body reads
  back as an array with an object of exactly the user, type and amount of the message and its
  time at the precision of the table.
\<close>

theorem committed_is_listed:
  assumes drv: "pg_world drv tbl clock micros of_micros open_repo" and keep: "handle_keeps drv tbl"
    and run: "processor_main env inst drv has_writer sha w w' status"
    and m: "m \<in> set (w_commits w') - set (w_commits w)" "parseAndValidateMsg m = Inr t"
    and live: "\<not> (\<exists>r \<in> set (w_dlq w'). d_topic r = k_topic m \<and> d_partition r = k_partition m
                  \<and> d_offset r = k_offset m)"
    and api: "h = NewTransactionHandlerWithMetrics (NewTransactionService (postgres_port drv (Some open_repo)))
                (TimeNow drv)"
    and req: "serve h swagger ctx ''GET'' ''/transactions'' raw (new_response None) d = (d', evs, resp)"
    and d: "set (tbl (w_db w')) \<subseteq> set (tbl d)" and ok: "status_of resp = 200"
    and u: "user_filter (query_get (ParseQuery raw) ''user_id'') \<in> {Some 0, Some (UserID t)}"
    and ty: "type_filter (query_get (ParseQuery raw) ''transaction_type'') \<in> {Some None, Some (Some (Type t))}"
    and pr: "\<forall>r \<in> set (tbl d). printable_response (NewTransactionResponse (tx_of_row of_micros r))"
  shows "\<exists>js. json_parse (rw_body resp) = Some (JArr js) \<and> listed_json micros of_micros t \<in> set js"
proof -
  have pg: "pg_driver drv tbl clock micros of_micros"
    using drv by (simp add: pg_world_def pg_repo_def)
  from processor_stored [OF drv keep run m(1)] m(2) live
  have "tx_key micros t \<in> key_of ` set (tbl d)" using d by auto
  then obtain r where r: "r \<in> set (tbl d)" "key_of r = tx_key micros t" by auto
  from req have "GetTransactions h ctx raw (new_response None) d = (d', evs, resp)"
    by (simp add: serve_def NewRouter_def Let_def)
  from listing_rows [OF pg _ api this ok pr] obtain uid tp rows where
    q: "user_filter (query_get (ParseQuery raw) ''user_id'') = Some uid"
      "type_filter (query_get (ParseQuery raw) ''transaction_type'') = Some tp"
      "mset rows = filter_mset (row_matches uid tp) (mset (tbl d))"
      "json_parse (rw_body resp) =
        Some (JArr (map (\<lambda>r. response_json (NewTransactionResponse (tx_of_row of_micros r))) rows))"
    by (auto simp: open_repo_def)
  have "row_matches uid tp r"
    using u ty q(1,2) r(2) by (auto simp: row_matches_def key_of_def tx_key_def)
  with r(1) have "r \<in># mset rows" by (simp add: q(3))
  then have "response_json (NewTransactionResponse (tx_of_row of_micros r))
      \<in> set (map (\<lambda>r. response_json (NewTransactionResponse (tx_of_row of_micros r))) rows)" by simp
  with q(4) listed_row [OF r(2)] show ?thesis by metis
qed

definition one_row :: refdb where
  "one_row = (sample_db [])\<lparr>db_rows := [row_of pg_micros zero_time good_tx]\<rparr>"

lemma one_row: "tx_of_row pg_of_micros (row_of pg_micros zero_time good_tx) = good_tx"
  by code_simp

lemma good_printable: "printable_response (NewTransactionResponse good_tx)"
proof -
  have "civil_of_days (local_sec (Timestamp good_tx) div 86400) = (2026, 3, 27)" by code_simp
  then have "year_of (Timestamp good_tx) = 2026" by (simp add: year_of_def good_tx_def)
  moreover have "html_safe ''bet''" by code_simp
  ultimately show ?thesis
    by (simp add: printable_response_def NewTransactionResponse_def printable_time_def)
      (simp add: good_tx_def)
qed

theorem committed_is_listed_witness:
  "\<exists>d evs w js. serve sample_handler (\<lambda>_ w. w) False ''GET'' ''/transactions'' ''user_id=11''
       (new_response None) one_row = (d, evs, w)
     \<and> json_parse (rw_body w) = Some (JArr js) \<and> listed_json pg_micros pg_of_micros good_tx \<in> set js"
proof -
  obtain w' where w: "processor_main no_env (Some empty_config) ref_driver True (\<lambda>_. ''digest'') (full_world []) w' 0"
    "w_commits w' = [good_msg 1, bad_msg 2]" "map d_offset (w_dlq w') = [2]"
    "db_rows (w_db w') = [row_of pg_micros zero_time good_tx]"
    using full_run [of "[]", unfolded insert_row_empty] by (elim exE conjE) (rule that)
  let ?g = "serve sample_handler (\<lambda>_ w. w) False ''GET'' ''/transactions'' ''user_id=11'' (new_response None) one_row"
  obtain d evs r where r: "?g = (d, evs, r)" by (metis prod_cases3)
  have "status_of (snd (snd ?g)) = 200" by code_simp
  with r have ok: "status_of r = 200" by simp
  have "w_commits (full_world []) = []" by (simp add: full_world_def sample_world_def)
  with w(2) have m: "good_msg 1 \<in> set (w_commits w') - set (w_commits (full_world []))" by simp
  have live: "\<not> (\<exists>r \<in> set (w_dlq w'). d_topic r = k_topic (good_msg 1) \<and> d_partition r = k_partition (good_msg 1)
      \<and> d_offset r = k_offset (good_msg 1))" using w(3) by (auto simp: map_eq_Cons_conv)
  have h: "sample_handler = NewTransactionHandlerWithMetrics
      (NewTransactionService (postgres_port ref_driver (Some open_repo))) (TimeNow ref_driver)"
    by (simp add: sample_handler_def open_sample)
  have q: "user_filter (query_get (ParseQuery ''user_id=11'') ''user_id'') = Some (UserID good_tx)"
    "type_filter (query_get (ParseQuery ''user_id=11'') ''transaction_type'') = Some None" by code_simp+
  have d: "set (db_rows (w_db w')) \<subseteq> set (db_rows one_row)" by (simp add: one_row_def w(4))
  have "\<forall>r \<in> set (db_rows one_row). printable_response (NewTransactionResponse (tx_of_row pg_of_micros r))"
    using one_row good_printable by (simp add: one_row_def)
  from committed_is_listed [OF ref_world.pg_world_axioms [folded open_sample] ref_keeps w(1) m parse_good live h r d ok _ _ this]
    q r show ?thesis by auto
qed

end
