(* ===== verification/Killable.thy ===== *)
theory Killable
  imports Provenance
begin

text \<open>
  A process that may be killed at any moment, between any two of its calls on the database and the
  broker. It is a process whose outside has stopped: its calls change nothing any more and its
  context is done. Such an outside keeps the contracts of the consumer, so all that holds of a run
  of the consumer holds of what a killed one leaves behind; and without a limit on its calls it is
  the process itself.
\<close>

subsection \<open>An outside that stops\<close>

text \<open>The number counts the calls that still take effect; \<open>None\<close> is no limit.\<close>

definition alive :: "('w \<Rightarrow> 'w \<times> 'r) \<Rightarrow> ('w \<Rightarrow> 'r) \<Rightarrow> 'w \<times> nat option \<Rightarrow> ('w \<times> nat option) \<times> 'r" where
  "alive call off x =
     (case x of
        (w, Some 0) \<Rightarrow> ((w, Some 0), off w)
      | (w, Some (Suc n)) \<Rightarrow> (let (w, r) = call w in ((w, Some n), r))
      | (w, None) \<Rightarrow> (let (w, r) = call w in ((w, None), r)))"

definition alive_unit :: "('w \<Rightarrow> 'w) \<Rightarrow> 'w \<times> nat option \<Rightarrow> 'w \<times> nat option" where
  "alive_unit call x =
     (case x of
        (w, Some 0) \<Rightarrow> (w, Some 0)
      | (w, Some (Suc n)) \<Rightarrow> (call w, Some n)
      | (w, None) \<Rightarrow> (call w, None))"

abbreviation killed_error :: goerr where
  "killed_error \<equiv> Sentinel CtxCanceled"

definition killable :: "'w outside \<Rightarrow> ('w \<times> nat option) outside" where
  "killable out =
     \<lparr>CtxErr = (\<lambda>(w, n). if n = Some 0 then Some killed_error else CtxErr out w),
      Cancel = (\<lambda>(w, n). if n = Some 0 then (w, n) else (Cancel out w, n)),
      Register = (\<lambda>d t. alive (Register out d t) (\<lambda>_. Some killed_error)),
      Registers = (\<lambda>d ts. alive (Registers out d ts) (\<lambda>_. Some killed_error)),
      CommitMessages = (\<lambda>ms. alive (CommitMessages out ms) (\<lambda>_. Some killed_error)),
      WriteMessages = map_option (\<lambda>put r. alive (put r) (\<lambda>_. Some killed_error)) (WriteMessages out),
      Now = alive (Now out) (\<lambda>w. snd (Now out w)),
      Int63n = (\<lambda>n. alive (Int63n out n) (\<lambda>w. snd (Int63n out n w))),
      Sleep = (\<lambda>d. alive_unit (Sleep out d)),
      Sha256Hex = Sha256Hex out, FloatRange = FloatRange out\<rparr>"

definition killable_endpoints :: "'w endpoints \<Rightarrow> ('w \<times> nat option) endpoints" where
  "killable_endpoints b =
     \<lparr>FetchMessage = alive (FetchMessage b) (\<lambda>_. Inl killed_error),
      CloseWriter = alive_unit (CloseWriter b), CloseReader = alive_unit (CloseReader b)\<rparr>"

definition killable_consumer :: "'w Consumer \<Rightarrow> ('w \<times> nat option) Consumer" where
  "killable_consumer c = \<lparr>c_out = killable (c_out c), c_cfg = c_cfg c\<rparr>"

lemma killable_sel [simp]:
  "CtxErr (killable out) (w, n) = (if n = Some 0 then Some killed_error else CtxErr out w)"
  "Cancel (killable out) (w, n) = (if n = Some 0 then (w, n) else (Cancel out w, n))"
  "Register (killable out) d t = alive (Register out d t) (\<lambda>_. Some killed_error)"
  "Registers (killable out) d ts = alive (Registers out d ts) (\<lambda>_. Some killed_error)"
  "CommitMessages (killable out) ms = alive (CommitMessages out ms) (\<lambda>_. Some killed_error)"
  "WriteMessages (killable out) = map_option (\<lambda>put r. alive (put r) (\<lambda>_. Some killed_error)) (WriteMessages out)"
  "Now (killable out) = alive (Now out) (\<lambda>w. snd (Now out w))"
  "Int63n (killable out) m = alive (Int63n out m) (\<lambda>w. snd (Int63n out m w))"
  "Sleep (killable out) d = alive_unit (Sleep out d)" "Sha256Hex (killable out) = Sha256Hex out"
  "FetchMessage (killable_endpoints b) = alive (FetchMessage b) (\<lambda>_. Inl killed_error)"
  "CloseWriter (killable_endpoints b) = alive_unit (CloseWriter b)"
  "CloseReader (killable_endpoints b) = alive_unit (CloseReader b)"
  "c_out (killable_consumer c) = killable (c_out c)" "c_cfg (killable_consumer c) = c_cfg c"
  by (simp_all add: killable_def killable_endpoints_def killable_consumer_def)

lemma normalized_killable [simp]: "normalized (killable_consumer c) = killable_consumer (normalized c)"
  by (simp add: normalized_def killable_consumer_def)

text \<open>A call of a killable outside is the call, or nothing.\<close>

lemma alive_cases:
  obtains (dead) "snd x = Some 0" "alive call off x = (x, off (fst x))"
  | (alive) n where "snd x \<noteq> Some 0" "alive call off x = ((fst (call (fst x)), n), snd (call (fst x)))"
proof (cases x)
  case (Pair w n)
  consider "n = None" | "n = Some 0" | k where "n = Some (Suc k)" by (metis nat.exhaust option.exhaust)
  then show ?thesis by cases (use Pair dead alive in \<open>simp_all add: alive_def case_prod_beta\<close>)
qed

lemma alive_unit_cases:
  obtains (dead) "snd x = Some 0" "alive_unit call x = x"
  | (alive) n where "snd x \<noteq> Some 0" "alive_unit call x = (call (fst x), n)"
proof (cases x)
  case (Pair w n)
  consider "n = None" | "n = Some 0" | k where "n = Some (Suc k)" by (metis nat.exhaust option.exhaust)
  then show ?thesis by cases (use Pair dead alive in \<open>simp_all add: alive_unit_def\<close>)
qed

text \<open>What every call of the outside keeps, every call of the killable one keeps.\<close>

lemma alive_keeps: "\<lbrakk>I (fst x); \<And>w. I w \<Longrightarrow> I (fst (call w))\<rbrakk> \<Longrightarrow> I (fst (fst (alive call off x)))"
  by (rule alive_cases [of x call off]) simp_all

lemma alive_unit_keeps: "\<lbrakk>I (fst x); \<And>w. I w \<Longrightarrow> I (call w)\<rbrakk> \<Longrightarrow> I (fst (alive_unit call x))"
  by (rule alive_unit_cases [of x call]) simp_all

lemma alive_result: "alive call off x = (y, r) \<Longrightarrow> r = off (fst x) \<and> y = x \<or> (\<exists>w. call (fst x) = (w, r) \<and> fst y = w)"
  by (rule alive_cases [of x call off]) (auto simp: prod_eq_iff)

lemma killed_ctx: "CtxErr (killable out) x = (if snd x = Some 0 then Some killed_error else CtxErr out (fst x))"
  by (cases x) simp

subsection \<open>The contracts\<close>

abbreviation (input) at_world :: "('w \<Rightarrow> 'a) \<Rightarrow> 'w \<times> nat option \<Rightarrow> 'a" where
  "at_world g x \<equiv> g (fst x)"

lemma step_alive:
  assumes "\<And>w. outside_step out stored dlq committed good C w (fst (call w))"
  shows "outside_step (killable out) (at_world stored) (at_world dlq) (at_world committed) (at_world good) C
    x (fst (alive call off x))"
  by (rule alive_cases [of x call off])
    (use assms [of "fst x"] in \<open>auto simp: outside_step_def killed_ctx\<close>)

lemma step_alive_unit:
  assumes "\<And>w. outside_step out stored dlq committed good C w (call w)"
  shows "outside_step (killable out) (at_world stored) (at_world dlq) (at_world committed) (at_world good) C
    x (alive_unit call x)"
  by (rule alive_unit_cases [of x call])
    (use assms [of "fst x"] in \<open>auto simp: outside_step_def killed_ctx\<close>)


context consumer_env
begin

lemma killable_env:
  "consumer_env (killable out) (at_world stored) (at_world dlq) (at_world committed) (at_world good)"
proof unfold_locales
  let ?out = "killable out"
  let ?step = "outside_step ?out (at_world stored) (at_world dlq) (at_world committed) (at_world good)"
  fix x x' e d t ts ms put r n
  show "CtxErr ?out x = Some e \<Longrightarrow> errors_Is e CtxCanceled \<or> errors_Is e CtxDeadlineExceeded"
    using ctx_err [of "fst x" e] by (auto simp: killed_ctx split: if_splits)
  show "?step {} x (Cancel ?out x)"
    using cancel_step [of "fst x"] by (cases x) (auto simp: outside_step_def killed_ctx)
  show "CtxErr ?out (Cancel ?out x) \<noteq> None"
    using cancel_done [of "fst x"] by (cases x) (auto simp: killed_ctx)
  show "?step {} x (fst (Register ?out d t x))" using step_alive [OF register_step] by simp
  show "?step {} x (fst (Registers ?out d ts x))" using step_alive [OF registers_step] by simp
  show "?step (set ms) x (fst (CommitMessages ?out ms x))" using step_alive [OF commit_step] by simp
  show "?step {} x (fst (Now ?out x))" using step_alive [OF now_step] by simp
  show "?step {} x (fst (Int63n ?out n x))" using step_alive [OF rand_step] by simp
  show "?step {} x (Sleep ?out d x)" using step_alive_unit [OF sleep_step] by simp
  show "WriteMessages ?out = Some put \<Longrightarrow> ?step {} x (fst (put r x))"
    by (auto intro!: step_alive write_step)
  show "Register ?out d t x = (x', None) \<Longrightarrow> t \<in> stored (fst x')"
    using register_ok by (fastforce dest: alive_result)
  show "Registers ?out d ts x = (x', None) \<Longrightarrow> set ts \<subseteq> stored (fst x')"
    using registers_ok by (fastforce dest: alive_result)
  show "CommitMessages ?out ms x = (x', None) \<Longrightarrow> set ms \<subseteq> committed (fst x')"
    using commit_ok by (fastforce dest: alive_result)
  show "\<lbrakk>WriteMessages ?out = Some put; put r x = (x', None)\<rbrakk> \<Longrightarrow> r \<in> dlq (fst x')"
    using write_ok by (fastforce dest: alive_result)
  show "CtxErr ?out x \<noteq> None \<Longrightarrow> snd (Register ?out d t x) \<noteq> None"
    using register_done [of "fst x" d t]
    by (auto simp: killed_ctx intro: alive_cases [of x "Register out d t" "\<lambda>_. Some killed_error"] split: if_splits)
  show "\<lbrakk>CtxErr ?out x \<noteq> None; ts \<noteq> []\<rbrakk> \<Longrightarrow> snd (Registers ?out d ts x) \<noteq> None"
    using registers_done [of "fst x" ts d]
    by (auto simp: killed_ctx intro: alive_cases [of x "Registers out d ts" "\<lambda>_. Some killed_error"] split: if_splits)
qed

end

context kafka_dispatch
begin

lemma killable_dispatch:
  "kafka_dispatch (killable_consumer c) (at_world stored) (at_world dlq) (at_world committed) (at_world good)
     (killable_endpoints b)"
proof (intro kafka_dispatch.intro kafka_consumer.intro kafka_consumer_axioms.intro kafka_dispatch_axioms.intro)
  show "consumer_env (c_out (killable_consumer c)) (at_world stored) (at_world dlq) (at_world committed) (at_world good)"
    using killable_env by simp
  show "0 \<le> MaxProcessRetries (c_cfg (killable_consumer c))" using retries by simp
qed (use step_alive [OF fetch_step] step_alive_unit [OF close_writer_step]
    step_alive_unit [OF close_reader_step] in simp_all)

text \<open>What a run does to its outside.\<close>

lemma run_effect:
  assumes "start_run f c b (init_sys s0) acts s" "fatal s0 = None"
  shows "\<exists>C. outside_step (c_out c) stored dlq committed good C (wld s0) (wld (shared s))
    \<and> (\<forall>m \<in> C. handled (stored (wld (shared s))) (dlq (wld (shared s))) m)"
  using start_run_ok [OF assms(1) sys_ok_init [OF assms(2)]]
  by (auto simp: accounted_def adv_def done_with_def)

end

context fleet_footprint
begin

lemma killable_footprint:
  "fleet_footprint (killable_consumer c) (at_world I) M (killable_endpoints b)"
proof unfold_locales
  let ?c = "killable_consumer c"
  fix x x' d t ts ms put n e m now r
  show "CtxErr (c_out ?c) x = Some e \<Longrightarrow> ctx_error e"
    using ctx_I [of "fst x" e] by (auto simp: killed_ctx ctx_error_def split: if_splits)
  assume I: "I (fst x)"
  note keeps = alive_keeps [where I = I, OF I] alive_unit_keeps [where I = I, OF I]
  show "I (fst (Cancel (c_out ?c) x))" using cancel_I [OF I] I by (cases x) simp
  show "t \<in> txs_of M \<Longrightarrow> I (fst (fst (Register (c_out ?c) d t x)))"
    using register_I by (simp add: keeps)
  show "set ts \<subseteq> txs_of M \<Longrightarrow> I (fst (fst (Registers (c_out ?c) d ts x)))"
    using registers_I by (simp add: keeps)
  show "set ms \<subseteq> M \<Longrightarrow> I (fst (fst (CommitMessages (c_out ?c) ms x)))"
    using commit_I by (simp add: keeps)
  have [simp]: "dlq_reason ?c m e = dlq_reason c m e" "dlq_payload ?c m e now = dlq_payload c m e now"
    by (simp_all add: dlq_reason_def dlq_payload_def payloadFingerprint_def split: sum.split)
  show "\<lbrakk>WriteMessages (c_out ?c) = Some put; m \<in> M; dlq_reason ?c m e\<rbrakk>
      \<Longrightarrow> I (fst (fst (put (dlq_payload ?c m e now) x)))"
    using write_I by (auto intro!: keeps)
  show "I (fst (fst (Now (c_out ?c) x)))" "I (fst (fst (Int63n (c_out ?c) n x)))" "I (fst (Sleep (c_out ?c) d x))"
    "I (fst (CloseWriter (killable_endpoints b) x))" "I (fst (CloseReader (killable_endpoints b) x))"
    using now_I rand_I sleep_I close_I by (simp_all add: keeps)
  assume f: "FetchMessage (killable_endpoints b) x = (x', r)"
  from alive_result [OF f [simplified]] I fetch_I [of "fst x"]
  show "I (fst x') \<and> (\<forall>m. r = Inr m \<longrightarrow> m \<in> M)" by auto
next
  show "0 \<le> MaxProcessRetries (c_cfg (killable_consumer c))" using retries by simp
qed

end

subsection \<open>A process that is never killed\<close>

text \<open>Without a limit the killable process is the process: every operation does the same.\<close>

definition unkilled :: "'w cstate \<Rightarrow> ('w \<times> nat option) cstate" where
  "unkilled s = \<lparr>wld = (wld s, None), inflight = inflight s, mcalls = mcalls s, fatal = fatal s\<rparr>"

abbreviation unkilled_fst :: "'w cstate \<times> 'r \<Rightarrow> ('w \<times> nat option) cstate \<times> 'r" where
  "unkilled_fst \<equiv> \<lambda>(s, r). (unkilled s, r)"

lemma alive_None [simp]: "alive call off (w, None) = (\<lambda>(w, r). ((w, None), r)) (call w)"
  "alive_unit act (w, None) = (act w, None)"
  by (simp_all add: alive_def alive_unit_def case_prod_beta)

lemma unkilled_simps [simp]:
  "emit m (unkilled s) = unkilled (emit m s)" "add_inflight i (unkilled s) = unkilled (add_inflight i s)"
  "show_inflight (unkilled s) = unkilled (show_inflight s)" "wld (unkilled s) = (wld s, None)"
  "(unkilled s)\<lparr>wld := (w, None)\<rparr> = unkilled (s\<lparr>wld := w\<rparr>)" "fatal (unkilled s) = fatal s"
  "cancelled (killable_consumer c) (unkilled s) = cancelled c s"
  "triggerFatal (killable_consumer c) e (unkilled s) = unkilled (triggerFatal c e s)"
  by (simp_all add: unkilled_def consumer_defs)

lemma unkilled_now: "c_now (killable_consumer c) (unkilled s) = unkilled_fst (c_now c s)"
  by (simp add: c_now_def case_prod_beta)

lemma unkilled_observe:
  "observe_processing (killable_consumer c) ls t (unkilled s) = unkilled (observe_processing c ls t s)"
  "set_last_success (killable_consumer c) (unkilled s) = unkilled (set_last_success c s)"
  "observeLag (killable_consumer c) m (unkilled s) = unkilled (observeLag c m s)"
  by (simp_all add: observe_processing_def set_last_success_def observeLag_def unkilled_now Let_def case_prod_beta)

lemma unkilled_sleep:
  "sleepBackoff (killable_consumer c) n (unkilled s) = map_option unkilled (sleepBackoff c n s)"
  "pauseWithJitter (killable_consumer c) (unkilled s) = map_option unkilled (pauseWithJitter c s)"
  by (simp_all add: pauseWithJitter_def sleepBackoff_def backoff_delay_def float_to_int64_def Let_def
      case_prod_beta killable_consumer_def killable_def)

lemma unkilled_route:
  "routeToDLQ (killable_consumer c) m e (unkilled s) = unkilled_fst (routeToDLQ c m e s)"
proof -
  have [simp]: "dlq_payload (killable_consumer c) m e t = dlq_payload c m e t" for t
    by (simp add: dlq_payload_def payloadFingerprint_def)
  show ?thesis
    by (simp add: routeToDLQ_def unkilled_now Let_def case_prod_beta split: option.split)
qed

lemma unkilled_commit: "commit (killable_consumer c) m (unkilled s) = unkilled_fst (commit c m s)"
  by (simp add: commit_def Let_def case_prod_beta split: option.split)

lemmas map_binds = bind_map_option map_option_bind comp_def case_prod_beta

lemma unkilled_ctx: "CtxErr (killable out) (w, None) = CtxErr out w"
  by simp

lemma unkilled_attempts:
  "process_attempts (killable_consumer c) t n a (unkilled s) = map_option unkilled_fst (process_attempts c t n a s)"
  by (induction n arbitrary: a s)
    (simp_all add: unkilled_sleep map_binds Let_def split: option.split)

lemma unkilled_process:
  "processMessageWithRetries (killable_consumer c) m (unkilled s) = map_option unkilled_fst (processMessageWithRetries c m s)"
  by (simp add: processMessageWithRetries_def unkilled_attempts split: sum.split)

lemma unkilled_dlq_loop:
  "dlq_loop f (killable_consumer c) m e (unkilled s) = map_option unkilled_fst (dlq_loop f c m e s)"
  by (induction f arbitrary: s)
    (simp_all add: unkilled_route unkilled_sleep map_binds Let_def split: option.split)

lemma unkilled_commit_loop:
  "commit_loop f (killable_consumer c) m (unkilled s) = map_option unkilled (commit_loop f c m s)"
  by (induction f arbitrary: s) (simp_all add: unkilled_commit unkilled_sleep map_binds Let_def)

lemma unkilled_bulk_commit:
  "bulk_commit_loop f (killable_consumer c) ms (unkilled s) = map_option unkilled (bulk_commit_loop f c ms s)"
  by (induction f arbitrary: s) (simp_all add: unkilled_sleep map_binds Let_def)

lemma unkilled_handle:
  "handleMessage f (killable_consumer c) m (unkilled s) = map_option unkilled (handleMessage f c m s)"
  by (simp add: handleMessage_def unkilled_observe unkilled_now unkilled_process unkilled_dlq_loop
      unkilled_commit_loop map_binds Let_def cong: option.case_cong if_cong)
    (auto intro!: arg_cong [where f = "Option.bind _"] simp: fun_eq_iff unkilled_observe unkilled_dlq_loop
      unkilled_commit_loop map_binds split: option.split)

lemma unkilled_each:
  "handle_each f (killable_consumer c) ms (unkilled s) = map_option unkilled (handle_each f c ms s)"
  by (induction ms arbitrary: s) (simp_all add: unkilled_handle map_binds)

lemma unkilled_bulk_attempts:
  "bulk_attempts (killable_consumer c) ts n a e (unkilled s) = map_option unkilled_fst (bulk_attempts c ts n a e s)"
  by (induction n arbitrary: a e s)
    (simp_all add: unkilled_sleep map_binds Let_def split: option.split)

lemma unkilled_flush_body:
  "flush_body f (killable_consumer c) ms ts (unkilled s) = map_option unkilled (flush_body f c ms ts s)"
  by (simp add: flush_body_def unkilled_now unkilled_bulk_attempts map_binds Let_def)
    (auto intro!: arg_cong [where f = "Option.bind _"] simp: fun_eq_iff unkilled_observe unkilled_bulk_commit
      unkilled_each map_binds split: bulk_result.split option.split)

lemma unkilled_flushBatch:
  "flushBatch f (killable_consumer c) ms ts (unkilled s) = map_option unkilled (flushBatch f c ms ts s)"
  by (simp add: flushBatch_def unkilled_flush_body map_binds Let_def)

abbreviation unkilled_snd :: "'r \<times> 'w cstate \<Rightarrow> 'r \<times> ('w \<times> nat option) cstate" where
  "unkilled_snd \<equiv> \<lambda>(r, s). (r, unkilled s)"

lemma unkilled_flush:
  "flush f (killable_consumer c) wk (unkilled s) = map_option unkilled_snd (flush f c wk s)"
  by (simp add: flush_def unkilled_flushBatch map_binds)

lemma unkilled_worker:
  "partitionWorker f (killable_consumer c) ev wk (unkilled s) = map_option unkilled_snd (partitionWorker f c ev wk s)"
  by (auto simp: partitionWorker_def worker_recv_def unkilled_flush unkilled_handle map_binds Let_def
      split: worker_event.split sum.split)

text \<open>The whole consumer.\<close>

definition unkilled_sys :: "'w sys \<Rightarrow> ('w \<times> nat option) sys" where
  "unkilled_sys s = \<lparr>shared = unkilled (shared s), workers = workers s, phase = phase s, result = result s,
     flushes = flushes s, flusher_done = flusher_done s\<rparr>"

lemma unkilled_sys_simps [simp]:
  "shared (unkilled_sys s) = unkilled (shared s)" "workers (unkilled_sys s) = workers s"
  "phase (unkilled_sys s) = phase s" "result (unkilled_sys s) = result s"
  "flusher_done (unkilled_sys s) = flusher_done s"
  "set_world (w, None) (unkilled_sys s) = unkilled_sys (set_world w s)"
  "leave_loop (unkilled_sys s) = unkilled_sys (leave_loop s)"
  "dispatch_message m (unkilled_sys s) = unkilled_sys (dispatch_message m s)"
  "flush_metrics (unkilled_sys s) = unkilled_sys (flush_metrics s)"
  "(unkilled_sys s)\<lparr>flusher_done := x\<rparr> = unkilled_sys (s\<lparr>flusher_done := x\<rparr>)"
  "all_stopped (unkilled_sys s) = all_stopped s"
  "init_sys (unkilled s0) = unkilled_sys (init_sys s0)"
  by (simp_all add: unkilled_sys_def set_world_def leave_loop_def dispatch_message_def flush_metrics_def
      all_stopped_def init_sys_def) (simp_all add: unkilled_def)

lemma unkilled_enqueue: "enqueue m (unkilled_sys s) = map_option unkilled_sys (enqueue m s)"
  by (simp add: enqueue_def split: option.split) (simp add: unkilled_sys_def)

lemma unkilled_turn:
  "worker_turn f (killable_consumer c) p ev (unkilled_sys s) = map_option unkilled_sys (worker_turn f c p ev s)"
  by (simp add: worker_turn_def unkilled_worker map_binds) (simp add: unkilled_sys_def)

lemma unkilled_fetch_error:
  "fetch_error (killable_consumer c) e (unkilled_sys s) = map_option unkilled_sys (fetch_error c e s)"
  by (simp add: fetch_error_def unkilled_sleep map_binds) (simp add: unkilled_sys_def)

lemma unkilled_close:
  "close_all (killable_consumer c) (killable_endpoints b) (unkilled_sys s) = unkilled_sys (close_all c b s)"
  by (simp add: close_all_def Let_def) (simp add: unkilled_sys_def set_world_def unkilled_def)

lemma unkilled_perform:
  "perform f (killable_consumer c) (killable_endpoints b) a (unkilled_sys s) = map_option unkilled_sys (perform f c b a s)"
  by (cases a)
    (simp_all add: case_prod_beta unkilled_fetch_error unkilled_enqueue unkilled_turn unkilled_close
      split: phase.split)

lemma unkilled_performs:
  "performs f (killable_consumer c) (killable_endpoints b) as (unkilled_sys s)
   = map_option unkilled_sys (performs f c b as s)"
  by (induction as arbitrary: s) (simp_all add: unkilled_perform map_binds)

text \<open>
  The runs of a process that is never killed are the runs of the process: the killable consumer
  without a limit takes the same actions from the same state to the same state.
\<close>

lemma unkilled_Start:
  "Start f (killable_consumer c) (killable_endpoints b) acts (unkilled s0) s'
   \<longleftrightarrow> (\<exists>s. s' = unkilled_sys s \<and> Start f c b acts s0 s)"
  by (auto simp: Start_run unkilled_performs simp flip: performs_run)

end
