(* ===== verification/Crash.thy ===== *)
theory Crash
  imports System Killable
begin

text \<open>
  The lives of the processor: it may exit, or be killed between any two of its calls on the
  database and the broker, and be started again.
\<close>

subsection \<open>What a life leaves behind\<close>

text \<open>
  From \<open>w\<close> to \<open>w'\<close>: the table has grown by rows of messages of \<open>M\<close>, without duplicates if it
  had none, dead letters and commits are kept, and every new commit is of a message of \<open>M\<close> that
  is handled.
\<close>

definition progress ::
  "('d \<Rightarrow> row list) \<Rightarrow> (gotime \<Rightarrow> int) \<Rightarrow> kmsg set \<Rightarrow> 'd world \<Rightarrow> 'd world \<Rightarrow> bool" where
  "progress tbl micros M w w' \<longleftrightarrow>
     grown micros M (tbl (w_db w)) (tbl (w_db w'))
     \<and> (distinct (map key_of (tbl (w_db w))) \<longrightarrow> distinct (map key_of (tbl (w_db w'))))
     \<and> set (w_dlq w) \<subseteq> set (w_dlq w') \<and> set (w_commits w) \<subseteq> set (w_commits w')
     \<and> (\<forall>m \<in> set (w_commits w') - set (w_commits w).
          m \<in> M \<and> handled (world_stored tbl micros w') (set (w_dlq w')) m)"

lemma progress_same:
  "\<lbrakk>tbl (w_db w') = tbl (w_db w); w_dlq w' = w_dlq w; w_commits w' = w_commits w\<rbrakk> \<Longrightarrow> progress tbl micros M w w'"
  by (simp add: progress_def)

lemma stored_mono:
  "grown micros M (tbl (w_db w)) (tbl (w_db w')) \<Longrightarrow> world_stored tbl micros w \<subseteq> world_stored tbl micros w'"
  using grown_keys(1) by (fastforce simp: world_stored_def)

lemma progress_trans:
  assumes "progress tbl micros M w w1" "progress tbl micros M w1 w2"
  shows "progress tbl micros M w w2"
proof -
  note p = assms [unfolded progress_def]
  have "handled (world_stored tbl micros w2) (set (w_dlq w2)) m" if "m \<in> set (w_commits w1) - set (w_commits w)" for m
    using that p stored_mono [of micros M tbl w1 w2] handled_mono by meson
  then show ?thesis
    unfolding progress_def using p grown_trans by (intro conjI ballI) blast+
qed

context pg_world
begin

lemma run_progress:
  assumes "kafka_dispatch c (\<lambda>x. world_stored tbl micros (g x)) (\<lambda>x. set (w_dlq (g x)))
      (\<lambda>x. set (w_commits (g x))) (\<lambda>x. world_inv (g x)) b"
    and foot: "\<And>rows C D. fleet_footprint c (\<lambda>x. world_only rows C D M (g x)) M b"
    and run: "start_run f c b (init_sys s0) acts s" "fatal s0 = None" and M: "scripted (g (wld s0)) \<subseteq> M"
  shows "progress tbl micros M (g (wld s0)) (g (wld (shared s)))"
proof -
  let ?w = "g (wld s0)" and ?w' = "g (wld (shared s))"
  from kafka_dispatch.run_effect [OF assms(1) run] obtain C where
    C: "set (w_dlq ?w) \<subseteq> set (w_dlq ?w')" "set (w_commits ?w) \<subseteq> set (w_commits ?w')"
      "set (w_commits ?w') \<subseteq> set (w_commits ?w) \<union> C" "world_inv ?w \<longrightarrow> world_inv ?w'"
      "\<forall>m \<in> C. handled (world_stored tbl micros ?w') (set (w_dlq ?w')) m"
    unfolding outside_step_def by blast
  have "world_only (tbl (w_db ?w)) (set (w_commits ?w)) (set (w_dlq ?w)) M ?w" using M by (simp add: world_only_def)
  with fleet_footprint.footprint_run [OF foot run(1)]
  have "world_only (tbl (w_db ?w)) (set (w_commits ?w)) (set (w_dlq ?w)) M ?w'" by blast
  with C show ?thesis unfolding progress_def world_only_def world_inv_def by blast
qed

lemma life_progress:
  assumes "start_run f (NewConsumerWithMetrics (world_out drv p has_writer sha) k) world_endpoints (init_sys s0) acts s"
    and "fatal s0 = None" "scripted (wld s0) \<subseteq> M"
  shows "progress tbl micros M (wld s0) (wld (shared s))"
  by (rule run_progress [where g = "\<lambda>w. w", OF dispatch_axioms foot.fleet_footprint_axioms assms])

lemma killed_progress:
  assumes "start_run f (killable_consumer (NewConsumerWithMetrics (world_out drv p has_writer sha) k))
      (killable_endpoints world_endpoints) (init_sys s0) acts s"
    and "fatal s0 = None" "scripted (fst (wld s0)) \<subseteq> M"
  shows "progress tbl micros M (fst (wld s0)) (fst (wld (shared s)))"
  by (rule run_progress [where g = fst, OF dis.killable_dispatch foot.killable_footprint assms])

end

subsection \<open>The lives of the processor\<close>

text \<open>
  One life: the program runs to its exit, is killed while it prepares, or is killed after some
  number of calls of the consumer.
\<close>

inductive processor_life ::
  "('d, bool) sql_driver \<Rightarrow> bool \<Rightarrow> (string \<Rightarrow> string) \<Rightarrow> 'd world \<Rightarrow> 'd world \<Rightarrow> bool"
  for drv has_writer sha w where
  exits: "processor_main env inst drv has_writer sha w w' status \<Longrightarrow> processor_life drv has_writer sha w w'"
| killed_early: "processor_setup env inst drv has_writer sha w = (w', r) \<Longrightarrow> processor_life drv has_writer sha w w'"
| killed: "\<lbrakk>processor_setup env inst drv has_writer sha w = (w1, Inr a);
     Start f (killable_consumer (proc_consumer a)) (killable_endpoints world_endpoints) acts (start_state (w1, Some n)) s\<rbrakk>
    \<Longrightarrow> processor_life drv has_writer sha w (fst (wld (shared s)))"

text \<open>
  Several lives over one table and one broker. Between two lives the table, the dead letters and
  the commits stay; what the reader delivers next, with any redelivery, what fails, and the
  configuration are free. All that is ever delivered is in \<open>M\<close>.
\<close>

inductive processor_lives ::
  "('d, bool) sql_driver \<Rightarrow> ('d \<Rightarrow> row list) \<Rightarrow> bool \<Rightarrow> (string \<Rightarrow> string) \<Rightarrow> kmsg set
    \<Rightarrow> 'd world \<Rightarrow> 'd world \<Rightarrow> bool"
  for drv tbl has_writer sha M w where
  no_life: "processor_lives drv tbl has_writer sha M w w"
| next_life: "\<lbrakk>processor_lives drv tbl has_writer sha M w w1;
     tbl (w_db w2) = tbl (w_db w1); w_dlq w2 = w_dlq w1; w_commits w2 = w_commits w1; scripted w2 \<subseteq> M;
     processor_life drv has_writer sha w2 w3\<rbrakk> \<Longrightarrow> processor_lives drv tbl has_writer sha M w w3"

lemma one_life_progress:
  assumes drv: "pg_world drv tbl clock micros of_micros open_repo" and keep: "handle_keeps drv tbl"
    and life: "processor_life drv has_writer sha w w'" and M: "scripted w \<subseteq> M"
  shows "progress tbl micros M w w'"
  using life
proof (cases rule: processor_life.cases)
  case (exits env inst status)
  from exits keep show ?thesis
  proof (cases rule: processor_main_run)
    case (run k f acts s0 s)
    have "scripted (wld s0) \<subseteq> M" using run(6) M by (simp add: scripted_def)
    from pg_world.life_progress [OF drv run(1,2) this] run(3-5,7-9) show ?thesis
      by (simp add: progress_def world_stored_def)
  qed (simp add: progress_same)
next
  case (killed_early env inst r)
  from processor_setup_keeps(1-3) [OF killed_early keep] show ?thesis by (simp add: progress_same)
next
  case (killed env inst w1 a f acts n s)
  note su = processor_setup_keeps [OF killed(2) keep]
  from su(4) obtain k where c: "proc_consumer a = NewConsumerWithMetrics (world_out drv open_repo has_writer sha) k"
    by blast
  have "scripted w1 \<subseteq> M" using processor_setup_fetches [OF killed(2)] M by (simp add: scripted_def)
  with pg_world.killed_progress [OF drv, of f has_writer sha k "start_state (w1, Some n)" acts s M] killed(3) c
  have "progress tbl micros M w1 w'" by (simp add: Start_run start_state_def killed(1))
  with su(1-3) show ?thesis by (simp add: progress_def)
qed

lemma lives_progress:
  assumes "pg_world drv tbl clock micros of_micros open_repo" "handle_keeps drv tbl"
    and "processor_lives drv tbl has_writer sha M w w'"
  shows "progress tbl micros M w w'"
  using assms(3)
proof (induction rule: processor_lives.induct)
  case no_life
  show ?case by (rule progress_same) simp_all
next
  case (next_life w1 w2 w3)
  have "progress tbl micros M w1 w2" by (rule progress_same) (use next_life in simp_all)
  with next_life.IH one_life_progress [OF assms(1,2) next_life.hyps(6,5)] progress_trans show ?case by blast
qed


subsection \<open>Crash safety\<close>

text \<open>
  C3: crash safety. However often the processor exits or is killed between two calls on the
  database or the broker, and started again with any redelivery, over a driver that keeps
  \<open>pg_world\<close>: the table only grows, by rows of valid messages that were delivered in some life,
  and no key is in it twice; and every message committed in any of the lives has its transaction
  in the table or a dead letter that names it.
\<close>

theorem crash_safe:
  assumes drv: "pg_world drv tbl clock micros of_micros open_repo" and keep: "handle_keeps drv tbl"
    and lives: "processor_lives drv tbl has_writer sha M w w'"
    and u: "distinct (map key_of (tbl (w_db w)))"
  shows "(\<exists>new. tbl (w_db w') = tbl (w_db w) @ new
      \<and> (\<forall>r \<in> set new. \<exists>m \<in> M. \<exists>t now. parseAndValidateMsg m = Inr t \<and> r = row_of micros now t))
    \<and> distinct (map key_of (tbl (w_db w')))
    \<and> (\<forall>m \<in> set (w_commits w') - set (w_commits w). m \<in> M
        \<and> ((\<exists>t. parseAndValidateMsg m = Inr t \<and> tx_key micros t \<in> key_of ` set (tbl (w_db w')))
           \<or> (\<exists>r \<in> set (w_dlq w'). d_topic r = k_topic m \<and> d_partition r = k_partition m
                \<and> d_offset r = k_offset m)))"
proof (intro conjI ballI)
  note p = lives_progress [OF drv keep lives, unfolded progress_def]
  from p obtain new where n: "tbl (w_db w') = tbl (w_db w) @ new"
    "\<forall>r \<in> set new. \<exists>t \<in> txs_of M. \<exists>now. r = row_of micros now t" unfolding grown_def by blast
  have "\<forall>r \<in> set new. \<exists>m \<in> M. \<exists>t now. parseAndValidateMsg m = Inr t \<and> r = row_of micros now t"
    using n(2) unfolding txs_of_def by blast
  with n(1) show "\<exists>new. tbl (w_db w') = tbl (w_db w) @ new
      \<and> (\<forall>r \<in> set new. \<exists>m \<in> M. \<exists>t now. parseAndValidateMsg m = Inr t \<and> r = row_of micros now t)" by blast
  show "distinct (map key_of (tbl (w_db w')))" using p u by blast
  fix m assume m: "m \<in> set (w_commits w') - set (w_commits w)"
  with p show "m \<in> M" by blast
  from m p have "handled (world_stored tbl micros w') (set (w_dlq w')) m" by blast
  then show "(\<exists>t. parseAndValidateMsg m = Inr t \<and> tx_key micros t \<in> key_of ` set (tbl (w_db w')))
      \<or> (\<exists>r \<in> set (w_dlq w'). d_topic r = k_topic m \<and> d_partition r = k_partition m \<and> d_offset r = k_offset m)"
    by (auto simp: handled_def dead_def world_stored_def)
qed

text \<open>
  A life that is killed after its third call has stored a transaction and not committed it; the
  next one gets the message again.
\<close>

lemma killed_life:
  "\<exists>s. Start 5 (killable_consumer (sample_consumer True)) (killable_endpoints world_endpoints)
      [Fetched (good_msg 1), Sent, Turn 0 (Recv (good_msg 1)), Turn 0 Tick]
      (start_state (full_start [], Some 3)) s
    \<and> w_commits (fst (wld (shared s))) = [] \<and> w_dlq (fst (wld (shared s))) = []
    \<and> db_rows (w_db (fst (wld (shared s)))) = [row_of pg_micros zero_time good_tx]"
  unfolding Start_run normalized_killable sample_normalized performs_run [symmetric]
  by (simp add: full_world_def dispatch_defs run_defs consumer_defs world_defs alive_def alive_unit_def insert_row_empty)

lemma full_parts [simp]:
  "db_rows (w_db (full_world rows)) = rows" "w_dlq (full_world rows) = []" "w_commits (full_world rows) = []"
  "scripted (full_world rows) = {good_msg 1, bad_msg 2}"
  by (auto simp: full_world_def sample_world_def scripted_def)

lemma two_lives:
  "\<exists>w'. processor_lives ref_driver db_rows True (\<lambda>_. ''digest'') {good_msg 1, bad_msg 2} (full_world []) w'
    \<and> w_commits w' = [good_msg 1, bad_msg 2]"
proof -
  let ?life = "processor_life ref_driver True (\<lambda>_. ''digest'')"
  let ?lives = "processor_lives ref_driver db_rows True (\<lambda>_. ''digest'') {good_msg 1, bad_msg 2} (full_world [])"
  obtain s where s: "Start 5 (killable_consumer (sample_consumer True)) (killable_endpoints world_endpoints)
      [Fetched (good_msg 1), Sent, Turn 0 (Recv (good_msg 1)), Turn 0 Tick] (start_state (full_start [], Some 3)) s"
    "w_commits (fst (wld (shared s))) = []" "w_dlq (fst (wld (shared s))) = []"
    "db_rows (w_db (fst (wld (shared s)))) = [row_of pg_micros zero_time good_tx]"
    using killed_life by (elim exE conjE) (rule that)
  let ?w1 = "fst (wld (shared s))"
  have "?life (full_world []) ?w1" by (rule processor_life.killed [OF full_setup]) (use s(1) in simp)
  from processor_lives.next_life [OF processor_lives.no_life refl refl refl _ this]
  have l1: "?lives ?w1" by simp
  obtain w' where w: "processor_main no_env (Some empty_config) ref_driver True (\<lambda>_. ''digest'')
      (full_world [row_of pg_micros zero_time good_tx]) w' 0" "w_commits w' = [good_msg 1, bad_msg 2]"
    using full_run by blast
  from processor_lives.next_life [OF l1 _ _ _ _ processor_life.exits [OF w(1)]] s(2-4)
  have "?lives w'" by simp
  with w(2) show ?thesis by blast
qed

theorem crash_safe_witness:
  "\<exists>w' :: refdb world. processor_lives ref_driver db_rows True (\<lambda>_. ''digest'') {good_msg 1, bad_msg 2} (full_world []) w'
    \<and> w_commits w' = [good_msg 1, bad_msg 2] \<and> distinct (map key_of (db_rows (w_db w')))"
proof -
  obtain w' where w: "processor_lives ref_driver db_rows True (\<lambda>_. ''digest'') {good_msg 1, bad_msg 2} (full_world []) w'"
    "w_commits w' = [good_msg 1, bad_msg 2]" using two_lives by blast
  from crash_safe [OF ref_world.pg_world_axioms [folded open_sample] ref_keeps w(1)] w show ?thesis by auto
qed

end
