(* ===== verification/Catchup.thy ===== *)
theory Catchup
  imports Fleet
begin

text \<open>
  Progress of \<open>Start\<close>: from every state of a run, the turns of one worker are enough to finish
  what is in its channel.
\<close>

context patient_consumer
begin

text \<open>
  A worker that goes on empties its channel, and the next tick its batch; it stops early only
  when it sees that the context is done.
\<close>

lemma catch_up:
  assumes "workers s p = Some ch" "\<not> w_stopped (ch_worker ch)" "pt (shared s) < f"
  shows "\<exists>as s'. performs f c b as s = Some s' \<and> (\<forall>a \<in> set as. \<exists>ev. a = Turn p ev) \<and> drains patience {p} s s'
    \<and> (cancelled c (shared s')
       \<or> queue_of s' p = [] \<and> batchMsgs (worker_of s' p) = [] \<and> \<not> w_stopped (worker_of s' p))"
  using assms
proof (induction "length (ch_queue ch)" arbitrary: s ch)
  case 0
  have "receive Tick ch = Some ch" by simp
  from turn_exists [OF 0(2,3) this 0(4)] obtain s' wk where
    t: "perform f c b (Turn p Tick) s = Some s'" "drains patience {p} s s'"
      "partitionWorker f c Tick (ch_worker ch) (shared s) = Some (wk, shared s')"
      "workers s' p = Some (ch\<lparr>ch_worker := wk\<rparr>)" by blast
  from t(3) 0(3) have "batchMsgs wk = []" "\<not> w_stopped wk"
    by (auto simp: partitionWorker_def flush_def bind_eq_Some_conv split: if_splits)
  with t(4) 0(1) have "queue_of s' p = [] \<and> batchMsgs (worker_of s' p) = [] \<and> \<not> w_stopped (worker_of s' p)"
    by (simp add: views)
  moreover have "performs f c b [Turn p Tick] s = Some s'" using t(1) by simp
  ultimately show ?case using t(2) by (intro exI [of _ "[Turn p Tick]"] exI [of _ s']) simp
next
  case (Suc n)
  from Suc(2) obtain m q where q: "ch_queue ch = m # q" by (cases "ch_queue ch") auto
  then have "receive (Recv m) ch = Some (ch\<lparr>ch_queue := q\<rparr>)" by simp
  from turn_exists [OF Suc(3,4) this Suc(5)] obtain s1 wk where
    t: "perform f c b (Turn p (Recv m)) s = Some s1" "drains patience {p} s s1"
      "partitionWorker f c (Recv m) (ch_worker ch) (shared s) = Some (wk, shared s1)"
      "workers s1 p = Some (ch\<lparr>ch_queue := q, ch_worker := wk\<rparr>)" by auto
  show ?case
  proof (cases "cancelled c (shared s)")
    case True
    with t(3) Suc(4) have "cancelled c (shared s1)" by (simp add: partitionWorker_def worker_recv_def)
    moreover have "performs f c b [Turn p (Recv m)] s = Some s1" using t(1) by simp
    ultimately show ?thesis using t(2) by (intro exI [of _ "[Turn p (Recv m)]"] exI [of _ s1]) simp
  next
    case False
    let ?ch = "ch\<lparr>ch_queue := q, ch_worker := wk\<rparr>"
    from t(3) Suc(4) False have "\<not> w_stopped (ch_worker ?ch)"
      by (auto simp: partitionWorker_def worker_recv_def flush_def bind_eq_Some_conv Let_def
          split: if_splits sum.splits)
    moreover have "n = length (ch_queue ?ch)" "pt (shared s1) < f"
      using Suc(2,5) q t(2) by (auto simp: drains_def)
    ultimately obtain as s' where
      "performs f c b as s1 = Some s'" "\<forall>a \<in> set as. \<exists>ev. a = Turn p ev" "drains patience {p} s1 s'"
      "cancelled c (shared s') \<or> queue_of s' p = [] \<and> batchMsgs (worker_of s' p) = [] \<and> \<not> w_stopped (worker_of s' p)"
      using Suc(1) [OF _ t(4)] by blast
    with t(1) drains_trans [OF t(2)] show ?thesis
      by (intro exI [of _ "Turn p (Recv m) # as"] exI [of _ s']) fastforce
  qed
qed

end

lemma turns_only:
  assumes "\<forall>a \<in> set as. \<exists>ev. a = Turn p ev"
  shows "fetched q as = []" "abandoned q as = []"
  using assms by (induction as) auto

lemma turns_sending:
  assumes "start_run f c b s as s'" "\<forall>a \<in> set as. \<exists>ev. a = Turn p ev"
  shows "sending s' q = sending s q"
  using assms by (induction rule: start_run.induct) (auto elim!: start_stepE(5) simp: worker_turn_views(6))

text \<open>
  C7: the consumer keeps up. From every state that a run of \<open>Start\<close> reaches, as long as the
  worker of partition \<open>p\<close> has not stopped and the writes and commits of its outside do not fail
  for ever, some turns of this worker alone, which all return, finish everything that was sent
  to it: if the context is still not done after them, every message fetched from \<open>p\<close>, except one
  that the fetch loop is sending or gave up, is handled and committed.
\<close>

theorem start_catches_up:
  assumes env: "kafka_dispatch (normalized c) stored dlq committed good b"
    and live: "patient_consumer (normalized c) patience"
    and run: "Start f c b acts s0 s" and f: "fatal s0 = None"
    and fuel: "patience (wld (shared s)) < f" and up: "\<not> w_stopped (worker_of s p)"
  shows "\<exists>as s'. (\<forall>a \<in> set as. \<exists>ev. a = Turn p ev) \<and> Start f c b (acts @ as) s0 s'
    \<and> (CtxErr (c_out c) (wld (shared s')) = None \<longrightarrow>
        (\<exists>hist. fetched p acts = hist @ sending s p @ abandoned p acts
          \<and> (\<forall>m \<in> set hist. m \<in> committed (wld (shared s'))
               \<and> handled (stored (wld (shared s'))) (dlq (wld (shared s'))) m)))"
proof -
  have [simp]: "c_out (normalized c) = c_out c" by (simp add: normalized_def)
  let ?c = "normalized c"
  note run' = run [unfolded Start_run]
  obtain as s' where t: "performs f ?c b as s = Some s'" "\<forall>a \<in> set as. \<exists>ev. a = Turn p ev"
    "cancelled ?c (shared s') \<or> queue_of s' p = [] \<and> batchMsgs (worker_of s' p) = [] \<and> \<not> w_stopped (worker_of s' p)"
  proof (cases "workers s p")
    case None
    then have "queue_of s p = [] \<and> batchMsgs (worker_of s p) = []" by (simp add: views new_worker_def)
    with up that [of "[]" s] show ?thesis by simp
  next
    case (Some ch)
    with up have "\<not> w_stopped (ch_worker ch)" by (simp add: views)
    from patient_consumer.catch_up [OF live Some this fuel, of b] that show ?thesis by blast
  qed
  from run' t(1) have r: "start_run f ?c b (init_sys s0) (acts @ as) s'"
    by (simp add: performs_append flip: performs_run)
  have c: "\<exists>hist. fetched p acts = hist @ sending s p @ abandoned p acts
      \<and> (\<forall>m \<in> set hist. m \<in> committed (wld (shared s'))
           \<and> handled (stored (wld (shared s'))) (dlq (wld (shared s'))) m)"
    if ctx: "CtxErr (c_out c) (wld (shared s')) = None"
  proof -
    from t(3) ctx have e: "queue_of s' p = []" "batchMsgs (worker_of s' p) = []" "\<not> w_stopped (worker_of s' p)"
      by (auto simp: cancelled_def)
    from r ctx have "sending s' p = sending s p"
      using turns_sending [OF t(1) [unfolded performs_run] t(2)] by blast
    with kafka_dispatch.run_partition [OF env r f, of p] ctx e turns_only [OF t(2)] obtain hist where
      h: "fetched p acts = hist @ sending s p @ abandoned p acts"
        "\<forall>m \<in> set hist. handled (stored (wld (shared s'))) (dlq (wld (shared s'))) m"
        "set hist \<subseteq> committed (wld (shared s'))" by auto
    show ?thesis by (rule exI [of _ hist]) (use h in blast)
  qed
  show ?thesis unfolding Start_run
    by (rule exI [of _ as], rule exI [of _ s']) (intro conjI impI t(2) r c)
qed

lemma sample_sent:
  "\<exists>s. Start 1 (sample_consumer True) world_endpoints [Fetched (good_msg 1), Sent] sample_start s
    \<and> world_patience (wld (shared s)) < 1 \<and> \<not> w_stopped (worker_of s 0)"
  unfolding Start_run sample_normalized performs_run [symmetric]
  by (simp add: sample_start_def dispatch_defs run_defs consumer_defs world_defs world_patience_def
      worker_of_def)

theorem start_catches_up_witness:
  "\<exists>as s' :: refdb world sys. Start 1 (sample_consumer True) world_endpoints
      ([Fetched (good_msg 1), Sent] @ as) sample_start s'
    \<and> (w_cancelled (wld (shared s')) \<or> good_msg 1 \<in> set (w_commits (wld (shared s'))))"
proof -
  obtain s where s: "Start 1 (sample_consumer True) world_endpoints [Fetched (good_msg 1), Sent] sample_start s"
    "world_patience (wld (shared s)) < 1" "\<not> w_stopped (worker_of s 0)" using sample_sent by blast
  have f: "fatal sample_start = None" by (simp add: sample_start_def start_state_def)
  have live: "patient_consumer (normalized (sample_consumer True)) world_patience"
    using sample_patient [of True] by simp
  have "sending s 0 = []" using s(1) unfolding Start_run sample_normalized performs_run [symmetric]
    by (auto simp: sample_start_def dispatch_defs consumer_defs world_defs start_state_def sample_world_def
        sending_def split: prod.splits)
  with start_catches_up [OF sample_dispatch live s(1) f s(2,3)] show ?thesis
    by (auto simp: world_out_def split: if_splits)
qed

end
