(* ===== verification/Ledger.thy ===== *)
theory Ledger
  imports Provenance
begin

text \<open>
  What the consumer's counters say. As long as the broker tells the truth, the commits and dead
  letters that it counts are those that happened; the messages stored by the bulk insert are not
  among what it counts as processed.
\<close>

subsection \<open>Adding up counters\<close>

text \<open>The sum, in 64 bits, of what was added to the counters that \<open>P\<close> selects by name and labels.\<close>

fun increment :: "(string \<Rightarrow> labels \<Rightarrow> bool) \<Rightarrow> metric_call \<Rightarrow> int64" where
  "increment P (IncCounter name ls v) = (if P name ls then v else 0)"
| "increment P _ = 0"

definition tally :: "(string \<Rightarrow> labels \<Rightarrow> bool) \<Rightarrow> metric_call list \<Rightarrow> int64" where
  "tally P ms = sum_list (map (increment P) ms)"

lemma tally_simps [simp]: "tally P [] = 0" "tally P (ms @ ms') = tally P ms + tally P ms'"
  "tally P [m] = increment P m"
  by (simp_all add: tally_def)

definition commits_counted :: "string \<Rightarrow> labels \<Rightarrow> bool" where
  "commits_counted name ls \<longleftrightarrow> name = MetricCommitTotal \<and> (''result'', ''success'') \<in> set ls"

definition letters_counted :: "string \<Rightarrow> labels \<Rightarrow> bool" where
  "letters_counted name ls \<longleftrightarrow> name = MetricDLQTotal \<and> (''result'', ''success'') \<in> set ls"

definition messages_counted :: "string \<Rightarrow> string \<Rightarrow> labels \<Rightarrow> bool" where
  "messages_counted outcome name ls \<longleftrightarrow> name = MetricMessagesTotal \<and> (''result'', outcome) \<in> set ls"

lemmas counted_defs = commits_counted_def letters_counted_def messages_counted_def

subsection \<open>The contract\<close>

text \<open>
  An outside whose answers are the truth: \<open>commits\<close> and \<open>letters\<close> grow by what a call that gave
  no error was asked for, and by nothing else; \<open>I\<close> is an invariant under which this holds.
\<close>

locale ledger =
  fixes c :: "'w Consumer" and commits letters :: "'w \<Rightarrow> nat" and I :: "'w \<Rightarrow> bool"
  assumes commit_true: "\<lbrakk>I w; CommitMessages (c_out c) ms w = (w', r)\<rbrakk>
      \<Longrightarrow> I w' \<and> letters w' = letters w \<and> commits w' = commits w + (if r = None then length ms else 0)"
    and write_true: "\<lbrakk>I w; WriteMessages (c_out c) = Some put; put letter w = (w', r)\<rbrakk>
      \<Longrightarrow> I w' \<and> commits w' = commits w \<and> letters w' = letters w + (if r = None then 1 else 0)"
    and register_same: "I w \<Longrightarrow> I (fst (Register (c_out c) d t w))
        \<and> commits (fst (Register (c_out c) d t w)) = commits w \<and> letters (fst (Register (c_out c) d t w)) = letters w"
    and registers_same: "I w \<Longrightarrow> I (fst (Registers (c_out c) d ts w))
        \<and> commits (fst (Registers (c_out c) d ts w)) = commits w \<and> letters (fst (Registers (c_out c) d ts w)) = letters w"
    and cancel_same: "I w \<Longrightarrow> I (Cancel (c_out c) w)
        \<and> commits (Cancel (c_out c) w) = commits w \<and> letters (Cancel (c_out c) w) = letters w"
    and now_same: "I w \<Longrightarrow> I (fst (Now (c_out c) w))
        \<and> commits (fst (Now (c_out c) w)) = commits w \<and> letters (fst (Now (c_out c) w)) = letters w"
    and rand_same: "I w \<Longrightarrow> I (fst (Int63n (c_out c) n w))
        \<and> commits (fst (Int63n (c_out c) n w)) = commits w \<and> letters (fst (Int63n (c_out c) n w)) = letters w"
    and sleep_same: "I w \<Longrightarrow> I (Sleep (c_out c) d w)
        \<and> commits (Sleep (c_out c) d w) = commits w \<and> letters (Sleep (c_out c) d w) = letters w"
begin

text \<open>
  The books: the commits, the dead letters, and the dead letters as the handler counts them, each
  up to what was there at the start.
\<close>

definition books :: "int64 \<Rightarrow> int64 \<Rightarrow> int64 \<Rightarrow> 'w cstate \<Rightarrow> bool" where
  "books x y z s \<longleftrightarrow> I (wld s)
     \<and> of_nat (commits (wld s)) - tally commits_counted (mcalls s) = x
     \<and> of_nat (letters (wld s)) - tally letters_counted (mcalls s) = y
     \<and> tally letters_counted (mcalls s) - tally (messages_counted ''dlq'') (mcalls s) = z"

lemma books_emit:
  "\<lbrakk>increment commits_counted m = 0; increment letters_counted m = 0; increment (messages_counted ''dlq'') m = 0\<rbrakk>
   \<Longrightarrow> books x y z (emit m s) = books x y z s"
  by (simp add: books_def emit_def)

lemma books_simps [simp]:
  "books x y z (add_inflight n s) = books x y z s"
  "books x y z (emit (SetGauge name ls v) s) = books x y z s"
  "books x y z (emit (ObserveDuration name ls d) s) = books x y z s"
  "books x y z (emit (retries_total reason) s) = books x y z s"
  "books x y z (emit (IncCounter MetricMessagesTotal [(''result'', ''retried'')] 1) s) = books x y z s"
  "books x y z (emit (IncCounter MetricMessagesTotal [(''result'', ''failed''), (''reason'', ''fetch'')] 1) s) = books x y z s"
  "books x y z (emit (IncCounter MetricDLQTotal [(''result'', ''error'')] 1) s) = books x y z s"
  "books x y z (emit (commit_total [(''result'', ''error'')] 1) s) = books x y z s"
  "books x y z (emit (messages_total (part_labels m ''processed'')) s) = books x y z s"
  "books x y z (emit (messages_total (part_labels m ''failed'')) s) = books x y z s"
  "books x y z (show_inflight s) = books x y z s"
  by (simp_all add: books_emit counted_defs retries_total_def commit_total_def messages_total_def
      part_labels_def show_inflight_def) (simp add: add_inflight_def books_def)

lemma books_routed: "books x y (z + 1) s \<Longrightarrow> books x y z (emit (messages_total (part_labels m ''dlq'')) s)"
  by (auto simp: books_def emit_def counted_defs messages_total_def part_labels_def algebra_simps)

lemma books_now: "books x y z s \<Longrightarrow> books x y z (fst (c_now c s))"
  using now_same by (simp add: books_def c_now_def case_prod_beta)

lemma books_observe: "books x y z s \<Longrightarrow> books x y z (observe_processing c ls t s)"
  "books x y z s \<Longrightarrow> books x y z (set_last_success c s)" "books x y z s \<Longrightarrow> books x y z (observeLag c m s)"
  using books_now by (simp_all add: observe_processing_def set_last_success_def observeLag_def Let_def case_prod_beta)

lemma books_fatal: "books x y z s \<Longrightarrow> books x y z (triggerFatal c e s)"
  using cancel_same by (simp add: books_def triggerFatal_def)

lemma books_sleep: "books x y z s \<Longrightarrow> oall (books x y z) (sleepBackoff c n s)"
  "books x y z s \<Longrightarrow> oall (books x y z) (pauseWithJitter c s)"
  using sleep_same rand_same
  by (simp_all add: books_def pauseWithJitter_def sleepBackoff_def Let_def case_prod_beta)

lemma books_route:
  assumes "books x y z s" "routeToDLQ c m e s = (s', r)"
  shows "books x y (if r = None then z + 1 else z) s'"
proof (cases "WriteMessages (c_out c)")
  case (Some put)
  obtain s1 t where n: "c_now c s = (s1, t)" by (metis surj_pair)
  have b: "books x y z s1" using books_now [OF assms(1)] n by simp
  obtain w e' where p: "put (dlq_payload c m e t) (wld s1) = (w, e')" by (metis surj_pair)
  from b have I: "I (wld s1)" by (simp add: books_def)
  from write_true [OF I Some p] b assms(2) Some n p show ?thesis
    by (auto simp: routeToDLQ_def Let_def books_def emit_def counted_defs algebra_simps split: option.splits)
qed (use assms in \<open>auto simp: routeToDLQ_def\<close>)

lemma books_commit:
  assumes "books x y z s"
  shows "books x y z (fst (commit c m s))"
proof -
  obtain w r where cm: "CommitMessages (c_out c) [m] (wld s) = (w, r)" by (metis surj_pair)
  from assms have I: "I (wld s)" by (simp add: books_def)
  from commit_true [OF I cm] assms cm show ?thesis
    by (auto simp: commit_def commit_total_def Let_def books_def emit_def counted_defs split: option.split)
qed

lemma books_attempts: "books x y z s \<Longrightarrow> oall (\<lambda>(s', r). books x y z s') (process_attempts c t n a s)"
proof (induction n arbitrary: a s)
  case (Suc n)
  obtain w err where r: "Register (c_out c) (millis (ProcessTimeoutMs (c_cfg c))) t (wld s) = (w, err)"
    by (metis surj_pair)
  have "books x y z (s\<lparr>wld := w\<rparr>)"
    using register_same [of "wld s" "millis (ProcessTimeoutMs (c_cfg c))" t] Suc.prems r by (simp add: books_def)
  with r show ?case
    by (auto simp: Let_def split: option.split
        intro!: oall_bind [OF books_sleep(1)] oall_mono [OF Suc.IH])
qed simp

lemma books_process: "books x y z s \<Longrightarrow> oall (\<lambda>(s', r). books x y z s') (processMessageWithRetries c m s)"
  by (simp add: processMessageWithRetries_def books_attempts split: sum.split)

lemma books_dlq_loop:
  "books x y z s \<Longrightarrow> oall (\<lambda>(s', routed). books x y (if routed then z + 1 else z) s') (dlq_loop f c m e s)"
proof (induction f arbitrary: s)
  case (Suc f)
  obtain s1 r where rt: "routeToDLQ c m e s = (s1, r)" by (metis surj_pair)
  from books_route [OF Suc.prems rt] rt show ?case
    by (auto simp: Let_def split: option.split
        intro!: oall_bind [OF books_sleep(2)] oall_mono [OF Suc.IH] books_fatal)
qed simp

lemma books_commit_loop: "books x y z s \<Longrightarrow> oall (books x y z) (commit_loop f c m s)"
proof (induction f arbitrary: s)
  case (Suc f)
  from books_commit [OF Suc.prems] show ?case
    by (auto simp: Let_def case_prod_beta intro!: oall_bind [OF books_sleep(2)] oall_mono [OF Suc.IH])
qed simp

lemma books_bulk_commit: "books x y z s \<Longrightarrow> oall (books x y z) (bulk_commit_loop f c ms s)"
proof (induction f arbitrary: s)
  case (Suc f)
  obtain w r where cm: "CommitMessages (c_out c) ms (wld s) = (w, r)" by (metis surj_pair)
  from Suc.prems have I: "I (wld s)" by (simp add: books_def)
  from commit_true [OF I cm] Suc.prems
  have "if r = None then books x y z (emit (commit_total [(''result'', ''success''), (''mode'', ''bulk'')]
      (of_nat (length ms))) (s\<lparr>wld := w\<rparr>)) else books x y z (s\<lparr>wld := w\<rparr>)"
    by (auto simp: books_def emit_def commit_total_def counted_defs)
  with cm show ?case
    by (auto simp: Let_def intro!: oall_bind [OF books_sleep(2)] oall_mono [OF Suc.IH])
qed simp

lemma books_handle:
  assumes "books x y z s"
  shows "oall (books x y z) (handleMessage f c m s)"
proof -
  obtain s1 t0 where n: "c_now c (observeLag c m s) = (s1, t0)" by (metis surj_pair)
  have s1: "books x y z s1" using books_now [OF books_observe(3) [OF assms], of m] n by simp
  show ?thesis unfolding handleMessage_def Let_def n prod.case
    by (rule oall_bind [OF books_process [OF s1]])
      (auto split: option.split intro!: oall_bind [OF books_dlq_loop] books_commit_loop books_observe books_routed)
qed

lemma books_each: "books x y z s \<Longrightarrow> oall (books x y z) (handle_each f c ms s)"
  by (induction ms arbitrary: s) (auto intro!: oall_bind [OF books_handle])

lemma books_bulk_attempts: "books x y z s \<Longrightarrow> oall (\<lambda>(s', r). books x y z s') (bulk_attempts c ts n a e s)"
proof (induction n arbitrary: a e s)
  case (Suc n)
  obtain w err where r: "Registers (c_out c) (millis (ProcessTimeoutMs (c_cfg c))) ts (wld s) = (w, err)"
    by (metis surj_pair)
  have "books x y z (s\<lparr>wld := w\<rparr>)"
    using registers_same [of "wld s" "millis (ProcessTimeoutMs (c_cfg c))" ts] Suc.prems r by (simp add: books_def)
  with r show ?case
    by (auto simp: Let_def split: option.split
        intro!: oall_bind [OF books_sleep(1)] oall_mono [OF Suc.IH])
qed simp

lemma books_flush_body:
  assumes "books x y z s"
  shows "oall (books x y z) (flush_body f c ms ts s)"
proof -
  obtain s1 t0 where n: "c_now c s = (s1, t0)" by (metis surj_pair)
  have s1: "books x y z s1" using books_now [OF assms] n by simp
  show ?thesis unfolding flush_body_def Let_def n prod.case
    by (rule oall_bind [OF books_bulk_attempts [OF s1]])
      (auto split: bulk_result.split option.split
        intro!: oall_bind [OF books_each] books_bulk_commit books_observe)
qed

lemma books_flushBatch: "books x y z s \<Longrightarrow> oall (books x y z) (flushBatch f c ms ts s)"
  by (auto simp: flushBatch_def Let_def intro!: oall_bind [OF books_flush_body])

lemma books_flush: "books x y z s \<Longrightarrow> oall (\<lambda>(wk', s'). books x y z s') (flush f c wk s)"
  by (auto simp: flush_def intro!: oall_bind [OF books_flushBatch])

lemma books_worker: "books x y z s \<Longrightarrow> oall (\<lambda>(wk', s'). books x y z s') (partitionWorker f c ev wk s)"
  by (auto simp: partitionWorker_def worker_recv_def Let_def split: worker_event.split sum.split
      intro!: books_flush oall_bind [OF books_flush] oall_bind [OF books_handle])

end

subsection \<open>The whole consumer\<close>

locale fleet_ledger = ledger c commits letters I
  for c :: "'w Consumer" and commits letters I +
  fixes b :: "'w endpoints"
  assumes fetch_same: "I w \<Longrightarrow> I (fst (FetchMessage b w))
        \<and> commits (fst (FetchMessage b w)) = commits w \<and> letters (fst (FetchMessage b w)) = letters w"
    and close_same: "I w \<Longrightarrow> I (CloseWriter b w)
        \<and> commits (CloseWriter b w) = commits w \<and> letters (CloseWriter b w) = letters w"
      "I w \<Longrightarrow> I (CloseReader b w)
        \<and> commits (CloseReader b w) = commits w \<and> letters (CloseReader b w) = letters w"
begin

lemma books_close: "books x y z (shared s) \<Longrightarrow> books x y z (shared (close_all c b s))"
  using close_same cancel_same by (simp add: close_all_def set_world_def books_def Let_def)

lemma books_world:
  "\<lbrakk>books x y z (shared s); I w \<and> commits w = commits (wld (shared s)) \<and> letters w = letters (wld (shared s))\<rbrakk>
   \<Longrightarrow> books x y z (shared (set_world w s))"
  by (simp add: books_def set_world_def)

lemma books_step:
  assumes "start_step f c b a s s'" "books x y z (shared s)"
  shows "books x y z (shared s')"
proof -
  have I: "I (wld (shared s))" using assms(2) by (simp add: books_def)
  from assms(1) show ?thesis
  proof (cases rule: start_step.cases)
    case (fetch_message w m)
    with fetch_same [OF I] books_world [OF assms(2), of w] show ?thesis by (simp add: dispatch_message_def)
  next
    case (fetch_failed w e)
    from fetch_failed(3) fetch_same [OF I] have w: "books x y z (shared (set_world w s))"
      by (intro books_world [OF assms(2)]) simp
    then have p: "oall (books x y z) (pauseWithJitter c (emit (IncCounter MetricMessagesTotal
        [(''result'', ''failed''), (''reason'', ''fetch'')] 1) (shared (set_world w s))))"
      by (intro books_sleep(2)) simp
    from fetch_failed(4) w oallD [OF p] show ?thesis
      by (auto simp: fetch_error_def leave_loop_def bind_eq_Some_conv split: if_splits)
  next
    case (send m)
    with assms(2) enqueue_views(2) show ?thesis by fastforce
  next
    case (turn p ev)
    from worker_turn_views(1) [OF turn(2)] oallD [OF books_worker [OF assms(2)]] show ?thesis by fastforce
  next
    case signal
    with books_world [OF assms(2)] cancel_same [OF I] show ?thesis by simp
  qed (use assms(2) books_close [OF assms(2)] in \<open>simp_all add: leave_loop_def flush_metrics_def\<close>)
qed

lemma books_run:
  assumes "start_run f c b (init_sys s0) acts s" "books x y z s0"
  shows "books x y z (shared s)"
  using assms
proof (induction acts s rule: start_run.induct)
  case run_nil
  then show ?case by (simp add: init_sys_def)
qed (blast intro: books_step)

end

text \<open>The concrete world tells the truth when no fault comes after the effect.\<close>

definition honest :: "'d world \<Rightarrow> bool" where
  "honest w \<longleftrightarrow> (\<forall>e. FailAfter e \<notin> set (w_commit_faults w) \<and> FailAfter e \<notin> set (w_write_faults w))"

lemma honest_simps [simp]: "honest (tick w) = honest w" "honest (w\<lparr>w_db := d, w_metrics := ms\<rparr>) = honest w"
  "honest (w\<lparr>w_cancelled := x\<rparr>) = honest w" "honest (w\<lparr>w_fetches := rs\<rparr>) = honest w"
  by (simp_all add: honest_def tick_def split: list.split)

lemma honest_fault:
  "\<lbrakk>pop_fault fs = (f, fs'); \<forall>e. FailAfter e \<notin> set fs\<rbrakk>
   \<Longrightarrow> (takes_effect f \<longleftrightarrow> fault_error f = None) \<and> (\<forall>e. FailAfter e \<notin> set fs')"
  by (cases f) (auto simp: pop_fault_def split: list.splits)

interpretation world_ledger: fleet_ledger "NewConsumerWithMetrics (world_out drv p has_writer sha) k"
  "\<lambda>w. length (w_commits w)" "\<lambda>w. length (w_dlq w)" honest world_endpoints
  for drv p has_writer sha k
proof unfold_locales
  let ?c = "NewConsumerWithMetrics (world_out drv p has_writer sha) k"
  have [simp]: "c_out ?c = world_out drv p has_writer sha" by (simp add: NewConsumerWithMetrics_def)
  fix w w' :: "'a world" and ms put letter and r :: "goerr option"
  assume I: "honest w"
  show "CommitMessages (c_out ?c) ms w = (w', r)
      \<Longrightarrow> honest w' \<and> length (w_dlq w') = length (w_dlq w)
        \<and> length (w_commits w') = length (w_commits w) + (if r = None then length ms else 0)"
    using I honest_fault [of "w_commit_faults w"]
    by (auto simp: world_out_sel world_commit_def honest_def tick_def split: prod.splits list.splits)
  show "\<lbrakk>WriteMessages (c_out ?c) = Some put; put letter w = (w', r)\<rbrakk>
      \<Longrightarrow> honest w' \<and> length (w_commits w') = length (w_commits w)
        \<and> length (w_dlq w') = length (w_dlq w) + (if r = None then 1 else 0)"
    using I honest_fault [of "w_write_faults w"]
    by (auto simp: world_out_sel world_write_def honest_def tick_def split: prod.splits if_splits list.splits)
qed (auto simp: NewConsumerWithMetrics_def world_out_sel world_register_def world_registers_def
    world_endpoints_def world_fetch_def case_prod_beta split: list.split)

subsection \<open>The counters tell the truth\<close>

text \<open>
  C25: the counters are exact. In every run of \<open>Start\<close> on the consumer that the program builds,
  with any number of partitions, any interleaving and any failures other than a commit or write
  that takes effect and yet reports an error: the successful commits counted, one by one or in
  bulk, are the messages committed; the successful dead letters counted are the dead letters
  written; and they are the messages counted as dead-lettered (sums in 64 bits).
\<close>

theorem start_counters_true:
  assumes c: "c = NewConsumerWithMetrics (world_out drv p has_writer sha) k"
    and run: "Start f c world_endpoints acts s0 s" and h: "honest (wld s0)" and new: "mcalls s0 = []"
  shows "of_nat (length (w_commits (wld (shared s))))
      = of_nat (length (w_commits (wld s0))) + tally commits_counted (mcalls (shared s))
    \<and> of_nat (length (w_dlq (wld (shared s))))
      = of_nat (length (w_dlq (wld s0))) + tally letters_counted (mcalls (shared s))
    \<and> tally (messages_counted ''dlq'') (mcalls (shared s)) = tally letters_counted (mcalls (shared s))"
proof -
  let ?w = "wld s0"
  from run c have r: "start_run f (NewConsumerWithMetrics (world_out drv p has_writer sha) k) world_endpoints
      (init_sys s0) acts s" by (simp add: Start_run)
  have "world_ledger.books (of_nat (length (w_commits ?w))) (of_nat (length (w_dlq ?w))) 0 s0"
    using h new by (simp add: world_ledger.books_def)
  from world_ledger.books_run [OF r this] show ?thesis
    by (auto simp: world_ledger.books_def algebra_simps)
qed

theorem start_counters_true_witness:
  "\<exists>s :: refdb world sys. tally commits_counted (mcalls (shared s)) = 2
     \<and> w_commits (wld (shared s)) = [good_msg 1, bad_msg 2]"
proof -
  obtain s where s: "Start 5 (sample_consumer True) world_endpoints sample_actions sample_start s"
    "w_commits (wld (shared s)) = [good_msg 1, bad_msg 2]" using sample_Start by blast
  have "honest (wld sample_start)" "mcalls sample_start = []" "w_commits (wld sample_start) = []"
    by (simp_all add: sample_start_def start_state_def sample_world_def honest_def)
  with start_counters_true [OF sample_consumer_def s(1)] s(2) show ?thesis by fastforce
qed

subsection \<open>What is not counted\<close>

text \<open>A call that is neither on the message counter nor on the lag gauge.\<close>

fun uncounted :: "metric_call \<Rightarrow> bool" where
  "uncounted (IncCounter name ls v) = (name \<noteq> MetricMessagesTotal)"
| "uncounted (SetGauge name ls v) = (name \<noteq> MetricLag)"
| "uncounted (ObserveDuration name ls d) = True"

definition adds :: "int64 \<Rightarrow> 'w cstate \<Rightarrow> 'w cstate \<Rightarrow> bool" where
  "adds n s s' \<longleftrightarrow> (\<exists>new. mcalls s' = mcalls s @ new \<and> list_all uncounted new \<and> tally commits_counted new = n)"

lemma adds_trans: "\<lbrakk>adds m s s1; adds n s1 s2\<rbrakk> \<Longrightarrow> adds (m + n) s s2"
  unfolding adds_def by (elim exE conjE) (auto intro: exI)

lemma adds_same: "mcalls s' = mcalls s \<Longrightarrow> adds 0 s s'"
  by (simp add: adds_def)

lemma adds_emit: "uncounted m \<Longrightarrow> adds (increment commits_counted m) s (emit m s)"
  by (simp add: adds_def emit_def)

lemma mcalls_now [simp]: "mcalls (fst (c_now c s)) = mcalls s"
  by (simp add: c_now_def case_prod_beta)

lemma adds_observe: "adds 0 s (observe_processing c ls t s)" "adds 0 s (set_last_success c s)"
  by (simp_all add: observe_processing_def set_last_success_def case_prod_beta adds_def emit_def)

lemma adds_sleep: "oall (adds 0 s) (sleepBackoff c n s)" "oall (adds 0 s) (pauseWithJitter c s)"
  by (simp_all add: pauseWithJitter_def sleepBackoff_def Let_def case_prod_beta adds_def)

lemma adds_bulk_attempts: "oall (\<lambda>(s', r). adds 0 s s') (bulk_attempts c ts n a e s)"
proof (induction n arbitrary: a e s)
  case (Suc n)
  obtain w err where r: "Registers (c_out c) (millis (ProcessTimeoutMs (c_cfg c))) ts (wld s) = (w, err)"
    by (metis surj_pair)
  let ?s = "s\<lparr>wld := w\<rparr>"
  have b: "adds 0 s ?s" by (rule adds_same) simp
  have "adds 0 ?s (emit (retries_total ''process_bulk_error'') ?s)"
    using adds_emit [of "retries_total ''process_bulk_error''" ?s] by (simp add: retries_total_def counted_defs)
  from adds_trans [OF b this] have e: "adds 0 s (emit (retries_total ''process_bulk_error'') ?s)" by simp
  have "oall (\<lambda>(s', r). adds 0 s s') (do {
      s \<leftarrow> sleepBackoff c a (emit (retries_total ''process_bulk_error'') ?s); bulk_attempts c ts n (a + 1) err s })"
    by (rule oall_bind [OF adds_sleep(1)], rule oall_mono [OF Suc.IH]) (auto dest: adds_trans [OF adds_trans [OF e]])
  with r b show ?case by (auto simp: Let_def split: option.split)
qed (simp add: adds_same)

lemma adds_bulk_commit:
  "oall (\<lambda>s'. \<exists>n. adds n s s' \<and> (\<not> cancelled c s' \<longrightarrow> n = of_nat (length ms))) (bulk_commit_loop f c ms s)"
proof (induction f arbitrary: s)
  case (Suc f)
  obtain w r where cm: "CommitMessages (c_out c) ms (wld s) = (w, r)" by (metis surj_pair)
  let ?s = "s\<lparr>wld := w\<rparr>" and ?ok = "commit_total [(''result'', ''success''), (''mode'', ''bulk'')] (of_nat (length ms))"
  have b: "adds 0 s ?s" by (rule adds_same) simp
  have "adds (of_nat (length ms)) ?s (emit ?ok ?s)"
    using adds_emit [of ?ok ?s] by (simp add: commit_total_def counted_defs)
  from adds_trans [OF b this] have e: "adds (of_nat (length ms)) s (emit ?ok ?s)" by simp
  have "oall (\<lambda>s'. \<exists>n. adds n s s' \<and> (\<not> cancelled c s' \<longrightarrow> n = of_nat (length ms)))
      (do { s \<leftarrow> pauseWithJitter c ?s; bulk_commit_loop f c ms s })"
    by (rule oall_bind [OF adds_sleep(2)], rule oall_mono [OF Suc.IH]) (use adds_trans [OF adds_trans [OF b]] in fastforce)
  with cm b e show ?case by (auto simp: Let_def)
qed simp

text \<open>
  C26: the messages that the bulk insert stores are not counted. When the insert of a batch
  succeeds, at once or after retries, and whatever becomes of its commit, the flush makes no call
  on \<open>kafka_consumer_messages_total\<close> and none on the lag gauge, although it counts one
  successful commit per message if the application still runs.
\<close>

theorem bulk_uncounted:
  assumes run: "flush_body f c msgs ts s = Some s'"
    and ok: "bulk_attempts c ts (nat (MaxProcessRetries (c_cfg c) + 1)) 0 None (fst (c_now c s)) = Some (s1, BulkDone None)"
  shows "\<exists>new. mcalls s' = mcalls s @ new \<and> list_all uncounted new
    \<and> (CtxErr (c_out c) (wld s') = None \<longrightarrow> tally commits_counted new = of_nat (length msgs))"
proof -
  obtain s0 t0 where n: "c_now c s = (s0, t0)" by (metis surj_pair)
  let ?s2 = "set_last_success c (observe_processing c [(''result'', ''processed''), (''mode'', ''bulk'')] t0 s1)"
  have "adds 0 s s0" by (rule adds_same) (use mcalls_now [of c s] n in simp)
  moreover have "adds 0 s0 s1" using oallD [OF adds_bulk_attempts ok] n by simp
  ultimately have "adds 0 s s1" using adds_trans by fastforce
  from adds_trans [OF this adds_observe(1)] have "adds 0 s (observe_processing c [(''result'', ''processed''), (''mode'', ''bulk'')] t0 s1)"
    by simp
  from adds_trans [OF this adds_observe(2)] have a: "adds 0 s ?s2" by simp
  from run ok n have "bulk_commit_loop f c msgs ?s2 = Some s'" by (simp add: flush_body_def Let_def)
  from oallD [OF adds_bulk_commit this] obtain m where m: "adds m ?s2 s'" "\<not> cancelled c s' \<longrightarrow> m = of_nat (length msgs)"
    by blast
  from adds_trans [OF a m(1)] have "adds m s s'" by simp
  with m(2) show ?thesis by (auto simp: adds_def cancelled_def)
qed

theorem bulk_uncounted_witness:
  "\<exists>s' :: refdb world cstate. w_commits (wld s') = [good_msg 1] \<and> list_all uncounted (mcalls s')"
proof -
  let ?s = "start_state (sample_world [] [])"
  have "\<exists>s1. bulk_attempts (sample_consumer True) [good_tx] (nat (MaxProcessRetries (c_cfg (sample_consumer True)) + 1)) 0 None
      (fst (c_now (sample_consumer True) ?s)) = Some (s1, BulkDone None)"
    "\<exists>s'. flush_body 5 (sample_consumer True) [good_msg 1] [good_tx] ?s = Some s' \<and> w_commits (wld s') = [good_msg 1]"
    by (simp_all add: run_defs consumer_defs world_defs)
  then obtain s1 s' where s: "flush_body 5 (sample_consumer True) [good_msg 1] [good_tx] ?s = Some s'"
      "w_commits (wld s') = [good_msg 1]"
      "bulk_attempts (sample_consumer True) [good_tx] (nat (MaxProcessRetries (c_cfg (sample_consumer True)) + 1)) 0 None
        (fst (c_now (sample_consumer True) ?s)) = Some (s1, BulkDone None)" by blast
  from bulk_uncounted [OF s(1,3)] s(2) show ?thesis by (auto simp: start_state_def)
qed

end
