(* ===== verification/Spec2Isabelle.thy ===== *)
theory Spec2Isabelle
  imports Crash Catchup Ledger
begin

text \<open>
  A verification development for the casino transaction system: a Go service that takes bet and
  win transactions from Kafka, stores them in PostgreSQL and answers queries over HTTP.

  \<^bold>\<open>The program.\<close> Two commands share one database table. The processor
  (\<open>src/cmd/processor\<close>) reads messages with \<open>internal/transport/kafka\<close>, parses their JSON
  payload (\<open>dto.go\<close>, with \<open>pkg/money\<close> and \<open>pkg/timeutil\<close>), checks the business rules
  (\<open>internal/domain\<close>), stores the transactions through \<open>internal/service\<close> and
  \<open>internal/repository\<close>, and commits the offsets; what it cannot process goes to a dead-letter
  topic. The API (\<open>src/cmd/api\<close>) lists the stored transactions (\<open>internal/transport/http\<close>).
  Both classify errors with \<open>internal/boundary\<close>, read their settings with \<open>internal/config\<close>,
  count in \<open>internal/observability/metrics\<close> and are wired by \<open>internal/bootstrap\<close> and
  \<open>internal/app\<close>.

  \<^bold>\<open>Conventions\<close> (theory Prelude). A struct is a record, a function that returns a value and an
  error is a function into a sum type with the error on the left, an error alone is an option,
  a string is its list of bytes, \<open>int64\<close> and \<open>time.Duration\<close> are 64-bit words where arithmetic
  may wrap, \<open>int\<close> settings are integers. State is passed explicitly. The calls on a metrics sink
  are values, in the order the code makes them.

  \<^bold>\<open>Theories, bottom up.\<close>

  \<^item> Prelude: collections of rewrite rules, generic lemmas on lists, sums and 64-bit integers.
  \<^item> Go_Std, Go_Time, Go_Errors, Json, Float64: the parts of the standard library that the source
    uses (\<open>strconv\<close>, \<open>strings\<close>, the layouts of \<open>time.Parse\<close>, error chains with \<open>errors.Is\<close> and
    \<open>errors.As\<close>, the scanner and the string encoder of \<open>encoding/json\<close>, binary64 rounding).
  \<^item> Money, Timeutil, Domain, Boundary: \<open>pkg/money/amount.go\<close>, \<open>pkg/timeutil/parser.go\<close>,
    \<open>internal/domain\<close>, \<open>internal/boundary/error_mapping.go\<close>.
  \<^item> Metrics, Config: \<open>sink.go\<close> and \<open>log_sink.go\<close>; \<open>config.go\<close> with cleanenv and the process
    environment as parameters.
  \<^item> Table, Repository, Refdb: the table of the migration; \<open>postgresql.go\<close>; and a reference
    database that reads the statements the adapter builds.
  \<^item> Service: the persistence port and the use cases.
  \<^item> Dto: the two payload decoders, each translated from its own file (they share only the model of
    \<open>encoding/json\<close>), and their way into the domain.
  \<^item> Consumer: the operations of \<open>consumer.go\<close> on one message, one batch and one turn of a
    partition worker. Dispatch: \<open>Start\<close>, as a step relation over the fetch loop, the workers with
    their channels, the metrics flusher and the shutdown.
  \<^item> Delivery, Worker, Partitions, Fleet: at-least-once delivery, from one message to all the
    workers. Handling: what needs no assumption. Liveness, Guarantees: the calls return, and the
    guarantees of one worker. Fatal: the error of \<open>Start\<close>. World: a concrete outside, the
    service over a database and a broker with faults.
  \<^item> Catchup: the turns of one worker finish what was sent to it. Footprint: what the consumer may
    do to its outside, as an invariant that the calls about its own messages keep. Provenance:
    where the rows, the commits and the dead letters of the processor come from. Ledger: what the
    consumer's counters say of them. Killable: a consumer that may be killed.
  \<^item> Civil, Http, Api: \<open>time.Time.MarshalJSON\<close>; handler, DTOs and router; their guarantees.
  \<^item> App: logger, composition root, application shells and the two \<open>main\<close> functions. System: the
    two programs over one table. Crash: the processor killed and started again.

  \<^bold>\<open>Interfaces.\<close> \<open>metric_sink\<close> is the contract of a metrics sink, given by the log sink.
  \<open>pg_driver\<close> is what the adapter relies on of the driver and the server: a statement stores all of
  its rows or none, a conflict on the unique key is skipped, a cursor read without an error gave
  the rows. \<open>tx_store\<close> is what the use cases rely on of the port; the adapter over any \<open>pg_driver\<close>
  gives it (\<open>pg_repo\<close>). \<open>consumer_env\<close> and \<open>kafka_consumer\<close> are what the consumer relies on of
  its outside, \<open>kafka_dispatch\<close> adds the fetches and the closing; \<open>pg_world\<close> gives all of them from
  a \<open>pg_driver\<close>, and the reference database gives \<open>pg_driver\<close>. \<open>patient_consumer\<close> is an outside
  whose writes and commits do not fail for ever. \<open>footprint\<close> and \<open>fleet_footprint\<close> are the calls
  under which a property of the outside must survive to hold through a run; \<open>pg_world\<close> gives them
  for \<open>world_only\<close>, which says where everything in the table and at the broker comes from.
  \<open>ledger\<close> and \<open>fleet_ledger\<close> are an outside whose answers are the truth, given by the world.

  \<^bold>\<open>What is shown.\<close> For the processor: from \<open>main\<close> to the exit, every message newly committed was
  delivered and is in the table or dead-lettered, the table has grown only by the rows of
  delivered messages, and it has no duplicate; a dead letter carries the source and the reason of
  its message, and the placeholder and the fingerprint instead of its value; in every run of \<open>Start\<close>, whatever the
  interleaving of the goroutines, messages of a partition are finished in order without gaps as
  long as no malformed message meets a shutdown (the run in which it does is a theorem too),
  buffers and batches keep their bounds, an error is returned only for a dead letter that cannot
  be written, and names its message, the same holds over any number of lives in which the processor is killed between
  two calls on the database or the broker, a worker that runs catches up with its channel, and an orderly shutdown can be
  completed; the counters of commits and dead letters are exact. For both programs: the API lists what the processor committed, and never writes.
  For the store: the statement text has
  the right placeholders, batches are atomic, idempotent and equal to single inserts, listings
  are the matching rows in order. For the API: the answer and the metrics of every query, a
  body that parses back, and the program from \<open>main\<close> to its exit, which serves requests only on
  an open handle and closes it once, after the last. For the parsers: exact results, bounds and round trips.

  \<^bold>\<open>Fuel and bounds.\<close> The endless loops (\<open>dlq_loop\<close>, \<open>commit_loop\<close>, \<open>bulk_commit_loop\<close>) take
  fuel, and \<open>None\<close> is a call that does not return. Safety holds for every fuel. \<open>worker_returns\<close>,
  \<open>start_catches_up\<close> and \<open>shutdown_completes\<close> show that any fuel above the patience of the
  outside is enough, where the patience bounds the failures still to come; for \<open>World\<close> it is the
  length of the list of faults. \<open>rand.Int63n\<close> panics when the jitter in nanoseconds is not
  positive in 64 bits; this is \<open>None\<close> as well, and the contract excludes it. The retry loops have a
  fixed number of iterations.

  \<^bold>\<open>Concurrency.\<close> One step of \<open>start_step\<close> is one action of one goroutine: a fetch, a send, a
  worker's turn, a tick, the stop signal. A turn of a worker is one step, although other
  goroutines may act in between: what they change and a turn can see is the state of the outside
  (context, database, broker), whose operations may do more than they are asked for. The contract
  lets each outside operation cancel the context or add rows and dead letters on its own; the
  commits, which no goroutine reads, and the updates of the sink and the counter commute.
  A channel is its buffer; a worker after a drain timeout may go on running after \<open>Start\<close> has
  returned. A kill is an outside that stops taking effect after some number of calls
  (\<open>killable\<close>); as it keeps the contracts, what holds of a run holds of what a kill leaves behind,
  and without a limit its runs are those of the program (\<open>unkilled_Start\<close>).

  The API serves its requests one after the other (\<open>serve_all\<close>): those before the event that
  ends it, then those in flight that \<open>server.Shutdown\<close> waits for. A handler shares with others only
  the database and the metrics sink; what a request records on the sink is stated for requests
  that do not overlap.

  \<^bold>\<open>Findings\<close> that are theorems: \<open>shutdown_skips_batch\<close>, \<open>backoff_overflow\<close>,
  \<open>far_timestamp_listing\<close>, \<open>duration_reported_late\<close>, \<open>drain_metrics_lost\<close>,
  \<open>bulk_uncounted\<close>, \<open>ParseToMinorUnits_inner_signs\<close>.

  \<^bold>\<open>Not modelled.\<close> Log output (\<open>slog\<close>), except for the level that \<open>SetupLogger\<close> and \<open>Classify\<close>
  choose. The wall-clock timing of timers and tickers: a tick may come at any time, and a timeout
  is an event. The generated \<open>docs/docs.go\<close>, the Swagger pages and the schema types of
  \<open>swagger_types.go\<close>. \<open>internal/testutil\<close>, which starts containers for tests. Of \<open>net/http\<close>: path
  cleaning, the body of a redirect, the requests that \<open>Shutdown\<close> no longer waits for after its
  timeout or that a listening error leaves behind. Malformed time
  zones and layouts other than the five the source lists. \<open>time.NewTicker\<close> panics on an interval
  that is not positive in 64 bits; the intervals of the tickers are taken to fit, that is to be at
  most 9223372036 seconds, which the configuration does not check. Infinities and NaN, which no metric of
  the program takes.
\<close>

end
